(* ===== verification/Duma_Prelude.thy ===== *)
theory Duma_Prelude
  imports Main "HOL-Library.Word"
begin

text \<open>
  Shared vocabulary of the development.

  \<^item> Machine integers: \<open>u8\<close>, \<open>u32\<close> and \<open>u64\<close> are the \<open>char\<close>, \<open>int\<close> and
    \<open>size_t\<close>/pointer types of an LP64 target.
  \<^item> Outcomes: every operation that can abort, fault or block returns a sum whose left
    side says how the program stopped; \<open>and_then\<close> sequences two such operations the way
    \<open>;\<close> does in C.
  \<^item> Rounding to powers of two by masks, the idiom \<open>x & ~(a - 1)\<close> the allocator uses for
    all of its address arithmetic, related once and for all to \<open>div\<close> and \<open>mod\<close> on
    natural numbers.
  \<^item> Address ranges: \<open>in_rng a n x\<close> is the half-open byte range \<open>[a, a + n)\<close>.
\<close>

section \<open>Types and collections\<close>

type_synonym u8 = "8 word"
type_synonym u32 = "32 word"
type_synonym u64 = "64 word"

unbundle bit_operations_syntax

named_theorems duma_defs "definitions unfolded when an operation is evaluated"
named_theorems frame_simps "fields an operation leaves alone"
named_theorems outcome_simps "how a sequence of operations returns or stops"

text \<open>The bytes of a string literal, without its terminator.\<close>

definition bytes_of :: "string \<Rightarrow> u8 list" where
  "bytes_of s = map of_char s"

section \<open>Sequencing outcomes\<close>

fun and_then :: "'e + 'a \<Rightarrow> ('a \<Rightarrow> 'e + 'b) \<Rightarrow> 'e + 'b" where
  "and_then (Inl e) f = Inl e"
| "and_then (Inr x) f = f x"

lemma and_then_Inr_iff [outcome_simps]:
  "and_then m f = Inr y \<longleftrightarrow> (\<exists>x. m = Inr x \<and> f x = Inr y)"
  by (cases m) auto

lemma and_then_InrE:
  assumes "and_then m f = Inr y"
  obtains x where "m = Inr x" and "f x = Inr y"
  using assms by (auto simp: and_then_Inr_iff)

lemma and_then_Inl_iff:
  "and_then m f = Inl e \<longleftrightarrow> m = Inl e \<or> (\<exists>x. m = Inr x \<and> f x = Inl e)"
  by (cases m) auto

lemma and_then_assoc: "and_then (and_then m f) g = and_then m (\<lambda>x. and_then (f x) g)"
  by (cases m) auto

lemma and_then_return [simp]: "and_then m Inr = m"
  by (cases m) auto

lemma and_then_cong [fundef_cong]:
  assumes "m = m'" and "\<And>x. m' = Inr x \<Longrightarrow> f x = f' x"
  shows "and_then m f = and_then m' f'"
  using assms by (cases m') auto

section \<open>Lists\<close>

lemma nth_update_if: "xs[j := y] ! i = (if i = j \<and> j < length xs then y else xs ! i)"
  by (cases "j < length xs") (simp_all add: nth_list_update list_update_beyond)

section \<open>Rounding by masks\<close>

lemma unat_pow2 [simp]: "k < LENGTH('a) \<Longrightarrow> unat (2 ^ k :: 'a::len word) = 2 ^ k"
  by transfer simp

text \<open>\<open>x & ~(2 ^ k - 1)\<close> rounds down to a multiple of \<open>2 ^ k\<close>.\<close>

lemma and_not_mask_push_drop:
  fixes x :: "'a::len word"
  shows "x AND NOT (2 ^ k - 1) = push_bit k (drop_bit k x)"
  by (simp add: bit_eq_iff bit_simps flip: mask_eq_exp_minus_1) (auto simp: bit_simps)

lemma unat_and_not_mask:
  fixes x :: "'a::len word"
  shows "unat (x AND NOT (2 ^ k - 1)) = unat x - unat x mod 2 ^ k"
proof -
  have "push_bit k (drop_bit k (unat x)) = unat x - unat x mod 2 ^ k"
    by (simp add: push_bit_eq_mult drop_bit_eq_div minus_mod_eq_div_mult [symmetric])
  moreover have "\<dots> < 2 ^ LENGTH('a)"
    using unsigned_less [of x] by (rule le_less_trans [OF diff_le_self])
  ultimately show ?thesis
    by (simp add: and_not_mask_push_drop unsigned_push_bit_eq unat_drop_bit_eq take_bit_nat_eq_self)
qed

section \<open>Powers of two\<close>

lemma odd_decomp: "0 < (n::nat) \<Longrightarrow> \<exists>k q. n = 2 ^ k * (2 * q + 1)"
proof (induction n rule: less_induct)
  case (less n)
  show ?case
  proof (cases "even n")
    case True
    then obtain m where m: "n = 2 * m" by blast
    with less.prems have "m < n" "0 < m" by auto
    with less.IH obtain k q where "m = 2 ^ k * (2 * q + 1)" by blast
    with m have "n = 2 ^ Suc k * (2 * q + 1)" by simp
    then show ?thesis by blast
  next
    case False
    then obtain q where "n = 2 * q + 1" using oddE by blast
    then have "n = 2 ^ 0 * (2 * q + 1)" by simp
    then show ?thesis by blast
  qed
qed

lemma odd_and_even: "(2 * q + 1) AND (2 * q) = (2 * q :: nat)"
  by (subst and_rec) simp

lemma nat_and_pred:
  fixes a :: nat
  assumes a: "a = 2 ^ k * (2 * q + 1)"
  shows "a AND (a - 1) = 2 ^ k * (2 * q)"
proof -
  define m :: nat where "m = 2 ^ k - 1"
  have m: "m < 2 ^ k" "a - 1 = 2 ^ k * (2 * q) + m"
    by (simp_all add: m_def a algebra_simps)
  have "take_bit k a = 0" by (simp add: a take_bit_eq_mod del: mult_Suc_right)
  moreover have "drop_bit k a = 2 * q + 1" "drop_bit k (a - 1) = 2 * q"
    unfolding m(2) using m(1) by (simp_all add: a drop_bit_eq_div del: mult_Suc_right)
  ultimately show ?thesis
    using bits_ident [of k "a AND (a - 1)"] odd_and_even [of q]
    by (simp add: push_bit_eq_mult mult.commute)
qed

lemma unat_and: "unat (x AND y) = unat x AND unat (y::'a::len word)"
  by (fact unsigned_and_eq)

lemma word_and_pred:
  fixes w :: "'a::len word"
  assumes "unat w = 2 ^ k * (2 * q + 1)"
  shows "unat (w AND (w - 1)) = 2 ^ k * (2 * q)"
proof -
  have "w \<noteq> 0" using assms by (metis add_is_0 mult_is_0 one_neq_zero power_not_zero unsigned_0 zero_neq_numeral)
  then have "unat (w - 1) = unat w - 1" by (simp add: unat_minus_one)
  then show ?thesis using nat_and_pred [OF assms] by (simp add: unat_and)
qed

lemma and_pred_less: "w \<noteq> 0 \<Longrightarrow> w AND (w - 1) < (w :: 'a::len word)"
proof -
  assume "w \<noteq> 0"
  then have "0 < unat w" by (simp add: unat_gt_0)
  then obtain k q where "unat w = 2 ^ k * (2 * q + 1)" using odd_decomp by blast
  then show ?thesis using word_and_pred [of w k q] by (simp add: word_less_nat_alt)
qed

lemma and_not_minus: "x AND NOT y = x - (x AND (y::'a::len word))"
proof -
  have "(x AND y) + (x AND NOT y) = (x AND y) OR (x AND NOT y)"
    by (rule disjunctive_add) (simp add: bit_simps)
  also have "\<dots> = x" by (simp add: bit_eq_iff bit_simps) blast
  finally show ?thesis by (simp add: algebra_simps)
qed
lemma and_uminus_eq: "w AND - w = w - (w AND (w - 1))" for w :: "'a::len word"
  by (simp add: minus_eq_not_minus_1 and_not_minus)

definition is_pow2 :: "'a::len word \<Rightarrow> bool" where
  "is_pow2 w \<longleftrightarrow> w \<noteq> 0 \<and> w AND (w - 1) = 0"

lemma is_pow2_iff: "is_pow2 (w :: 'a::len word) \<longleftrightarrow> (\<exists>k<LENGTH('a). w = 2 ^ k)"
proof
  assume p: "is_pow2 w"
  then have "0 < unat w" by (simp add: is_pow2_def unat_gt_0)
  then obtain k q where d: "unat w = 2 ^ k * (2 * q + 1)" using odd_decomp by blast
  with p have "q = 0" using word_and_pred [of w k q] by (simp add: is_pow2_def)
  with d have u: "unat w = 2 ^ k" by simp
  with unsigned_less [of w] have "(2::nat) ^ k < 2 ^ LENGTH('a)" by metis
  then have "k < LENGTH('a)" by (rule power_less_imp_less_exp [rotated]) simp
  moreover from this have "unat (2 ^ k :: 'a word) = 2 ^ k" by (rule unat_pow2)
  with u have "w = 2 ^ k" by (simp only: word_unat_eq_iff)
  ultimately show "\<exists>k<LENGTH('a). w = 2 ^ k" by blast
next
  assume "\<exists>k<LENGTH('a). w = 2 ^ k"
  then obtain k where k: "k < LENGTH('a)" "w = 2 ^ k" by blast
  then have "unat w = 2 ^ k * (2 * 0 + 1)" by simp
  from word_and_pred [OF this] have "w AND (w - 1) = 0" by (simp add: unat_eq_0)
  moreover from k have "w \<noteq> 0" by simp
  ultimately show "is_pow2 w" by (simp add: is_pow2_def)
qed

lemma and_uminus_same_iff: "w AND - w = w \<longleftrightarrow> w = 0 \<or> is_pow2 w" for w :: "'a::len word"
  by (auto simp: and_uminus_eq is_pow2_def)

lemma is_pow2_exp [simp]: "k < LENGTH('a) \<Longrightarrow> is_pow2 (2 ^ k :: 'a::len word)"
  by (auto simp: is_pow2_iff)

lemma is_pow2E:
  fixes w :: "'a::len word"
  assumes "is_pow2 w"
  obtains k where "k < LENGTH('a)" and "w = 2 ^ k" and "unat w = 2 ^ k"
  using assms by (auto simp: is_pow2_iff)

lemma is_pow2_pos: "is_pow2 w \<Longrightarrow> 0 < unat w"
  by (simp add: is_pow2_def unat_gt_0)

section \<open>Rounding on natural numbers\<close>

definition round_down :: "nat \<Rightarrow> nat \<Rightarrow> nat" where
  "round_down P n = n - n mod P"

definition round_up :: "nat \<Rightarrow> nat \<Rightarrow> nat" where
  "round_up P n = round_down P (n + P - 1)"

lemma round_down_le [simp]: "round_down P n \<le> n"
  by (simp add: round_down_def)

lemma round_down_gt: "0 < P \<Longrightarrow> n < round_down P n + P"
proof -
  assume "0 < P"
  then have "n mod P < P" by simp
  moreover have "n mod P \<le> n" by simp
  ultimately show ?thesis unfolding round_down_def by arith
qed

lemma dvd_round_down [simp]: "P dvd round_down P n"
  by (simp add: round_down_def dvd_minus_mod)

lemma round_down_greatest: "P dvd m \<Longrightarrow> m \<le> n \<Longrightarrow> m \<le> round_down P n"
  by (auto simp: round_down_def minus_mod_eq_div_mult elim!: dvdE)
    (metis div_le_mono div_mult_self1_is_m)

lemma dvd_round_up [simp]: "P dvd round_up P n"
  by (simp add: round_up_def)

lemma round_up_ge: "0 < P \<Longrightarrow> n \<le> round_up P n"
  using round_down_gt [of P "n + P - 1"] by (simp add: round_up_def)

lemma round_up_less: "0 < P \<Longrightarrow> round_up P n < n + P"
proof -
  assume "0 < P"
  moreover have "round_up P n \<le> n + P - 1" by (simp only: round_up_def round_down_le)
  ultimately show ?thesis by arith
qed

lemma round_up_least: "0 < P \<Longrightarrow> P dvd m \<Longrightarrow> n \<le> m \<Longrightarrow> round_up P n \<le> m"
proof (rule ccontr)
  assume "0 < P" "P dvd m" "n \<le> m" "\<not> round_up P n \<le> m"
  then have "P dvd round_up P n - m" "0 < round_up P n - m" by (simp_all add: dvd_diff_nat)
  then have "P \<le> round_up P n - m" by (rule dvd_imp_le)
  with round_up_less [OF \<open>0 < P\<close>, of n] \<open>n \<le> m\<close> \<open>0 < round_up P n - m\<close> show False by arith
qed

lemma round_up_pos: "0 < P \<Longrightarrow> 0 < n \<Longrightarrow> 0 < round_up P n"
  using round_up_ge [of P n] by simp

lemma dvd_less_le: "P dvd x \<Longrightarrow> x < a \<Longrightarrow> P dvd a \<Longrightarrow> x + P \<le> (a :: nat)"
  using dvd_imp_le [of P "a - x"] by (simp add: dvd_diff_nat)

section \<open>Address ranges\<close>

definition in_rng :: "u64 \<Rightarrow> u64 \<Rightarrow> u64 \<Rightarrow> bool" where
  "in_rng a n x \<longleftrightarrow> unat a \<le> unat x \<and> unat x < unat a + unat n"

lemma in_rng_empty [simp]: "\<not> in_rng a 0 x"
  by (simp add: in_rng_def)

lemma in_rng_split:
  assumes "unat a + unat n < 2 ^ 64" and "m \<le> n"
  shows "in_rng a n x \<longleftrightarrow> in_rng a m x \<or> in_rng (a + m) (n - m) x"
proof -
  have "unat m \<le> unat n" using assms(2) by (simp add: word_le_nat_alt)
  then have "unat (a + m) = unat a + unat m" "unat (n - m) = unat n - unat m"
    using assms by (simp_all add: unat_add_lem [THEN iffD1] unat_sub)
  then show ?thesis using \<open>unat m \<le> unat n\<close> by (auto simp: in_rng_def)
qed

lemma unat_add_no_wrap: "unat a + unat b < 2 ^ LENGTH('a) \<Longrightarrow> unat (a + b :: 'a::len word) = unat a + unat b"
  by (simp add: unat_add_lem [THEN iffD1])

lemma unat_u64 [simp]: "unat (x :: u64) < 2 ^ 64"
  by (rule order_less_le_trans [OF unsigned_less]) simp

lemma unat_word_of_nat: "n < 2 ^ 64 \<Longrightarrow> unat (word_of_nat n :: u64) = n"
  by (simp only: unsigned_of_nat len_num1 len_bit0) (simp add: take_bit_nat_eq_self)

lemma succ_unat: "b < e \<Longrightarrow> unat (b + 1) = unat b + 1" for b e :: u64
  using unat_u64 [of e] by (subst unat_add_no_wrap) (simp_all add: word_less_nat_alt)

text \<open>One step of a loop that walks a pointer up to an end address.\<close>

lemma range_step: "b < e \<Longrightarrow> b \<le> x \<and> x < e \<longleftrightarrow> x = b \<or> b + 1 \<le> x \<and> x < e" for b e x :: u64
  using succ_unat [of b e] by (auto simp: word_le_nat_alt word_unat_eq_iff word_less_nat_alt)

end
