(* ===== verification/Duma_Types.thy ===== *)
theory Duma_Types
  imports Duma_Prelude
begin

text \<open>
  The enumerations of \<open>src/duma.c\<close> and \<open>duma.h\<close>, the allocator description table, and the
  ways a run of the library can stop.  The configuration modelled is the default build of
  the static library on an LP64 POSIX system: no \<open>WIN32\<close>, no \<open>DUMA_DETOURS\<close>, leak
  detection and thread safety on, implicit initialisation.
\<close>

section \<open>Enumerations\<close>

datatype DUMA_SlotState =
    DUMAST_EMPTY
  | DUMAST_FREE
  | DUMAST_IN_USE
  | DUMAST_ALL_PROTECTED
  | DUMAST_BEGIN_PROTECTED

datatype DUMA_Slot_FileSource =
    DUMAFS_EMPTY
  | DUMAFS_ALLOCATION
  | DUMAFS_DEALLOCATION

datatype DUMA_InitState =
    DUMAIS_UNINITIALIZED
  | DUMAIS_IN_CONSTRUCTOR
  | DUMAIS_OUT_CONSTRUCTOR
  | DUMAIS_IN_INIT
  | DUMAIS_OUT_INIT

text \<open>The C code compares initialisation states with \<open><\<close> and \<open>>=\<close>: the enumeration
  starts at \<open>0x1611\<close> and counts up.\<close>

fun init_state_num :: "DUMA_InitState \<Rightarrow> int" where
  "init_state_num DUMAIS_UNINITIALIZED = 0x1611"
| "init_state_num DUMAIS_IN_CONSTRUCTOR = 0x1612"
| "init_state_num DUMAIS_OUT_CONSTRUCTOR = 0x1613"
| "init_state_num DUMAIS_IN_INIT = 0x1614"
| "init_state_num DUMAIS_OUT_INIT = 0x1615"

instantiation DUMA_InitState :: linorder
begin

definition less_eq_DUMA_InitState :: "DUMA_InitState \<Rightarrow> DUMA_InitState \<Rightarrow> bool" where
  "less_eq_DUMA_InitState a b \<longleftrightarrow> init_state_num a \<le> init_state_num b"

definition less_DUMA_InitState :: "DUMA_InitState \<Rightarrow> DUMA_InitState \<Rightarrow> bool" where
  "less_DUMA_InitState a b \<longleftrightarrow> init_state_num a < init_state_num b"

instance
proof
  fix x y :: DUMA_InitState
  show "x \<le> y \<Longrightarrow> y \<le> x \<Longrightarrow> x = y"
    by (cases x; cases y) (simp_all add: less_eq_DUMA_InitState_def)
qed (auto simp: less_eq_DUMA_InitState_def less_DUMA_InitState_def)

end

datatype DUMA_AllocType =
    DUMAAT_INTERNAL
  | DUMAAT_MALLOC
  | DUMAAT_NEW_ELEM
  | DUMAAT_NEW_ARRAY
  | DUMAAT_MEMBER_NEW_ELEM
  | DUMAAT_MEMBER_NEW_ARRAY

datatype DUMA_AllocStd = DUMAAS_C | DUMAAS_CPP

datatype DUMA_Allocator =
    EFA_INT_ALLOC | EFA_INT_DEALLOC
  | EFA_MALLOC | EFA_CALLOC | EFA_FREE | EFA_MEMALIGN | EFA_POSIX_MEMALIGN
  | EFA_REALLOC | EFA_VALLOC | EFA_STRDUP
  | EFA_NEW_ELEM | EFA_DEL_ELEM | EFA_NEW_ARRAY | EFA_DEL_ARRAY
  | EFA_MEMBER_NEW_ELEM | EFA_MEMBER_DEL_ELEM
  | EFA_MEMBER_NEW_ARRAY | EFA_MEMBER_DEL_ARRAY

datatype DUMA_FailReturn = DUMA_FAIL_NULL | DUMA_FAIL_ENV

section \<open>The allocator description table\<close>

record DUMA_AllocDesc =
  desc_name :: string
  desc_type :: DUMA_AllocType
  desc_std :: DUMA_AllocStd

fun duma_allocDesc :: "DUMA_Allocator \<Rightarrow> DUMA_AllocDesc" where
  "duma_allocDesc EFA_INT_ALLOC = \<lparr>desc_name = ''duma allocate()'', desc_type = DUMAAT_INTERNAL, desc_std = DUMAAS_C\<rparr>"
| "duma_allocDesc EFA_INT_DEALLOC = \<lparr>desc_name = ''duma deallocate()'', desc_type = DUMAAT_INTERNAL, desc_std = DUMAAS_C\<rparr>"
| "duma_allocDesc EFA_MALLOC = \<lparr>desc_name = ''malloc()'', desc_type = DUMAAT_MALLOC, desc_std = DUMAAS_C\<rparr>"
| "duma_allocDesc EFA_CALLOC = \<lparr>desc_name = ''calloc()'', desc_type = DUMAAT_MALLOC, desc_std = DUMAAS_C\<rparr>"
| "duma_allocDesc EFA_FREE = \<lparr>desc_name = ''free()'', desc_type = DUMAAT_MALLOC, desc_std = DUMAAS_C\<rparr>"
| "duma_allocDesc EFA_MEMALIGN = \<lparr>desc_name = ''memalign()'', desc_type = DUMAAT_MALLOC, desc_std = DUMAAS_C\<rparr>"
| "duma_allocDesc EFA_POSIX_MEMALIGN = \<lparr>desc_name = ''posix_memalign()'', desc_type = DUMAAT_MALLOC, desc_std = DUMAAS_C\<rparr>"
| "duma_allocDesc EFA_REALLOC = \<lparr>desc_name = ''realloc()'', desc_type = DUMAAT_MALLOC, desc_std = DUMAAS_C\<rparr>"
| "duma_allocDesc EFA_VALLOC = \<lparr>desc_name = ''valloc()'', desc_type = DUMAAT_MALLOC, desc_std = DUMAAS_C\<rparr>"
| "duma_allocDesc EFA_STRDUP = \<lparr>desc_name = ''strdup()'', desc_type = DUMAAT_MALLOC, desc_std = DUMAAS_C\<rparr>"
| "duma_allocDesc EFA_NEW_ELEM = \<lparr>desc_name = ''scalar new'', desc_type = DUMAAT_NEW_ELEM, desc_std = DUMAAS_CPP\<rparr>"
| "duma_allocDesc EFA_DEL_ELEM = \<lparr>desc_name = ''scalar delete'', desc_type = DUMAAT_NEW_ELEM, desc_std = DUMAAS_CPP\<rparr>"
| "duma_allocDesc EFA_NEW_ARRAY = \<lparr>desc_name = ''vector new[]'', desc_type = DUMAAT_NEW_ARRAY, desc_std = DUMAAS_CPP\<rparr>"
| "duma_allocDesc EFA_DEL_ARRAY = \<lparr>desc_name = ''vector delete[]'', desc_type = DUMAAT_NEW_ARRAY, desc_std = DUMAAS_CPP\<rparr>"
| "duma_allocDesc EFA_MEMBER_NEW_ELEM = \<lparr>desc_name = ''member scalar new'', desc_type = DUMAAT_MEMBER_NEW_ELEM, desc_std = DUMAAS_CPP\<rparr>"
| "duma_allocDesc EFA_MEMBER_DEL_ELEM = \<lparr>desc_name = ''member scalar delete'', desc_type = DUMAAT_MEMBER_NEW_ELEM, desc_std = DUMAAS_CPP\<rparr>"
| "duma_allocDesc EFA_MEMBER_NEW_ARRAY = \<lparr>desc_name = ''member vector new[]'', desc_type = DUMAAT_MEMBER_NEW_ARRAY, desc_std = DUMAAS_CPP\<rparr>"
| "duma_allocDesc EFA_MEMBER_DEL_ARRAY = \<lparr>desc_name = ''member vector delete[]'', desc_type = DUMAAT_MEMBER_NEW_ARRAY, desc_std = DUMAAS_CPP\<rparr>"

abbreviation alloc_type :: "DUMA_Allocator \<Rightarrow> DUMA_AllocType" where
  "alloc_type a \<equiv> desc_type (duma_allocDesc a)"

abbreviation alloc_std :: "DUMA_Allocator \<Rightarrow> DUMA_AllocStd" where
  "alloc_std a \<equiv> desc_std (duma_allocDesc a)"

lemma alloc_type_INTERNAL_iff:
  "alloc_type a = DUMAAT_INTERNAL \<longleftrightarrow> a = EFA_INT_ALLOC \<or> a = EFA_INT_DEALLOC"
  by (cases a) simp_all

section \<open>How a run stops\<close>

text \<open>
  One constructor per call of \<open>DUMA_Abort\<close>; its arguments are the values printed.  A source
  position is a file name (\<open>None\<close> for a null \<open>char *\<close>) and a line.
\<close>

type_synonym src_pos = "string option \<times> int"

datatype abort_msg =
    Page_size_incorrect
  | Null_block_failed
  | Malloc_not_bound
  | Free_not_bound
  | Alloc_0_bytes src_pos
  | Alignment_not_pow2 u64 src_pos
  | No_empty_slot_0
  | No_empty_slot_1
  | Free_before_malloc
  | Free_not_from_DUMA u64 "(u64 \<times> DUMA_Slot_FileSource \<times> src_pos) option"
  | Free_already_freed u64 DUMA_Slot_FileSource src_pos
  | Free_mismatch DUMA_Allocator DUMA_Allocator DUMA_Slot_FileSource src_pos src_pos
  | Check_not_from_DUMA u64 "(u64 \<times> DUMA_Slot_FileSource \<times> src_pos) option"
  | Check_already_freed u64 DUMA_Slot_FileSource src_pos
  | Slack_overwritten_below u64 u64 src_pos
  | Slack_overwritten_above u64 u64 src_pos
  | Realloc_not_from_malloc u64 u64
  | Usable_size_before_malloc
  | Usable_size_not_from_malloc u64
  | Memcpy_overlap u64 u64 u64 src_pos
  | Strcpy_overlap u64 u64 src_pos
  | Strncpy_overlap u64 u64 u64 src_pos
  | Strcat_overlap u64 u64 src_pos
  | Strncat_overlap u64 u64 u64 src_pos
  | Mprotect_failed
  | Mmap_failed u64
  | Semaphore_not_initialised
  | Semaphore_not_locked
  | Number_too_long

text \<open>
  A run stops in \<open>DUMA_Abort\<close>, in a failed \<open>DUMA_ASSERT\<close>, with a fault at an address, by
  waiting for a mutex another thread holds, or in a loop that never ends.
\<close>

datatype stop =
    Aborted abort_msg
  | Assert_failed string
  | Segv u64
  | Blocked
  | Diverges

text \<open>One constructor per call of \<open>DUMA_Print\<close> outside \<open>DUMA_Abort\<close>.\<close>

datatype print_msg =
    Show_allocating u64 src_pos
  | Show_zero_size
  | Show_freeing u64 src_pos src_pos
  | Mmap_warning u64
  | Leak_report u64 u64 DUMA_Allocator src_pos
  | Leak_summary int int
  | Show_counts int int
  | Banner_vertype
  | Banner_version
  | Banner_copyright

end
