(* ===== verification/Duma_Paging.thy ===== *)
theory Duma_Paging
  imports Duma_Types
begin

text \<open>
  \<open>paging.h\<close>: creating, deleting and protecting pages.

  The kernel is not part of the repository.  What it decides (where a mapping goes, whether
  a call succeeds) is the record \<open>platform\<close>, an argument of every definition; what it
  documents about successful calls is \<open>os_ok\<close>.  Its decisions may depend on the page table
  and on the number of system calls made so far (\<open>clock\<close>), so the same request can be
  answered differently later.  The effect of a successful call on the page table is
  written out here.  The constants of the generated file \<open>duma_config.h\<close> are fields of the
  same record.
\<close>

section \<open>Machine state\<close>

datatype perm = Unmapped | NoAccess | ReadWrite

record platform =
  DUMA_PAGE_SIZE :: u64
  DUMA_MIN_ALIGNMENT :: u32
  os_pagesize :: u64
  os_mmap :: "nat \<Rightarrow> (nat \<Rightarrow> perm) \<Rightarrow> u64 \<Rightarrow> u64 \<Rightarrow> u64 option"
  os_mprotect :: "nat \<Rightarrow> (nat \<Rightarrow> perm) \<Rightarrow> u64 \<Rightarrow> u64 \<Rightarrow> bool"
  os_munmap :: "nat \<Rightarrow> (nat \<Rightarrow> perm) \<Rightarrow> u64 \<Rightarrow> u64 \<Rightarrow> bool"
  pthread_self :: nat

text \<open>
  \<open>pages\<close> maps a page number to its protection, \<open>bytes\<close> holds the contents, \<open>startAddr\<close> is
  the static hint variable of \<open>paging.h\<close>, \<open>out\<close> the messages printed so far.  Records of
  the later theories extend this one, so the operations below apply to them unchanged.
\<close>

record machine =
  pages :: "nat \<Rightarrow> perm"
  bytes :: "u64 \<Rightarrow> u8"
  startAddr :: u64
  clock :: nat
  out :: "print_msg list"

definition DUMA_Print :: "print_msg \<Rightarrow> 'a machine_scheme \<Rightarrow> 'a machine_scheme" where
  "DUMA_Print msg m = m\<lparr>out := out m @ [msg]\<rparr>"

abbreviation psz :: "platform \<Rightarrow> nat" where
  "psz pf \<equiv> unat (os_pagesize pf)"

text \<open>Page \<open>k\<close> meets the byte range of \<open>n\<close> bytes at \<open>a\<close>, \<open>a\<close> at the start of a page.\<close>

definition page_span :: "nat \<Rightarrow> nat \<Rightarrow> nat \<Rightarrow> nat \<Rightarrow> bool" where
  "page_span P a n k \<longleftrightarrow> a div P \<le> k \<and> k * P < a + n"

definition set_pages :: "platform \<Rightarrow> u64 \<Rightarrow> u64 \<Rightarrow> perm \<Rightarrow> (nat \<Rightarrow> perm) \<Rightarrow> (nat \<Rightarrow> perm)" where
  "set_pages pf a n p pg = (\<lambda>k. if page_span (psz pf) (unat a) (unat n) k then p else pg k)"

definition perm_at :: "platform \<Rightarrow> 'a machine_scheme \<Rightarrow> u64 \<Rightarrow> perm" where
  "perm_at pf m x = pages m (unat x div psz pf)"

section \<open>Documented behaviour of the kernel\<close>

definition page_ok :: "platform \<Rightarrow> bool" where
  "page_ok pf \<longleftrightarrow> DUMA_PAGE_SIZE pf = os_pagesize pf \<and> is_pow2 (os_pagesize pf) \<and>
     2 ^ 12 \<le> psz pf \<and> psz pf \<le> 2 ^ 20"

text \<open>
  \<open>mmap\<close> returns page-aligned, non-null, previously unmapped memory inside the address
  space; \<open>mprotect\<close> succeeds on page-aligned mapped memory only; \<open>munmap\<close> on page-aligned
  addresses only.
\<close>

definition os_ok :: "platform \<Rightarrow> bool" where
  "os_ok pf \<longleftrightarrow>
     (\<forall>c pg hint len a. os_mmap pf c pg hint len = Some a \<longrightarrow>
        psz pf dvd unat a \<and> a \<noteq> 0 \<and> unat a + unat len < 2 ^ 64 \<and>
        (\<forall>k. page_span (psz pf) (unat a) (unat len) k \<longrightarrow> pg k = Unmapped)) \<and>
     (\<forall>c pg a n. os_mprotect pf c pg a n \<longrightarrow>
        psz pf dvd unat a \<and>
        (\<forall>k. page_span (psz pf) (unat a) (unat n) k \<longrightarrow> pg k \<noteq> Unmapped)) \<and>
     (\<forall>c pg a n. os_munmap pf c pg a n \<longrightarrow> psz pf dvd unat a)"

section \<open>Operations\<close>

definition mprotect :: "platform \<Rightarrow> u64 \<Rightarrow> u64 \<Rightarrow> perm \<Rightarrow> 'a machine_scheme \<Rightarrow> stop + 'a machine_scheme" where
  "mprotect pf a n p m =
     (if os_mprotect pf (clock m) (pages m) a n
      then Inr (m\<lparr>pages := set_pages pf a n p (pages m), clock := Suc (clock m)\<rparr>)
      else Inl (Aborted Mprotect_failed))"

definition Page_AllowAccess :: "platform \<Rightarrow> u64 \<Rightarrow> u64 \<Rightarrow> 'a machine_scheme \<Rightarrow> stop + 'a machine_scheme" where
  "Page_AllowAccess pf address len m = mprotect pf address len ReadWrite m"

definition Page_DenyAccess :: "platform \<Rightarrow> u64 \<Rightarrow> u64 \<Rightarrow> 'a machine_scheme \<Rightarrow> stop + 'a machine_scheme" where
  "Page_DenyAccess pf address len m = mprotect pf address len NoAccess m"

definition Page_Delete :: "platform \<Rightarrow> u64 \<Rightarrow> u64 \<Rightarrow> 'a machine_scheme \<Rightarrow> stop + 'a machine_scheme" where
  "Page_Delete pf address len m =
     (if os_munmap pf (clock m) (pages m) address len
      then Inr (m\<lparr>pages := set_pages pf address len Unmapped (pages m), clock := Suc (clock m)\<rparr>)
      else Page_DenyAccess pf address len (m\<lparr>clock := Suc (clock m)\<rparr>))"

text \<open>
  \<open>Page_Create\<close> passes \<open>(int)size\<close> to \<open>mmap\<close>: the length is cut to 32 bits and sign
  extended.  The address hint is advanced before the failure test, so a failed call leaves
  it at \<open>(void *)-1 + size\<close>.  The result is the address, \<open>0\<close> for a failure.
\<close>

definition mmap_length :: "u64 \<Rightarrow> u64" where
  "mmap_length sz = scast (ucast sz :: u32)"

definition Page_Create :: "platform \<Rightarrow> u64 \<Rightarrow> bool \<Rightarrow> bool \<Rightarrow> 'a machine_scheme \<Rightarrow> stop + u64 \<times> 'a machine_scheme" where
  "Page_Create pf sz exitonfail printerror m =
     (let len = mmap_length sz;
          m0 = m\<lparr>clock := Suc (clock m)\<rparr>
      in case os_mmap pf (clock m) (pages m) (startAddr m) len of
           Some a \<Rightarrow>
             Inr (a, m0\<lparr>pages := set_pages pf a len ReadWrite (pages m),
                        bytes := (\<lambda>x. if page_span (psz pf) (unat a) (unat len) (unat x div psz pf)
                                     then 0 else bytes m x),
                        startAddr := a + sz\<rparr>)
         | None \<Rightarrow>
             (let m1 = m0\<lparr>startAddr := - 1 + sz\<rparr>
              in if exitonfail then Inl (Aborted (Mmap_failed sz))
                 else Inr (0, if printerror then DUMA_Print (Mmap_warning sz) m1 else m1)))"

text \<open>Reading and writing memory faults where the page is not accessible.\<close>

definition load :: "platform \<Rightarrow> u64 \<Rightarrow> 'a machine_scheme \<Rightarrow> stop + u8" where
  "load pf a m = (if perm_at pf m a = ReadWrite then Inr (bytes m a) else Inl (Segv a))"

definition store :: "platform \<Rightarrow> u64 \<Rightarrow> u8 \<Rightarrow> 'a machine_scheme \<Rightarrow> stop + 'a machine_scheme" where
  "store pf a c m =
     (if perm_at pf m a = ReadWrite then Inr (m\<lparr>bytes := (bytes m)(a := c)\<rparr>) else Inl (Segv a))"

section \<open>Page arithmetic\<close>

lemma page_okD:
  assumes "page_ok pf"
  shows "DUMA_PAGE_SIZE pf = os_pagesize pf" "is_pow2 (os_pagesize pf)" "0 < psz pf"
    "2 ^ 12 \<le> psz pf" "psz pf \<le> 2 ^ 20"
  using assms by (auto simp: page_ok_def)

lemma page_okE:
  assumes "page_ok pf"
  obtains k where "12 \<le> k" and "k \<le> 20" and "os_pagesize pf = 2 ^ k" and "psz pf = 2 ^ k"
proof -
  from assms obtain k where k: "k < LENGTH(64)" "os_pagesize pf = 2 ^ k" "psz pf = 2 ^ k"
    by (auto simp: page_ok_def elim: is_pow2E)
  with assms have "(2::nat) ^ 12 \<le> 2 ^ k" "(2::nat) ^ k \<le> 2 ^ 20" by (auto simp: page_ok_def)
  from this [THEN power_le_imp_le_exp [rotated]] have "12 \<le> k" "k \<le> 20" by simp_all
  with k show thesis by (auto intro: that)
qed

text \<open>For an aligned range the pages it meets are exactly those of its bytes.\<close>

lemma page_span_iff:
  assumes "0 < P" and "P dvd a" and "P dvd n"
  shows "page_span P a n (x div P) \<longleftrightarrow> a \<le> x \<and> x < a + n"
proof -
  from assms obtain i j where ij: "a = P * i" "n = P * j" unfolding dvd_def by blast
  have "a div P \<le> x div P \<longleftrightarrow> a \<le> x"
    using assms(1) by (simp add: ij less_eq_div_iff_mult_less_eq mult.commute)
  moreover have "x div P * P < a + n \<longleftrightarrow> x < a + n"
  proof -
    have "x div P * P < P * (i + j) \<longleftrightarrow> x div P < i + j" using assms(1) by (simp add: mult.commute)
    also have "\<dots> \<longleftrightarrow> x < P * (i + j)" using assms(1) by (simp add: div_less_iff_less_mult mult.commute)
    finally show ?thesis by (simp add: ij distrib_left)
  qed
  ultimately show ?thesis by (simp add: page_span_def)
qed

definition pg_range :: "platform \<Rightarrow> u64 \<Rightarrow> u64 \<Rightarrow> bool" where
  "pg_range pf a n \<longleftrightarrow> page_ok pf \<and> psz pf dvd unat a \<and> psz pf dvd unat n"

lemma set_pages_at:
  assumes "pg_range pf a n"
  shows "set_pages pf a n p pg (unat x div psz pf) = (if in_rng a n x then p else pg (unat x div psz pf))"
  using assms by (simp add: pg_range_def set_pages_def page_span_iff page_okD in_rng_def)

lemma perm_at_frame [frame_simps]:
  "perm_at pf (m\<lparr>bytes := b\<rparr>) x = perm_at pf m x"
  "perm_at pf (m\<lparr>clock := c\<rparr>) x = perm_at pf m x"
  "perm_at pf (m\<lparr>startAddr := a\<rparr>) x = perm_at pf m x"
  "perm_at pf (m\<lparr>out := o'\<rparr>) x = perm_at pf m x"
  by (simp_all add: perm_at_def)

section \<open>What the operations do\<close>

lemma Page_AllowAccess_Inr [outcome_simps]:
  "Page_AllowAccess pf a n m = Inr m' \<longleftrightarrow>
     os_mprotect pf (clock m) (pages m) a n \<and>
     m' = m\<lparr>pages := set_pages pf a n ReadWrite (pages m), clock := Suc (clock m)\<rparr>"
  by (auto simp: Page_AllowAccess_def mprotect_def)

lemma Page_DenyAccess_Inr [outcome_simps]:
  "Page_DenyAccess pf a n m = Inr m' \<longleftrightarrow>
     os_mprotect pf (clock m) (pages m) a n \<and>
     m' = m\<lparr>pages := set_pages pf a n NoAccess (pages m), clock := Suc (clock m)\<rparr>"
  by (auto simp: Page_DenyAccess_def mprotect_def)

lemma store_Inr [outcome_simps]:
  "store pf a c m = Inr m' \<longleftrightarrow> perm_at pf m a = ReadWrite \<and> m' = m\<lparr>bytes := (bytes m)(a := c)\<rparr>"
  by (auto simp: store_def)

lemma load_Inr [outcome_simps]:
  "load pf a m = Inr c \<longleftrightarrow> perm_at pf m a = ReadWrite \<and> c = bytes m a"
  by (auto simp: load_def)

text \<open>A deleted range is unmapped, or, when \<open>munmap\<close> fails, inaccessible.\<close>

lemma Page_Delete_Inr:
  assumes "Page_Delete pf a n m = Inr m'"
  obtains p c where "p \<noteq> ReadWrite" and
    "m' = m\<lparr>pages := set_pages pf a n p (pages m), clock := c\<rparr>"
    "os_munmap pf (clock m) (pages m) a n \<and> p = Unmapped \<or>
     os_mprotect pf (Suc (clock m)) (pages m) a n \<and> p = NoAccess"
  using assms by (auto simp: Page_Delete_def Page_DenyAccess_Inr split: if_splits)

lemma Page_Create_Inr:
  assumes "Page_Create pf sz ex pr m = Inr (a, m')" and "a \<noteq> 0"
  obtains "os_mmap pf (clock m) (pages m) (startAddr m) (mmap_length sz) = Some a"
    and "m' = m\<lparr>clock := Suc (clock m),
             pages := set_pages pf a (mmap_length sz) ReadWrite (pages m),
             bytes := (\<lambda>x. if page_span (psz pf) (unat a) (unat (mmap_length sz)) (unat x div psz pf)
                          then 0 else bytes m x),
             startAddr := a + sz\<rparr>"
  using assms by (auto simp: Page_Create_def Let_def split: option.splits if_splits)

lemma Page_Create_fail:
  assumes "Page_Create pf sz ex pr m = Inr (0, m')" and "os_ok pf"
  shows "\<exists>c s o'. m' = m\<lparr>clock := c, startAddr := s, out := o'\<rparr> \<and> \<not> ex"
proof -
  from assms have "os_mmap pf (clock m) (pages m) (startAddr m) (mmap_length sz) = None"
    by (auto simp: Page_Create_def Let_def os_ok_def split: option.splits if_splits)
  with assms(1) have "\<not> ex" and "m' = (let m1 = m\<lparr>clock := Suc (clock m), startAddr := - 1 + sz\<rparr> in
      if pr then DUMA_Print (Mmap_warning sz) m1 else m1)"
    by (auto simp: Page_Create_def Let_def split: if_splits)
  then show ?thesis
    by (cases m; cases pr) (force simp: Let_def DUMA_Print_def)+
qed

text \<open>Lengths below two gigabytes survive the cast to \<open>int\<close>.\<close>

lemma mmap_length_small:
  assumes "unat sz < 2 ^ 31"
  shows "mmap_length sz = sz"
proof -
  have u: "unat (ucast sz :: u32) = unat sz"
    using assms by (simp add: unsigned_ucast_eq take_bit_nat_eq_self)
  have "int (unat sz) < int (2 ^ 31)"
    using assms by (simp only: of_nat_less_iff)
  moreover have "- (2 ^ 31) \<le> int (unat sz)"
    by (rule order_trans [of _ 0]) simp_all
  ultimately have "signed_take_bit 31 (int (unat sz)) = int (unat sz)"
    by (intro signed_take_bit_int_eq_self) simp_all
  moreover have "sint (ucast sz :: u32) = signed_take_bit 31 (int (unat sz))"
    by (simp add: sint_uint flip: u)
  ultimately show ?thesis
    by (simp add: mmap_length_def scast_eq)
qed

section \<open>The protection interface\<close>

text \<open>
  What the allocator relies on when it sets up live and dead pages: on the ranges accepted
  by \<open>ok\<close>, \<open>allow\<close> and \<open>deny\<close> set the protection of exactly these bytes.
\<close>

locale page_protection =
  fixes ok :: "u64 \<Rightarrow> u64 \<Rightarrow> bool"
    and allow :: "u64 \<Rightarrow> u64 \<Rightarrow> 'm \<Rightarrow> 'e + 'm"
    and deny :: "u64 \<Rightarrow> u64 \<Rightarrow> 'm \<Rightarrow> 'e + 'm"
    and prot :: "'m \<Rightarrow> u64 \<Rightarrow> perm"
  assumes allow_perm: "ok a n \<Longrightarrow> allow a n m = Inr m' \<Longrightarrow>
      prot m' x = (if in_rng a n x then ReadWrite else prot m x)"
    and deny_perm: "ok a n \<Longrightarrow> deny a n m = Inr m' \<Longrightarrow>
      prot m' x = (if in_rng a n x then NoAccess else prot m x)"
begin

text \<open>Live pages first, dead pages after them: the last word on each byte.\<close>

lemma allow_deny:
  assumes "ok a n" and "ok b k"
    and "and_then (allow a n m) (deny b k) = Inr m'"
  shows "prot m' x = (if in_rng b k x then NoAccess else if in_rng a n x then ReadWrite else prot m x)"
  using assms by (auto simp: and_then_Inr_iff allow_perm deny_perm)

text \<open>Opening a range and closing it again leaves everything else alone.\<close>

lemma open_close:
  assumes "ok a n" and "allow a n m = Inr m1"
    and "\<And>x. \<not> in_rng a n x \<Longrightarrow> prot m2 x = prot m1 x" and "deny a n m2 = Inr m3"
  shows "prot m3 x = (if in_rng a n x then NoAccess else prot m x)"
  using assms by (simp add: allow_perm deny_perm)

end

interpretation pg: page_protection "pg_range pf" "Page_AllowAccess pf" "Page_DenyAccess pf" "perm_at pf"
  by unfold_locales (auto simp: outcome_simps perm_at_def set_pages_at)

text \<open>For evaluation on concrete states.\<close>

declare
  set_pages_def [duma_defs]
  perm_at_def [duma_defs]
  page_span_def [duma_defs]
  mprotect_def [duma_defs]
  Page_AllowAccess_def [duma_defs]
  Page_DenyAccess_def [duma_defs]
  Page_Delete_def [duma_defs]
  mmap_length_def [duma_defs]
  Page_Create_def [duma_defs]
  load_def [duma_defs]
  store_def [duma_defs]
  DUMA_Print_def [duma_defs]

end
