(* ===== verification/Duma_Sem.thy ===== *)
theory Duma_Sem
  imports Duma_Paging
begin

text \<open>
  \<open>src/sem_inc.c\<close> as one thread sees it: the recursive lock built on a plain pthread mutex
  (\<open>HAVE_PTHREADS\<close>, no \<open>DUMA_SEMAPHORES\<close>).  \<open>mutex_owner\<close> is the mutex itself; the other
  fields are the static variables of the file.  Thread ids are nonzero.  Waiting for a
  mutex that is held is the outcome \<open>Blocked\<close>.
\<close>

section \<open>State\<close>

record sem_state = machine +
  mutex_owner :: "nat option"
  mutextid :: nat
  locknr :: int
  semInInit :: bool
  semInited :: bool
  semDepth :: int

section \<open>Operations\<close>

definition lock :: "platform \<Rightarrow> 'a sem_state_scheme \<Rightarrow> stop + 'a sem_state_scheme" where
  "lock pf m =
     (if mutex_owner m \<noteq> None then
        (if mutextid m = pthread_self pf then Inr (m\<lparr>locknr := locknr m + 1\<rparr>)
         else Inl Blocked)
      else Inr (m\<lparr>mutex_owner := Some (pthread_self pf), mutextid := pthread_self pf, locknr := 1\<rparr>))"

definition unlock :: "'a sem_state_scheme \<Rightarrow> 'a sem_state_scheme" where
  "unlock m =
     (let m1 = m\<lparr>locknr := locknr m - 1\<rparr>
      in if locknr m1 = 0 then m1\<lparr>mutextid := 0, mutex_owner := None\<rparr> else m1)"

definition DUMA_init_sem :: "'a sem_state_scheme \<Rightarrow> 'a sem_state_scheme" where
  "DUMA_init_sem m =
     (if semInited m \<or> semInInit m then m
      else m\<lparr>mutex_owner := None, semInited := True, semInInit := False\<rparr>)"

definition DUMA_get_sem :: "platform \<Rightarrow> 'a sem_state_scheme \<Rightarrow> stop + 'a sem_state_scheme" where
  "DUMA_get_sem pf m =
     (if semInInit m then Inr m
      else and_then (lock pf (if semInited m then m else DUMA_init_sem m))
             (\<lambda>m. Inr (m\<lparr>semDepth := semDepth m + 1\<rparr>)))"

definition DUMA_rel_sem :: "'a sem_state_scheme \<Rightarrow> stop + 'a sem_state_scheme" where
  "DUMA_rel_sem m =
     (if semInInit m then Inr m
      else if \<not> semInited m then Inl (Aborted Semaphore_not_initialised)
      else if semDepth m \<le> 0 then Inl (Aborted Semaphore_not_locked)
      else Inr (unlock (m\<lparr>semDepth := semDepth m - 1\<rparr>)))"

section \<open>The interface of a balanced lock\<close>

text \<open>
  A client brackets its work between \<open>get\<close> and \<open>rel\<close> and may nest such brackets.  All it
  needs is that \<open>get\<close> succeeds and \<open>rel\<close> undoes it as long as the lock's own state is not
  touched in between.
\<close>

locale balanced_lock =
  fixes get :: "'m \<Rightarrow> 'e + 'm" and rel :: "'m \<Rightarrow> 'e + 'm"
    and view :: "'m \<Rightarrow> 'v" and inv :: "'v \<Rightarrow> bool"
  assumes get_returns: "inv (view m) \<Longrightarrow> \<exists>m'. get m = Inr m'"
    and get_inv: "inv (view m) \<Longrightarrow> get m = Inr m' \<Longrightarrow> inv (view m')"
    and rel_undoes: "inv (view m) \<Longrightarrow> get m = Inr m1 \<Longrightarrow> view m2 = view m1 \<Longrightarrow>
      \<exists>m3. rel m2 = Inr m3 \<and> view m3 = view m"
begin

lemma bracket_balanced:
  assumes "inv (view m)" and "and_then (get m) (\<lambda>m1. and_then (body m1) rel) = Inr m'"
    and "\<And>m1 m2. inv (view m1) \<Longrightarrow> body m1 = Inr m2 \<Longrightarrow> view m2 = view m1"
  shows "view m' = view m"
proof -
  from assms(2) obtain m1 m2 where m1: "get m = Inr m1" and m2: "body m1 = Inr m2" "rel m2 = Inr m'"
    by (auto simp: and_then_Inr_iff)
  have "view m2 = view m1" by (rule assms(3) [OF get_inv [OF assms(1) m1] m2(1)])
  from rel_undoes [OF assms(1) m1 this] m2(2) show ?thesis by simp
qed

lemma bracket_returns:
  assumes "inv (view m)"
    and "\<And>m1. inv (view m1) \<Longrightarrow> \<exists>m2. body m1 = Inr m2 \<and> view m2 = view m1"
  shows "\<exists>m'. and_then (get m) (\<lambda>m1. and_then (body m1) rel) = Inr m' \<and> view m' = view m"
proof -
  from get_returns [OF assms(1)] obtain m1 where m1: "get m = Inr m1" by blast
  from assms(2) [OF get_inv [OF assms(1) m1]] obtain m2
    where "body m1 = Inr m2" "view m2 = view m1" by blast
  with m1 rel_undoes [OF assms(1) m1, of m2] show ?thesis by auto
qed

text \<open>Brackets nest: the bracket itself is a body that leaves the lock's state alone.\<close>

lemma nested_bracket_returns:
  assumes "inv (view m)"
    and "\<And>m1. inv (view m1) \<Longrightarrow> \<exists>m2. body m1 = Inr m2 \<and> view m2 = view m1"
  shows "\<exists>m'. and_then (get m) (\<lambda>m1. and_then (and_then (get m1) (\<lambda>m2. and_then (body m2) rel)) rel)
             = Inr m' \<and> view m' = view m"
  using assms by (intro bracket_returns) simp_all

end

section \<open>The lock of the library is balanced\<close>

definition sem_view :: "'a sem_state_scheme \<Rightarrow> nat option \<times> nat \<times> int \<times> bool \<times> bool \<times> int" where
  "sem_view m = (mutex_owner m, mutextid m, locknr m, semInInit m, semInited m, semDepth m)"

text \<open>The lock is free, or this thread holds it to some depth.\<close>

fun sem_inv :: "platform \<Rightarrow> nat option \<times> nat \<times> int \<times> bool \<times> bool \<times> int \<Rightarrow> bool" where
  "sem_inv pf (own, tid, nr, inInit, inited, depth) \<longleftrightarrow>
     \<not> inInit \<and> inited \<and> nr = depth \<and> 0 \<le> depth \<and>
     (if depth = 0 then own = None \<and> tid = 0 else own = Some (pthread_self pf) \<and> tid = pthread_self pf)"

lemmas sem_defs = DUMA_get_sem_def DUMA_rel_sem_def DUMA_init_sem_def lock_def unlock_def Let_def

lemma get_sem_returns: "sem_inv pf (sem_view m) \<Longrightarrow> \<exists>m'. DUMA_get_sem pf m = Inr m'"
  by (auto simp: sem_defs sem_view_def split: if_splits)

lemma get_sem_inv: "sem_inv pf (sem_view m) \<Longrightarrow> DUMA_get_sem pf m = Inr m' \<Longrightarrow> sem_inv pf (sem_view m')"
  by (auto simp: sem_defs sem_view_def split: if_splits)

lemma rel_sem_undoes:
  "sem_inv pf (sem_view m) \<Longrightarrow> DUMA_get_sem pf m = Inr m1 \<Longrightarrow> sem_view m2 = sem_view m1 \<Longrightarrow>
   \<exists>m3. DUMA_rel_sem m2 = Inr m3 \<and> sem_view m3 = sem_view m"
  by (auto simp: sem_defs sem_view_def split: if_splits)

interpretation sem: balanced_lock "DUMA_get_sem pf" DUMA_rel_sem sem_view "sem_inv pf"
  by unfold_locales (blast intro: get_sem_returns get_sem_inv rel_sem_undoes)+

text \<open>Taking and releasing the lock changes nothing but the lock.\<close>

lemma DUMA_get_sem_frame:
  assumes "DUMA_get_sem pf m = Inr m'"
  obtains own tid nr ini d where
    "m' = m\<lparr>mutex_owner := own, mutextid := tid, locknr := nr, semInited := ini, semDepth := d\<rparr>"
proof -
  have "\<exists>own tid nr ini d.
      m' = m\<lparr>mutex_owner := own, mutextid := tid, locknr := nr, semInited := ini, semDepth := d\<rparr>"
    using assms by (cases m) (auto simp: sem_defs split: if_splits)
  then show thesis using that by blast
qed

lemma DUMA_rel_sem_frame:
  assumes "DUMA_rel_sem m = Inr m'"
  obtains own tid nr d where
    "m' = m\<lparr>mutex_owner := own, mutextid := tid, locknr := nr, semDepth := d\<rparr>"
proof -
  have "\<exists>own tid nr d. m' = m\<lparr>mutex_owner := own, mutextid := tid, locknr := nr, semDepth := d\<rparr>"
    using assms by (cases m) (auto simp: sem_defs split: if_splits)
  then show thesis using that by blast
qed

text \<open>For evaluation on concrete states.\<close>

declare
  lock_def [duma_defs]
  unlock_def [duma_defs]
  DUMA_init_sem_def [duma_defs]
  DUMA_get_sem_def [duma_defs]
  DUMA_rel_sem_def [duma_defs]

end
