(* ===== verification/Duma_State.thy ===== *)
theory Duma_State
  imports Duma_Sem
begin

text \<open>
  The state of the library: \<open>struct _DUMA_Slot\<close>, \<open>DUMA_TLSVARS_T\<close>, \<open>DUMA_GLOBALVARS_T\<close>,
  \<open>struct _DUMA_GlobalStaticVars\<close> and the output switches of \<open>src/duma.c\<close>, as records that
  extend the machine and the lock.

  The slot array \<open>allocList\<close> points to is the typed list \<open>slots\<close>; \<open>slotCount\<close> is its length
  (the code changes the two together).  Fields used as truth values are \<open>bool\<close>; the \<open>long\<close>
  accounting sums and counters are \<open>int\<close>; sizes, addresses and the slot counters that wrap
  are \<open>u64\<close>; \<open>ALIGNMENT\<close>, \<open>FILL\<close> and \<open>SLACKFILL\<close> keep the width of \<open>int\<close>.  The protection
  spaces \<open>acSpaceA\<close>/\<open>acSpaceB\<close>, \<open>DUMA_IN_DUMA\<close> (Windows only) and the delete stack of the
  C++ front end are left out.
\<close>

section \<open>Slots\<close>

record DUMA_Slot =
  internalAddress :: u64
  userAddress :: u64
  protAddress :: u64
  internalSize :: u64
  userSize :: u64
  state :: DUMA_SlotState
  allocator :: DUMA_Allocator
  fileSource :: DUMA_Slot_FileSource
  filename :: "string option"
  lineno :: int

text \<open>What \<open>memset\<close> to zero makes of a slot.\<close>

definition zero_slot :: DUMA_Slot where
  "zero_slot = \<lparr>internalAddress = 0, userAddress = 0, protAddress = 0, internalSize = 0, userSize = 0,
     state = DUMAST_EMPTY, allocator = EFA_INT_ALLOC, fileSource = DUMAFS_EMPTY,
     filename = None, lineno = 0\<rparr>"

text \<open>On LP64 a slot takes five words, four bytes of bit fields, a pointer and an \<open>int\<close>, each
  aligned: 64 bytes.\<close>

definition sizeof_slot :: u64 where
  "sizeof_slot = 64"

abbreviation slot_pos :: "DUMA_Slot \<Rightarrow> src_pos" where
  "slot_pos s \<equiv> (filename s, lineno s)"

section \<open>Variables\<close>

record tls_vars = sem_state +
  ALIGNMENT :: u32
  PROTECT_BELOW :: bool
  FILL :: u32

record global_vars = tls_vars +
  allocList :: u64
  slots :: "DUMA_Slot list"
  null_addr :: u64

record static_vars = global_vars +
  DISABLE_BANNER :: bool
  SKIPCOUNT_INIT :: bool
  CHECK_FREQ :: int
  REPORT_ALL_LEAKS :: bool
  SLACKFILL :: u32
  PROTECT_FREE :: int
  MAX_ALLOC :: int
  MALLOC_0_STRATEGY :: int
  NEW_0_STRATEGY :: int
  MALLOC_FAILEXIT :: bool
  FREE_ACCESS :: bool
  SHOW_ALLOC :: bool
  SUPPRESS_ATEXIT :: bool
  MEMCPY_OVERLAP :: bool
  allocListSize :: u64
  unUsedSlots :: u64
  slotsPerPage :: u64
  sumAllocatedMem :: int
  sumTotalAllocatedMem :: int
  sumProtectedMem :: int
  numDeallocs :: int
  numAllocs :: int
  checkFreqCounter :: int
  init_state :: DUMA_InitState
  null_block :: u64

record world = static_vars +
  OUTPUT_DEBUG :: bool
  OUTPUT_STDOUT :: bool
  OUTPUT_STDERR :: bool
  OUTPUT_FILE :: u64
  OUTPUT_STACKTRACE :: bool
  OUTPUT_STACKTRACE_MAPFILE :: u64
  environ :: "u64 list"

text \<open>The initialisers of \<open>_duma_s\<close>, \<open>_duma_g\<close> and the static variables, for a process whose
  address space, contents and environment are given.\<close>

definition initial_world :: "platform \<Rightarrow> (nat \<Rightarrow> perm) \<Rightarrow> (u64 \<Rightarrow> u8) \<Rightarrow> u64 list \<Rightarrow> world" where
  "initial_world pf pg b env =
     \<lparr>pages = pg, bytes = b, startAddr = 0, clock = 0, out = [],
      mutex_owner = None, mutextid = 0, locknr = 0, semInInit = False, semInited = True, semDepth = 0,
      ALIGNMENT = DUMA_MIN_ALIGNMENT pf, PROTECT_BELOW = False, FILL = 255,
      allocList = 0, slots = [], null_addr = 0,
      DISABLE_BANNER = False, SKIPCOUNT_INIT = False, CHECK_FREQ = 0, REPORT_ALL_LEAKS = False,
      SLACKFILL = 0xAA, PROTECT_FREE = - 1, MAX_ALLOC = - 1, MALLOC_0_STRATEGY = 3,
      NEW_0_STRATEGY = 3, MALLOC_FAILEXIT = True, FREE_ACCESS = False, SHOW_ALLOC = False,
      SUPPRESS_ATEXIT = False, MEMCPY_OVERLAP = False, allocListSize = 0, unUsedSlots = 0,
      slotsPerPage = 0, sumAllocatedMem = 0, sumTotalAllocatedMem = 0, sumProtectedMem = 0,
      numDeallocs = 0, numAllocs = 0, checkFreqCounter = 0, init_state = DUMAIS_UNINITIALIZED,
      null_block = 0,
      OUTPUT_DEBUG = False, OUTPUT_STDOUT = False, OUTPUT_STDERR = True, OUTPUT_FILE = 0,
      OUTPUT_STACKTRACE = False, OUTPUT_STACKTRACE_MAPFILE = 0, environ = env\<rparr>"

section \<open>Updating one slot\<close>

definition set_slot :: "nat \<Rightarrow> DUMA_Slot \<Rightarrow> world \<Rightarrow> world" where
  "set_slot i s w = w\<lparr>slots := (slots w)[i := s]\<rparr>"

lemma slots_set_slot [simp]: "slots (set_slot i s w) = (slots w)[i := s]"
  by (simp add: set_slot_def)

lemma pages_set_slot [simp]: "pages (set_slot i s w) = pages w"
  by (simp add: set_slot_def)

lemma perm_at_set_slot [frame_simps]: "perm_at pf (set_slot i s w) x = perm_at pf w x"
  by (simp add: perm_at_def)

section \<open>Memory loops\<close>

text \<open>\<open>while (beg < end) *beg++ = c;\<close>\<close>

function fill_while :: "platform \<Rightarrow> u64 \<Rightarrow> u64 \<Rightarrow> u8 \<Rightarrow> 'a machine_scheme \<Rightarrow> stop + 'a machine_scheme" where
  "fill_while pf b e c m =
     (if b < e then and_then (store pf b c m) (fill_while pf (b + 1) e c) else Inr m)"
  by pat_completeness auto
termination
  by (relation "measure (\<lambda>(pf, b, e, c, m). unat e - unat b)")
    (auto simp: succ_unat word_less_nat_alt)

declare fill_while.simps [simp del]

text \<open>The C library's \<open>memset\<close>, byte by byte.\<close>

fun memset :: "platform \<Rightarrow> nat \<Rightarrow> u64 \<Rightarrow> u8 \<Rightarrow> 'a machine_scheme \<Rightarrow> stop + 'a machine_scheme" where
  "memset pf 0 a c m = Inr m"
| "memset pf (Suc n) a c m = and_then (store pf a c m) (memset pf n (a + 1) c)"

lemma fill_while_eq:
  "(\<And>x. b \<le> x \<Longrightarrow> x < e \<Longrightarrow> perm_at pf m x = ReadWrite) \<Longrightarrow>
   fill_while pf b e c m = Inr (m\<lparr>bytes := (\<lambda>x. if b \<le> x \<and> x < e then c else bytes m x)\<rparr>)"
proof (induction pf b e c m rule: fill_while.induct)
  case (1 pf b e c m)
  show ?case
  proof (cases "b < e")
    case True
    let ?m1 = "m\<lparr>bytes := (bytes m)(b := c)\<rparr>"
    have st: "store pf b c m = Inr ?m1" using "1.prems" True by (simp add: store_def)
    have "fill_while pf (b + 1) e c ?m1 =
        Inr (?m1\<lparr>bytes := (\<lambda>x. if b + 1 \<le> x \<and> x < e then c else bytes ?m1 x)\<rparr>)"
    proof (rule "1.IH" [OF True])
      show "store pf b c m = Inr ?m1" by (rule st)
      fix x assume "b + 1 \<le> x" "x < e"
      then show "perm_at pf ?m1 x = ReadWrite"
        using "1.prems" range_step [OF True, of x] by (simp add: frame_simps)
    qed
    moreover have "(\<lambda>x. if b + 1 \<le> x \<and> x < e then c else bytes ?m1 x) =
        (\<lambda>x. if b \<le> x \<and> x < e then c else bytes m x)"
      using range_step [OF True] True by (auto simp: fun_eq_iff)
    ultimately show ?thesis
      using True st by (subst fill_while.simps) simp
  next
    case False
    then have "(\<lambda>x. if b \<le> x \<and> x < e then c else bytes m x) = bytes m"
      by (auto simp: fun_eq_iff)
    with False show ?thesis by (subst fill_while.simps) simp
  qed
qed

text \<open>Whatever happens, a fill that returns has only changed memory contents, and only inside
  its range.\<close>

lemma fill_while_Inr:
  "fill_while pf b e c m = Inr m' \<Longrightarrow>
   m' = m\<lparr>bytes := (\<lambda>x. if b \<le> x \<and> x < e then c else bytes m x)\<rparr>"
proof (induction pf b e c m rule: fill_while.induct)
  case (1 pf b e c m)
  show ?case
  proof (cases "b < e")
    case True
    let ?m1 = "m\<lparr>bytes := (bytes m)(b := c)\<rparr>"
    from "1.prems" True have st: "store pf b c m = Inr ?m1" and "fill_while pf (b + 1) e c ?m1 = Inr m'"
      by (subst (asm) fill_while.simps; auto simp: outcome_simps)+
    from "1.IH" [OF True st] this(2)
    have "m' = ?m1\<lparr>bytes := (\<lambda>x. if b + 1 \<le> x \<and> x < e then c else bytes ?m1 x)\<rparr>" by simp
    moreover have "(\<lambda>x. if b + 1 \<le> x \<and> x < e then c else bytes ?m1 x) =
        (\<lambda>x. if b \<le> x \<and> x < e then c else bytes m x)"
      using range_step [OF True] True by (auto simp: fun_eq_iff)
    ultimately show ?thesis by simp
  next
    case False
    then have "(\<lambda>x. if b \<le> x \<and> x < e then c else bytes m x) = bytes m"
      by (auto simp: fun_eq_iff)
    with False "1.prems" show ?thesis by (subst (asm) fill_while.simps) simp
  qed
qed

lemma memset_Inr:
  "memset pf n a c m = Inr m' \<Longrightarrow> \<exists>b. m' = m\<lparr>bytes := b\<rparr>"
proof (induction n arbitrary: a m)
  case 0
  then show ?case by (cases m) auto
next
  case (Suc n)
  then show ?case by (fastforce simp: outcome_simps)
qed

text \<open>For evaluation on concrete states.\<close>

declare
  zero_slot_def [duma_defs]
  initial_world_def [duma_defs]
  set_slot_def [duma_defs]
  sizeof_slot_def [duma_defs]

lemma fill_while_empty: "\<not> b < e \<Longrightarrow> fill_while pf b e c m = Inr m"
  by (subst fill_while.simps) simp

end
