(* ===== verification/Duma_Heap.thy ===== *)
theory Duma_Heap
  imports Duma_State
begin

text \<open>
  The invariant of the slot table.

  Every slot that is not empty owns a page-aligned range of mapped memory; the ranges of
  different slots do not overlap; and the protection of a slot's pages is what its state
  promises: a user block in use has its live bytes accessible and its dead pages not, a
  freed block still held back is inaccessible throughout.  The slot that holds the slot
  array itself is in use by \<open>EFA_INT_ALLOC\<close>; its pages are opened and closed by the
  operations, so the invariant only says that they are mapped.
\<close>

section \<open>One slot\<close>

definition in_slot :: "DUMA_Slot \<Rightarrow> u64 \<Rightarrow> bool" where
  "in_slot s x \<longleftrightarrow> in_rng (internalAddress s) (internalSize s) x"

definition slot_end :: "DUMA_Slot \<Rightarrow> nat" where
  "slot_end s = unat (internalAddress s) + unat (internalSize s)"

text \<open>Where the user's bytes and the dead page lie in a block in use.\<close>

definition user_layout :: "platform \<Rightarrow> DUMA_Slot \<Rightarrow> bool" where
  "user_layout pf s \<longleftrightarrow>
     (if userSize s = 0 then True
      else if protAddress s < userAddress s then
        psz pf dvd unat (userAddress s) \<and>
        unat (internalAddress s) + psz pf \<le> unat (userAddress s) \<and>
        unat (userAddress s) + unat (userSize s) \<le> slot_end s
      else
        psz pf dvd unat (protAddress s) \<and>
        unat (userAddress s) + unat (userSize s) \<le> unat (protAddress s) \<and>
        unat (protAddress s) + psz pf \<le> slot_end s)"

definition slot_shape :: "platform \<Rightarrow> DUMA_Slot \<Rightarrow> bool" where
  "slot_shape pf s \<longleftrightarrow>
     (if state s = DUMAST_EMPTY then
        internalAddress s = 0 \<and> internalSize s = 0 \<and> userAddress s = 0 \<and> userSize s = 0 \<and>
        allocator s = EFA_INT_ALLOC
      else
        internalAddress s \<noteq> 0 \<and> internalSize s \<noteq> 0 \<and>
        psz pf dvd unat (internalAddress s) \<and> psz pf dvd unat (internalSize s) \<and>
        slot_end s < 2 ^ 64 \<and>
        (if state s = DUMAST_FREE then userAddress s = 0 \<or> userAddress s = internalAddress s
         else in_slot s (userAddress s)) \<and>
        (state s = DUMAST_FREE \<longrightarrow> allocator s = EFA_INT_ALLOC) \<and>
        (state s \<in> {DUMAST_ALL_PROTECTED, DUMAST_BEGIN_PROTECTED} \<longrightarrow> allocator s \<noteq> EFA_INT_ALLOC) \<and>
        (state s = DUMAST_IN_USE \<and> allocator s \<noteq> EFA_INT_ALLOC \<longrightarrow> user_layout pf s))"

definition live_perm :: "DUMA_Slot \<Rightarrow> u64 \<Rightarrow> perm" where
  "live_perm s x =
     (if userSize s = 0 then NoAccess
      else if protAddress s < userAddress s then (if x < userAddress s then NoAccess else ReadWrite)
      else (if x < protAddress s then ReadWrite else NoAccess))"

definition slot_perm_ok :: "DUMA_Slot \<Rightarrow> u64 \<Rightarrow> perm \<Rightarrow> bool" where
  "slot_perm_ok s x p \<longleftrightarrow>
     (case state s of
        DUMAST_EMPTY \<Rightarrow> True
      | DUMAST_FREE \<Rightarrow> p \<noteq> Unmapped
      | DUMAST_IN_USE \<Rightarrow> if allocator s = EFA_INT_ALLOC then p \<noteq> Unmapped else p = live_perm s x
      | DUMAST_ALL_PROTECTED \<Rightarrow> p = NoAccess
      | DUMAST_BEGIN_PROTECTED \<Rightarrow> p = NoAccess)"

definition slot_ok :: "platform \<Rightarrow> (nat \<Rightarrow> perm) \<Rightarrow> DUMA_Slot \<Rightarrow> bool" where
  "slot_ok pf pg s \<longleftrightarrow> slot_shape pf s \<and> (\<forall>x. in_slot s x \<longrightarrow> slot_perm_ok s x (pg (unat x div psz pf)))"

section \<open>The table\<close>

definition apart :: "DUMA_Slot \<Rightarrow> DUMA_Slot \<Rightarrow> bool" where
  "apart s t \<longleftrightarrow> (\<forall>x. \<not> (in_slot s x \<and> in_slot t x))"

definition table_ok :: "platform \<Rightarrow> (nat \<Rightarrow> perm) \<Rightarrow> DUMA_Slot list \<Rightarrow> bool" where
  "table_ok pf pg ss \<longleftrightarrow>
     (\<forall>s \<in> set ss. slot_ok pf pg s) \<and>
     (\<forall>i < length ss. \<forall>j < length ss. i \<noteq> j \<longrightarrow> apart (ss ! i) (ss ! j))"

text \<open>The slot array is the user memory of a slot in the table, with no byte between it and the pages
  around it.\<close>

definition list_slot :: "world \<Rightarrow> DUMA_Slot \<Rightarrow> bool" where
  "list_slot w s \<longleftrightarrow> state s = DUMAST_IN_USE \<and> allocator s = EFA_INT_ALLOC \<and>
     internalAddress s = allocList w \<and> userAddress s = allocList w \<and>
     userSize s = allocListSize w \<and> allocListSize w \<le> internalSize s \<and>
     (protAddress s < allocList w \<and> internalSize s = allocListSize w \<or>
      protAddress s = allocList w + allocListSize w)"

definition heap_ok :: "platform \<Rightarrow> world \<Rightarrow> bool" where
  "heap_ok pf w \<longleftrightarrow> page_ok pf \<and> table_ok pf (pages w) (slots w) \<and>
     psz pf dvd unat (allocListSize w) \<and> (\<exists>s \<in> set (slots w). list_slot w s)"

section \<open>Consequences\<close>

lemma apart_sym: "apart s t \<Longrightarrow> apart t s"
  by (auto simp: apart_def)

lemma in_slot_empty [simp]: "internalSize s = 0 \<Longrightarrow> \<not> in_slot s x"
  by (simp add: in_slot_def)

lemma slot_ok_empty: "slot_ok pf pg s \<Longrightarrow> state s = DUMAST_EMPTY \<Longrightarrow> \<not> in_slot s x"
  by (simp add: slot_ok_def slot_shape_def)

lemma live_perm_mapped [simp]: "live_perm s x \<noteq> Unmapped"
  by (simp add: live_perm_def)

lemma slot_perm_ok_mapped: "slot_perm_ok s x p \<Longrightarrow> state s \<noteq> DUMAST_EMPTY \<Longrightarrow> p \<noteq> Unmapped"
  by (auto simp: slot_perm_ok_def split: DUMA_SlotState.splits if_splits)

lemma slot_ok_mapped:
  assumes "slot_ok pf pg s" and "in_slot s x"
  shows "pg (unat x div psz pf) \<noteq> Unmapped"
proof -
  have "state s \<noteq> DUMAST_EMPTY" using assms slot_ok_empty by blast
  with assms show ?thesis unfolding slot_ok_def by (blast dest: slot_perm_ok_mapped)
qed

lemma slot_ok_range:
  assumes "slot_ok pf pg s" and "page_ok pf" and "state s \<noteq> DUMAST_EMPTY"
  shows "pg_range pf (internalAddress s) (internalSize s)" "slot_end s < 2 ^ 64"
    "internalAddress s \<noteq> 0" "internalSize s \<noteq> 0" "state s \<noteq> DUMAST_FREE \<Longrightarrow> in_slot s (userAddress s)"
  using assms by (auto simp: slot_ok_def slot_shape_def pg_range_def)

lemma table_ok_nth: "table_ok pf pg ss \<Longrightarrow> i < length ss \<Longrightarrow> slot_ok pf pg (ss ! i)"
  by (simp add: table_ok_def)

lemma table_ok_apart:
  "table_ok pf pg ss \<Longrightarrow> i < length ss \<Longrightarrow> j < length ss \<Longrightarrow> i \<noteq> j \<Longrightarrow> in_slot (ss ! i) x \<Longrightarrow>
   \<not> in_slot (ss ! j) x"
  by (auto simp: table_ok_def apart_def)

text \<open>A slot's promises survive page table changes outside its range.\<close>

lemma slot_ok_frame:
  assumes "slot_ok pf pg s"
    and "\<And>x. in_slot s x \<Longrightarrow> pg' (unat x div psz pf) = pg (unat x div psz pf)"
  shows "slot_ok pf pg' s"
  using assms by (auto simp: slot_ok_def)

section \<open>Updating the table\<close>

text \<open>
  The three ways the operations change the table: a slot is rewritten within its own range;
  an empty slot receives memory that was unmapped; a slot's range is cut in two.
\<close>

lemma table_ok_rewrite:
  assumes tab: "table_ok pf pg ss" and i: "i < length ss"
    and s: "slot_ok pf pg' s" and sub: "\<And>x. in_slot s x \<Longrightarrow> in_slot (ss ! i) x"
    and fr: "\<And>x. \<not> in_slot (ss ! i) x \<Longrightarrow> pg (unat x div psz pf) \<noteq> Unmapped \<Longrightarrow>
               pg' (unat x div psz pf) = pg (unat x div psz pf)"
  shows "table_ok pf pg' (ss[i := s])"
proof -
  have "slot_ok pf pg' (ss ! j)" if "j < length ss" "j \<noteq> i" for j
  proof (rule slot_ok_frame)
    show "slot_ok pf pg (ss ! j)" using tab that by (simp add: table_ok_nth)
    fix x assume x: "in_slot (ss ! j) x"
    with tab i that have "\<not> in_slot (ss ! i) x" by (blast dest: table_ok_apart)
    moreover from slot_ok_mapped [OF table_ok_nth [OF tab that(1)] x]
    have "pg (unat x div psz pf) \<noteq> Unmapped" .
    ultimately show "pg' (unat x div psz pf) = pg (unat x div psz pf)" by (rule fr)
  qed
  with s have "\<forall>t \<in> set (ss[i := s]). slot_ok pf pg' t"
    using i by (auto simp: in_set_conv_nth nth_list_update)
  moreover have "apart ((ss[i := s]) ! j) ((ss[i := s]) ! k)"
    if "j < length ss" "k < length ss" "j \<noteq> k" for j k
  proof -
    have A: "apart (ss ! a) (ss ! b)" if "a < length ss" "b < length ss" "a \<noteq> b" for a b
      using tab that by (simp add: table_ok_def)
    have B: "apart s (ss ! b)" if "b < length ss" "b \<noteq> i" for b
      using A [OF i that(1)] that(2) sub by (auto simp: apart_def)
    show ?thesis using that A B i by (auto simp: nth_list_update intro: apart_sym)
  qed
  ultimately show ?thesis by (simp add: table_ok_def)
qed

lemma table_ok_fresh:
  assumes tab: "table_ok pf pg ss" and i: "i < length ss"
    and e: "state (ss ! i) = DUMAST_EMPTY"
    and s: "slot_ok pf pg' s" and new: "\<And>x. in_slot s x \<Longrightarrow> pg (unat x div psz pf) = Unmapped"
    and fr: "\<And>x. \<not> in_slot s x \<Longrightarrow> pg' (unat x div psz pf) = pg (unat x div psz pf)"
  shows "table_ok pf pg' (ss[i := s])"
proof -
  have other: "\<not> in_slot s x" if "j < length ss" "in_slot (ss ! j) x" for j x
    using that tab new slot_ok_mapped table_ok_nth by metis
  have "slot_ok pf pg' (ss ! j)" if "j < length ss" for j
    using tab that other fr by (blast intro: slot_ok_frame table_ok_nth)
  with s have "\<forall>t \<in> set (ss[i := s]). slot_ok pf pg' t"
    using i by (auto simp: in_set_conv_nth nth_list_update)
  moreover have "apart ((ss[i := s]) ! j) ((ss[i := s]) ! k)"
    if "j < length ss" "k < length ss" "j \<noteq> k" for j k
  proof -
    have A: "apart (ss ! a) (ss ! b)" if "a < length ss" "b < length ss" "a \<noteq> b" for a b
      using tab that by (simp add: table_ok_def)
    have B: "apart s (ss ! b)" if "b < length ss" for b
      using other [OF that] by (auto simp: apart_def)
    show ?thesis using that A B i by (auto simp: nth_list_update intro: apart_sym)
  qed
  ultimately show ?thesis by (simp add: table_ok_def)
qed

text \<open>Slot \<open>f\<close> keeps the part \<open>s\<close> of its range, the empty slot \<open>e\<close> receives the part \<open>t\<close>.\<close>

lemma table_ok_split:
  assumes tab: "table_ok pf pg ss" and f: "f < length ss" and e: "e < length ss" "e \<noteq> f"
    and s: "slot_ok pf pg s" and t: "slot_ok pf pg t"
    and sub: "\<And>x. in_slot s x \<Longrightarrow> in_slot (ss ! f) x" "\<And>x. in_slot t x \<Longrightarrow> in_slot (ss ! f) x"
    and disj: "apart s t"
  shows "table_ok pf pg (ss[e := t, f := s])"
proof -
  have "slot_ok pf pg (ss ! j)" if "j < length ss" for j
    using tab that by (rule table_ok_nth)
  with s t have "\<forall>u \<in> set (ss[e := t, f := s]). slot_ok pf pg u"
    using f e by (auto simp: in_set_conv_nth nth_list_update)
  moreover have "apart ((ss[e := t, f := s]) ! j) ((ss[e := t, f := s]) ! k)"
    if "j < length ss" "k < length ss" "j \<noteq> k" for j k
  proof -
    have A: "apart (ss ! a) (ss ! b)" if "a < length ss" "b < length ss" "a \<noteq> b" for a b
      using tab that by (simp add: table_ok_def)
    have B: "apart s (ss ! b)" "apart t (ss ! b)" if "b < length ss" "b \<noteq> f" for b
      using A [OF f that(1)] that(2) sub by (auto simp: apart_def)
    show ?thesis
      using that A B disj f e by (auto simp: nth_list_update intro: apart_sym)
  qed
  ultimately show ?thesis by (simp add: table_ok_def)
qed

text \<open>Page table changes inside the range of one internal slot leave the table valid, as
  long as the range stays mapped.\<close>

lemma table_ok_internal:
  assumes tab: "table_ok pf pg ss" and s: "s \<in> set ss" "state s = DUMAST_IN_USE" "allocator s = EFA_INT_ALLOC"
    and mp: "\<And>x. in_slot s x \<Longrightarrow> pg' (unat x div psz pf) \<noteq> Unmapped"
    and fr: "\<And>x. \<not> in_slot s x \<Longrightarrow> pg' (unat x div psz pf) = pg (unat x div psz pf)"
  shows "table_ok pf pg' ss"
proof -
  from s obtain i where i: "i < length ss" "ss ! i = s" by (auto simp: in_set_conv_nth)
  have "slot_shape pf s" using tab s by (auto simp: table_ok_def slot_ok_def)
  with s mp have "slot_ok pf pg' s" by (simp add: slot_ok_def slot_perm_ok_def)
  from table_ok_rewrite [OF tab i(1) this] i fr have "table_ok pf pg' (ss[i := s])" by simp
  with i show ?thesis by (metis list_update_id)
qed

text \<open>Rewriting a slot that is not the slot array's own.\<close>

lemma heap_ok_set_slot:
  assumes "heap_ok pf w" and "i < length (slots w)"
    and "table_ok pf (pages w1) ((slots w)[i := s'])"
    and "slots w1 = slots w" "allocList w1 = allocList w" "allocListSize w1 = allocListSize w"
    and "\<not> list_slot w (slots w ! i)"
  shows "heap_ok pf (set_slot i s' w1)"
proof -
  from assms(1) obtain t where t: "t \<in> set (slots w)" "list_slot w t" by (auto simp: heap_ok_def)
  then obtain j where "j < length (slots w)" "slots w ! j = t" by (auto simp: in_set_conv_nth)
  with t(2) assms(2,7) have "t \<in> set ((slots w)[i := s'])"
    by (metis length_list_update nth_list_update_neq nth_mem)
  moreover have "list_slot (set_slot i s' w1) t"
    using t(2) assms(5,6) by (simp add: list_slot_def set_slot_def)
  ultimately have "\<exists>t \<in> set (slots (set_slot i s' w1)). list_slot (set_slot i s' w1) t"
    using assms(4) by auto
  then show ?thesis
    using assms(1,3,4,6) by (simp add: heap_ok_def set_slot_def)
qed

section \<open>What an operation must not touch\<close>

text \<open>A block the program owns, and an operation that leaves all of them alone, except in the slots
  \<open>I\<close>: neither a slot, nor the protection, nor the contents of a live block change, and no
  block becomes live.\<close>

definition live :: "DUMA_Slot \<Rightarrow> bool" where
  "live s \<longleftrightarrow> state s = DUMAST_IN_USE \<and> allocator s \<noteq> EFA_INT_ALLOC"

definition keeps :: "platform \<Rightarrow> nat set \<Rightarrow> world \<Rightarrow> world \<Rightarrow> bool" where
  "keeps pf I w w' \<longleftrightarrow>
     (\<forall>j < length (slots w). j \<notin> I \<and> live (slots w ! j) \<longrightarrow>
        j < length (slots w') \<and> slots w' ! j = slots w ! j \<and>
        (\<forall>x. in_slot (slots w ! j) x \<longrightarrow> perm_at pf w' x = perm_at pf w x \<and> bytes w' x = bytes w x)) \<and>
     (\<forall>j < length (slots w'). j \<notin> I \<and> live (slots w' ! j) \<longrightarrow>
        j < length (slots w) \<and> slots w' ! j = slots w ! j)"

lemma keepsD:
  assumes "keeps pf I w w'" and "j < length (slots w)" and "j \<notin> I" and "live (slots w ! j)"
  shows "j < length (slots w')" "slots w' ! j = slots w ! j"
    "in_slot (slots w ! j) x \<Longrightarrow> perm_at pf w' x = perm_at pf w x"
    "in_slot (slots w ! j) x \<Longrightarrow> bytes w' x = bytes w x"
  using assms unfolding keeps_def by blast+

lemma keeps_back:
  assumes "keeps pf I w w'" and "j < length (slots w')" and "j \<notin> I" and "live (slots w' ! j)"
  shows "j < length (slots w)" "slots w' ! j = slots w ! j"
  using assms unfolding keeps_def by blast+

lemma keeps_refl [simp]: "keeps pf I w w"
  by (simp add: keeps_def)

lemma keeps_trans: "keeps pf I w1 w2 \<Longrightarrow> keeps pf I w2 w3 \<Longrightarrow> keeps pf I w1 w3"
  unfolding keeps_def by (intro conjI) metis+

lemma keeps_mono: "keeps pf I w1 w2 \<Longrightarrow> I \<subseteq> J \<Longrightarrow> keeps pf J w1 w2"
  unfolding keeps_def by blast

lemma list_slot_not_live: "list_slot w s \<Longrightarrow> \<not> live s"
  by (simp add: list_slot_def live_def)

lemma live_in_slot:
  "heap_ok pf w \<Longrightarrow> i < length (slots w) \<Longrightarrow> live (slots w ! i) \<Longrightarrow> in_slot (slots w ! i) (userAddress (slots w ! i))"
  by (auto simp: heap_ok_def live_def dest!: table_ok_nth dest: slot_ok_range(5))

text \<open>Changing pages and contents inside the range of a slot that is not live.\<close>

lemma keeps_inside:
  assumes tab: "table_ok pf (pages w) (slots w)" and i: "i < length (slots w)"
    and nl: "i \<in> I \<or> \<not> live (slots w ! i) \<and> \<not> live (slots w' ! i)"
    and len: "length (slots w') = length (slots w)"
    and oth: "\<And>j. j < length (slots w) \<Longrightarrow> j \<noteq> i \<Longrightarrow> slots w' ! j = slots w ! j"
    and fr: "\<And>x. \<not> in_slot (slots w ! i) x \<Longrightarrow> perm_at pf w' x = perm_at pf w x \<and> bytes w' x = bytes w x"
  shows "keeps pf I w w'"
  unfolding keeps_def len
proof (intro conjI allI impI)
  fix j x assume j: "j < length (slots w)" "j \<notin> I \<and> live (slots w ! j)"
  with nl have ne: "j \<noteq> i" by auto
  show "j < length (slots w)" by (rule j)
  show "slots w' ! j = slots w ! j" using oth j ne by simp
  assume "in_slot (slots w ! j) x"
  with tab i j ne have "\<not> in_slot (slots w ! i) x" by (blast dest: table_ok_apart)
  then show "perm_at pf w' x = perm_at pf w x" "bytes w' x = bytes w x" using fr by simp_all
next
  fix j assume j: "j < length (slots w)" "j \<notin> I \<and> live (slots w' ! j)"
  with nl have "j \<noteq> i" by auto
  with oth j show "slots w' ! j = slots w ! j" by simp
qed auto

end
