(* ===== verification/Duma_Slots.thy ===== *)
theory Duma_Slots
  imports Duma_Heap
begin

text \<open>
  \<open>duma_hlp.h\<close>: searching the slot array and the no man's land around a user block.

  Every function here reads the slot array, so it faults when the pages of the array are not
  open (\<open>touch_list\<close>).
\<close>

section \<open>Searching the slot array\<close>

definition list_open :: "platform \<Rightarrow> world \<Rightarrow> bool" where
  "list_open pf w \<longleftrightarrow>
     list_all (\<lambda>k. pages w (unat (allocList w) div psz pf + k) = ReadWrite)
       [0 ..< unat (allocListSize w) div psz pf]"

definition touch_list :: "platform \<Rightarrow> world \<Rightarrow> stop + world" where
  "touch_list pf w = (if list_open pf w then Inr w else Inl (Segv (allocList w)))"

fun find_slot :: "(DUMA_Slot \<Rightarrow> bool) \<Rightarrow> nat \<Rightarrow> DUMA_Slot list \<Rightarrow> nat option" where
  "find_slot P i [] = None"
| "find_slot P i (s # ss) = (if P s then Some i else find_slot P (Suc i) ss)"

definition slotForUserAddress :: "platform \<Rightarrow> u64 \<Rightarrow> world \<Rightarrow> stop + nat option" where
  "slotForUserAddress pf address w =
     and_then (touch_list pf w) (\<lambda>w. Inr (find_slot (\<lambda>s. userAddress s = address) 0 (slots w)))"

definition nearestSlotForUserAddress :: "platform \<Rightarrow> u64 \<Rightarrow> world \<Rightarrow> stop + nat option" where
  "nearestSlotForUserAddress pf userAddr w =
     and_then (touch_list pf w)
       (\<lambda>w. Inr (find_slot (\<lambda>s. internalAddress s \<le> userAddr \<and>
                               userAddr \<le> internalAddress s + internalSize s) 0 (slots w)))"

section \<open>No man's land\<close>

text \<open>The accessible area of a block that is not protectable: \<open>(accBegAddr, accEndAddr)\<close>.\<close>

definition acc_area :: "DUMA_Slot \<Rightarrow> u64 \<times> u64" where
  "acc_area s =
     (if protAddress s < userAddress s
      then (userAddress s, internalAddress s + internalSize s)
      else (internalAddress s, protAddress s))"

definition duma_init_slack :: "platform \<Rightarrow> DUMA_Slot \<Rightarrow> world \<Rightarrow> stop + world" where
  "duma_init_slack pf s w =
     (if userSize s = 0 then Inr w
      else (case acc_area s of (accBegAddr, accEndAddr) \<Rightarrow>
        and_then (fill_while pf accBegAddr (userAddress s) (ucast (SLACKFILL w)) w)
          (\<lambda>w. fill_while pf (userAddress s + userSize s) accEndAddr (ucast (SLACKFILL w)) w)))"

text \<open>\<open>while (beg < end) if (slackfill != *beg++) DUMA_Abort(...);\<close>\<close>

function check_while :: "platform \<Rightarrow> u64 \<Rightarrow> u64 \<Rightarrow> u8 \<Rightarrow> abort_msg \<Rightarrow> 'a machine_scheme \<Rightarrow> stop + unit" where
  "check_while pf b e c msg m =
     (if b < e
      then and_then (load pf b m)
             (\<lambda>v. if c \<noteq> v then Inl (Aborted msg) else check_while pf (b + 1) e c msg m)
      else Inr ())"
  by pat_completeness auto
termination
  by (relation "measure (\<lambda>(pf, b, e, c, msg, m). unat e - unat b)")
    (auto simp: succ_unat word_less_nat_alt)

declare check_while.simps [simp del]

definition duma_check_slack :: "platform \<Rightarrow> DUMA_Slot \<Rightarrow> world \<Rightarrow> stop + unit" where
  "duma_check_slack pf s w =
     (if userSize s = 0 \<or> internalAddress s = 0 then Inr ()
      else (case acc_area s of (accBegAddr, accEndAddr) \<Rightarrow>
        and_then (check_while pf accBegAddr (userAddress s) (ucast (SLACKFILL w))
                    (Slack_overwritten_below (userAddress s) (userSize s) (slot_pos s)) w)
          (\<lambda>_. check_while pf (userAddress s + userSize s) accEndAddr (ucast (SLACKFILL w))
                    (Slack_overwritten_above (userAddress s) (userSize s) (slot_pos s)) w)))"

fun check_slacks :: "platform \<Rightarrow> DUMA_Slot list \<Rightarrow> world \<Rightarrow> stop + unit" where
  "check_slacks pf [] w = Inr ()"
| "check_slacks pf (s # ss) w =
     and_then (if state s = DUMAST_IN_USE \<and> userSize s \<noteq> 0 then duma_check_slack pf s w else Inr ())
       (\<lambda>_. check_slacks pf ss w)"

definition duma_check_all_slacks :: "platform \<Rightarrow> world \<Rightarrow> stop + unit" where
  "duma_check_all_slacks pf w = and_then (touch_list pf w) (\<lambda>w. check_slacks pf (slots w) w)"

section \<open>Searching\<close>

lemma find_slot_Some:
  "find_slot P i ss = Some k \<Longrightarrow>
   i \<le> k \<and> k < i + length ss \<and> P (ss ! (k - i)) \<and> (\<forall>j < k - i. \<not> P (ss ! j))"
proof (induction ss arbitrary: i)
  case Nil
  then show ?case by simp
next
  case (Cons s ss)
  show ?case
  proof (cases "P s")
    case True
    with Cons.prems show ?thesis by simp
  next
    case False
    with Cons.prems have "find_slot P (Suc i) ss = Some k" by simp
    from Cons.IH [OF this] False show ?thesis
      by (auto simp: nth_Cons less_Suc_eq_0_disj Suc_diff_le split: nat.splits)
  qed
qed

lemma find_slot_None: "find_slot P i ss = None \<longleftrightarrow> (\<forall>s \<in> set ss. \<not> P s)"
  by (induction ss arbitrary: i) auto

lemma find_slot_first:
  "k < length ss \<Longrightarrow> P (ss ! k) \<Longrightarrow> (\<And>j. j < k \<Longrightarrow> \<not> P (ss ! j)) \<Longrightarrow> find_slot P i ss = Some (i + k)"
proof (induction ss arbitrary: i k)
  case (Cons s ss)
  show ?case
  proof (cases k)
    case 0
    with Cons.prems show ?thesis by simp
  next
    case (Suc k')
    with Cons.prems(3) [of 0] have "\<not> P s" by simp
    moreover have "find_slot P (Suc i) ss = Some (Suc i + k')"
    proof (rule Cons.IH)
      show "\<not> P (ss ! j)" if "j < k'" for j using Cons.prems(3) [of "Suc j"] Suc that by simp
    qed (use Suc Cons.prems in simp_all)
    ultimately show ?thesis using Suc by simp
  qed
qed simp

lemma slotForUserAddress_Some:
  assumes "slotForUserAddress pf a w = Inr (Some i)"
  shows "list_open pf w" "i < length (slots w)" "userAddress (slots w ! i) = a"
    "\<And>j. j < i \<Longrightarrow> userAddress (slots w ! j) \<noteq> a"
  using assms find_slot_Some [of "\<lambda>s. userAddress s = a" 0 "slots w" i]
  by (auto simp: slotForUserAddress_def touch_list_def split: if_splits)

lemma slotForUserAddress_None:
  "slotForUserAddress pf a w = Inr None \<longleftrightarrow> list_open pf w \<and> (\<forall>s \<in> set (slots w). userAddress s \<noteq> a)"
  by (auto simp: slotForUserAddress_def touch_list_def find_slot_None)

section \<open>No man's land\<close>

lemma check_while_eq:
  "(\<And>x. b \<le> x \<Longrightarrow> x < e \<Longrightarrow> perm_at pf m x = ReadWrite) \<Longrightarrow>
   check_while pf b e c msg m =
     (if \<forall>x. b \<le> x \<and> x < e \<longrightarrow> bytes m x = c then Inr () else Inl (Aborted msg))"
proof (induction pf b e c msg m rule: check_while.induct)
  case (1 pf b e c msg m)
  show ?case
  proof (cases "b < e")
    case True
    have ld: "load pf b m = Inr (bytes m b)" using "1.prems" True by (simp add: load_def)
    show ?thesis
    proof (cases "bytes m b = c")
      case eq: True
      have "check_while pf (b + 1) e c msg m =
          (if \<forall>x. b + 1 \<le> x \<and> x < e \<longrightarrow> bytes m x = c then Inr () else Inl (Aborted msg))"
        using True eq range_step [OF True] by (intro "1.IH" [OF True ld]) (auto intro: "1.prems")
      moreover have "(\<forall>x. b \<le> x \<and> x < e \<longrightarrow> bytes m x = c) \<longleftrightarrow>
          (\<forall>x. b + 1 \<le> x \<and> x < e \<longrightarrow> bytes m x = c)"
        using range_step [OF True] eq by auto
      ultimately show ?thesis using True ld eq by (subst check_while.simps) simp
    next
      case False
      with True ld show ?thesis by (subst check_while.simps) auto
    qed
  next
    case False
    then show ?thesis by (subst check_while.simps) auto
  qed
qed

text \<open>The check reads nothing but memory and the fill byte.\<close>

lemma check_while_cong:
  "pages m' = pages m \<Longrightarrow> bytes m' = bytes m \<Longrightarrow> check_while pf b e c msg m' = check_while pf b e c msg m"
proof (induction pf b e c msg m rule: check_while.induct)
  case (1 pf b e c msg m)
  have "load pf b m' = load pf b m" using "1.prems" by (simp add: load_def perm_at_def)
  moreover have "load pf b m = Inr v \<Longrightarrow> c = v \<Longrightarrow> b < e \<Longrightarrow>
      check_while pf (b + 1) e c msg m' = check_while pf (b + 1) e c msg m" for v
    using "1.IH" "1.prems" by simp
  ultimately show ?case
    by (subst (1 2) check_while.simps) (auto intro!: and_then_cong)
qed

lemma duma_check_slack_cong:
  "pages w' = pages w \<Longrightarrow> bytes w' = bytes w \<Longrightarrow> SLACKFILL w' = SLACKFILL w \<Longrightarrow>
   duma_check_slack pf s w' = duma_check_slack pf s w"
  using check_while_cong [of w' w] by (simp add: duma_check_slack_def)

text \<open>The bytes of a block that belong to its no man's land.\<close>

definition slack_byte :: "DUMA_Slot \<Rightarrow> u64 \<Rightarrow> bool" where
  "slack_byte s x \<longleftrightarrow> userSize s \<noteq> 0 \<and> internalAddress s \<noteq> 0 \<and>
     (case acc_area s of (b, e) \<Rightarrow>
        b \<le> x \<and> x < userAddress s \<or> userAddress s + userSize s \<le> x \<and> x < e)"

lemma duma_check_slack_iff:
  assumes "\<And>x. slack_byte s x \<Longrightarrow> perm_at pf w x = ReadWrite"
  shows "duma_check_slack pf s w = Inr () \<longleftrightarrow> (\<forall>x. slack_byte s x \<longrightarrow> bytes w x = ucast (SLACKFILL w))"
proof (cases "userSize s = 0 \<or> internalAddress s = 0")
  case True
  then show ?thesis by (auto simp: duma_check_slack_def slack_byte_def)
next
  case False
  obtain b e where be: "acc_area s = (b, e)" by (cases "acc_area s")
  with False have sb: "slack_byte s x \<longleftrightarrow>
      b \<le> x \<and> x < userAddress s \<or> userAddress s + userSize s \<le> x \<and> x < e" for x
    by (simp add: slack_byte_def)
  have A: "check_while pf b (userAddress s) c msg w =
      (if \<forall>x. b \<le> x \<and> x < userAddress s \<longrightarrow> bytes w x = c then Inr () else Inl (Aborted msg))"
    and B: "check_while pf (userAddress s + userSize s) e c msg w =
      (if \<forall>x. userAddress s + userSize s \<le> x \<and> x < e \<longrightarrow> bytes w x = c then Inr () else Inl (Aborted msg))"
    for c msg
    by (rule check_while_eq; simp add: assms sb)+
  show ?thesis
    using False be sb by (auto simp: duma_check_slack_def A B)
qed

text \<open>A check that passes has read every byte and found the fill value.\<close>

lemma check_while_Inr:
  "check_while pf b e c msg m = Inr () \<Longrightarrow> b \<le> x \<Longrightarrow> x < e \<Longrightarrow> bytes m x = c"
proof (induction pf b e c msg m rule: check_while.induct)
  case (1 pf b e c msg m)
  then have be: "b < e" by simp
  with "1.prems"(1) have l: "load pf b m = Inr (bytes m b)" "bytes m b = c"
    and r: "check_while pf (b + 1) e c msg m = Inr ()"
    by (subst (asm) (1) check_while.simps; auto simp: outcome_simps split: if_splits)+
  from "1.IH" [OF be l(1) _ r] l(2) range_step [OF be, of x] "1.prems"(2,3) show ?case by auto
qed

lemma duma_check_slack_Inr:
  assumes "duma_check_slack pf s w = Inr ()" and "slack_byte s x"
  shows "bytes w x = ucast (SLACKFILL w)"
proof -
  obtain b e where be: "acc_area s = (b, e)" by (cases "acc_area s")
  with assms show ?thesis
    by (auto simp: duma_check_slack_def slack_byte_def and_then_Inr_iff intro: check_while_Inr)
qed

text \<open>A block whose no man's land was just filled passes the check; filling writes nothing else.\<close>

lemma duma_init_slack_Inr:
  assumes "duma_init_slack pf s w = Inr w'"
  shows "\<exists>b. w' = w\<lparr>bytes := b\<rparr> \<and> (\<forall>x. \<not> slack_byte s x \<longrightarrow> internalAddress s \<noteq> 0 \<longrightarrow> b x = bytes w x) \<and>
     (\<forall>x. slack_byte s x \<longrightarrow> b x = ucast (SLACKFILL w))"
proof (cases "userSize s = 0")
  case True
  with assms show ?thesis by (cases w) (auto simp: duma_init_slack_def slack_byte_def)
next
  case False
  obtain b e where be: "acc_area s = (b, e)" by (cases "acc_area s")
  with False assms show ?thesis
    by (auto simp: duma_init_slack_def and_then_Inr_iff slack_byte_def dest!: fill_while_Inr)
qed

text \<open>For evaluation on concrete states.\<close>

declare
  list_open_def [duma_defs]
  touch_list_def [duma_defs]
  slotForUserAddress_def [duma_defs]
  nearestSlotForUserAddress_def [duma_defs]
  acc_area_def [duma_defs]
  duma_init_slack_def [duma_defs]
  duma_check_slack_def [duma_defs]
  duma_check_all_slacks_def [duma_defs]

lemma check_while_empty: "\<not> b < e \<Longrightarrow> check_while pf b e c msg m = Inr ()"
  by (subst check_while.simps) simp

end
