(* ===== verification/Duma_Sample.thy ===== *)
theory Duma_Sample
  imports Duma_Slots
begin

text \<open>
  A small platform that behaves as documented, and a heap on it: the concrete inputs the
  general theorems are applied to.  The kernel hands out one gigabyte regions in the order of
  the calls, for requests of at most one megabyte, and refuses everything else.
\<close>

definition sample_mmap :: "nat \<Rightarrow> (nat \<Rightarrow> perm) \<Rightarrow> u64 \<Rightarrow> u64 \<Rightarrow> u64 option" where
  "sample_mmap c pg hint len =
     (if c < 1024 \<and> len \<le> 1048576 \<and>
         list_all (\<lambda>k. pg (262144 * Suc c + k) = Unmapped) [0 ..< 257]
      then Some (word_of_nat (1073741824 * Suc c)) else None)"

definition sample_mprotect :: "nat \<Rightarrow> (nat \<Rightarrow> perm) \<Rightarrow> u64 \<Rightarrow> u64 \<Rightarrow> bool" where
  "sample_mprotect c pg a n \<longleftrightarrow> a AND 4095 = 0 \<and>
     list_all (\<lambda>k. pg (unat a div 4096 + k) \<noteq> Unmapped) [0 ..< (unat n + 4095) div 4096]"

definition sample_pf :: platform where
  "sample_pf = \<lparr>DUMA_PAGE_SIZE = 4096, DUMA_MIN_ALIGNMENT = 16, os_pagesize = 4096,
     os_mmap = sample_mmap, os_mprotect = sample_mprotect,
     os_munmap = (\<lambda>c pg a n. a AND 4095 = 0), pthread_self = 1\<rparr>"

lemma sample_pf_simps [simp]:
  "DUMA_PAGE_SIZE sample_pf = 4096" "DUMA_MIN_ALIGNMENT sample_pf = 16" "os_pagesize sample_pf = 4096"
  "os_mmap sample_pf = sample_mmap" "os_mprotect sample_pf = sample_mprotect"
  "pthread_self sample_pf = 1"
  by (simp_all add: sample_pf_def)

lemma sample_page_ok: "page_ok sample_pf"
proof -
  have "is_pow2 (2 ^ 12 :: u64)" by (rule is_pow2_exp) simp
  then show ?thesis by (simp add: page_ok_def)
qed

lemma and_4095: "a AND 4095 = (0 :: u64) \<longleftrightarrow> 4096 dvd unat a"
proof -
  have "unat a AND 4095 = unat a mod 4096"
    using take_bit_eq_mask [of 12 "unat a"] by (simp add: take_bit_eq_mod mask_eq_exp_minus_1)
  then have "unat (a AND 4095) = unat a mod 4096" by (simp add: unat_and)
  then show ?thesis by (metis dvd_eq_mod_eq_0 unat_eq_0)
qed

lemma page_span_list:
  assumes "page_span P a n k" and "P dvd a" and "0 < P"
  shows "\<exists>j < (n + (P - 1)) div P. k = a div P + j"
proof -
  from assms have "a div P \<le> k" "k * P < a + n" by (simp_all add: page_span_def)
  then obtain j where j: "k = a div P + j" by (auto simp: le_iff_add)
  from assms(2) obtain b where b: "a = P * b" by blast
  from \<open>k * P < a + n\<close> j b assms(3) have "j * P < n" by (simp add: algebra_simps)
  then have "Suc j * P \<le> n + (P - 1)" using assms(3) by simp
  then have "Suc j \<le> (n + (P - 1)) div P" using assms(3) by (simp add: less_eq_div_iff_mult_less_eq)
  with j show ?thesis by auto
qed

lemma sample_os_ok: "os_ok sample_pf"
proof -
  have mm: "4096 dvd unat a \<and> a \<noteq> 0 \<and> unat a + unat len < 2 ^ 64 \<and>
        (\<forall>k. page_span 4096 (unat a) (unat len) k \<longrightarrow> pg k = Unmapped)"
    if m: "sample_mmap c pg hint len = Some a" for c pg hint len a
  proof -
    from m have c: "c < 1024" "unat len \<le> 1048576" "a = word_of_nat (1073741824 * Suc c)"
      and u: "\<And>k. k < 257 \<Longrightarrow> pg (262144 * Suc c + k) = Unmapped"
      by (auto simp: sample_mmap_def list_all_iff word_le_nat_alt split: if_splits)
    have "1073741824 * Suc c \<le> 1073741824 * 1024" using c(1) by simp
    then have ua: "unat a = 1073741824 * Suc c" unfolding c(3)
      by (intro unat_word_of_nat) simp
    have "pg k = Unmapped" if s: "page_span 4096 (unat a) (unat len) k" for k
    proof -
      have "4096 dvd unat a" unfolding ua by (rule dvd_mult2) simp
      from page_span_list [OF s this] obtain j where "j < (unat len + 4095) div 4096" "k = unat a div 4096 + j"
        by auto
      moreover from this(1) c(2) have "j < 257" by (auto dest: order_less_le_trans [OF _ div_le_mono [of _ "1048576 + 4095" 4096]])
      ultimately show ?thesis using u [of j] by (simp add: ua)
    qed
    moreover have "4096 dvd unat a" unfolding ua by (rule dvd_mult2) simp
    moreover have "a \<noteq> 0" using ua by auto
    moreover have "unat a + unat len < 2 ^ 64" using ua c by simp
    ultimately show ?thesis by blast
  qed
  have mp: "4096 dvd unat a \<and> (\<forall>k. page_span 4096 (unat a) (unat n) k \<longrightarrow> pg k \<noteq> Unmapped)"
    if m: "sample_mprotect c pg a n" for c pg a n
  proof -
    from m have d: "4096 dvd unat a" by (simp add: sample_mprotect_def and_4095)
    with m show ?thesis
      using page_span_list [of 4096 "unat a" "unat n"]
      by (fastforce simp: sample_mprotect_def list_all_iff)
  qed
  show ?thesis unfolding os_ok_def using mm mp
    by (simp add: sample_pf_def and_4095)
qed

section \<open>A heap\<close>

text \<open>
  One page for the slot array, a block of one page in use with its dead page, a freed block
  of one page that is held back with its dead page, four free pages, and seven empty slots.  \<open>lp\<close> is the
  protection of the slot array.
\<close>

definition sample_list_slot :: DUMA_Slot where
  "sample_list_slot = zero_slot\<lparr>internalAddress := 0x10000000, userAddress := 0x10000000,
     internalSize := 0x1000, userSize := 0x1000, state := DUMAST_IN_USE\<rparr>"

definition sample_block :: DUMA_Slot where
  "sample_block = zero_slot\<lparr>internalAddress := 0x10002000, userAddress := 0x10002000,
     protAddress := 0x10003000, internalSize := 0x2000, userSize := 0x1000,
     state := DUMAST_IN_USE, allocator := EFA_MALLOC, fileSource := DUMAFS_ALLOCATION,
     filename := Some ''a.c'', lineno := 7\<rparr>"

definition sample_freed :: DUMA_Slot where
  "sample_freed = zero_slot\<lparr>internalAddress := 0x10006000, userAddress := 0x10006000,
     protAddress := 0x10007000, internalSize := 0x2000, userSize := 0x1000,
     state := DUMAST_ALL_PROTECTED, allocator := EFA_FREE, fileSource := DUMAFS_DEALLOCATION,
     filename := Some ''b.c'', lineno := 9\<rparr>"

definition sample_free_slot :: DUMA_Slot where
  "sample_free_slot = zero_slot\<lparr>internalAddress := 0x10010000, userAddress := 0x10010000,
     internalSize := 0x4000, userSize := 0x4000, state := DUMAST_FREE\<rparr>"

definition sample_pages :: "perm \<Rightarrow> nat \<Rightarrow> perm" where
  "sample_pages lp k =
     (if k = 65536 then lp else if k = 65538 then ReadWrite
      else if k = 65539 \<or> k = 65542 \<or> k = 65543 \<or> k = 65552 \<or> k = 65553 \<or> k = 65554 \<or> k = 65555
      then NoAccess else Unmapped)"

definition sample_world :: "perm \<Rightarrow> world" where
  "sample_world lp =
     (initial_world sample_pf (sample_pages lp) (\<lambda>_. 0) [])\<lparr>allocList := 0x10000000,
        allocListSize := 0x1000, slotsPerPage := 64, unUsedSlots := 7, FILL := - 1,
        slots := [sample_list_slot, sample_block, sample_freed, sample_free_slot,
      zero_slot, zero_slot, zero_slot, zero_slot, zero_slot, zero_slot, zero_slot],
        sumAllocatedMem := 16, sumTotalAllocatedMem := 12, sumProtectedMem := 8,
        init_state := DUMAIS_OUT_INIT\<rparr>"

lemmas sample_defs = sample_world_def sample_list_slot_def sample_block_def sample_freed_def
  sample_free_slot_def sample_pages_def zero_slot_def initial_world_def

lemma sample_world_simps [simp]:
  "pages (sample_world lp) = sample_pages lp"
  "slots (sample_world lp) = [sample_list_slot, sample_block, sample_freed, sample_free_slot,
      zero_slot, zero_slot, zero_slot, zero_slot, zero_slot, zero_slot, zero_slot]"
  "allocList (sample_world lp) = 0x10000000" "allocListSize (sample_world lp) = 0x1000"
  by (simp_all add: sample_world_def initial_world_def)

lemma zero_slot_ok: "slot_ok pf pg zero_slot"
  by (simp add: slot_ok_def slot_shape_def zero_slot_def in_slot_def)

lemma page_of: "(0x1000::nat) * k \<le> x \<Longrightarrow> x < 0x1000 * k + 0x1000 \<Longrightarrow> x div 0x1000 = k"
  by (simp add: div_nat_eqI)

lemma sample_slots_ok:
  assumes "lp \<noteq> Unmapped"
  shows "slot_ok sample_pf (sample_pages lp) sample_list_slot"
    "slot_ok sample_pf (sample_pages lp) sample_block"
    "slot_ok sample_pf (sample_pages lp) sample_freed"
    "slot_ok sample_pf (sample_pages lp) sample_free_slot"
proof -
  have "sample_pages lp (unat x div 4096) \<noteq> Unmapped" if "in_slot sample_list_slot x" for x
    using that page_of [of 65536 "unat x"] assms
    by (simp add: in_slot_def in_rng_def sample_list_slot_def sample_pages_def)
  then show "slot_ok sample_pf (sample_pages lp) sample_list_slot"
    by (simp add: slot_ok_def slot_shape_def slot_perm_ok_def slot_end_def)
      (simp add: sample_list_slot_def zero_slot_def in_slot_def in_rng_def)
  have "sample_pages lp (unat x div 4096) = live_perm sample_block x" if "in_slot sample_block x" for x
    using that page_of [of 65538 "unat x"] page_of [of 65539 "unat x"]
    by (cases "unat x < 0x10003000")
      (simp_all add: in_slot_def in_rng_def sample_block_def sample_pages_def live_perm_def word_less_nat_alt)
  then show "slot_ok sample_pf (sample_pages lp) sample_block"
    by (simp add: slot_ok_def slot_shape_def slot_perm_ok_def slot_end_def user_layout_def)
      (simp add: sample_block_def zero_slot_def in_slot_def in_rng_def)
  have "sample_pages lp (unat x div 4096) = NoAccess" if "in_slot sample_freed x" for x
    using that page_of [of 65542 "unat x"] page_of [of 65543 "unat x"]
    by (cases "unat x < 0x10007000")
      (simp_all add: in_slot_def in_rng_def sample_freed_def sample_pages_def)
  then show "slot_ok sample_pf (sample_pages lp) sample_freed"
    by (simp add: slot_ok_def slot_shape_def slot_perm_ok_def slot_end_def)
      (simp add: sample_freed_def zero_slot_def in_slot_def in_rng_def)
  have "sample_pages lp (unat x div 4096) \<noteq> Unmapped" if "in_slot sample_free_slot x" for x
    using that page_of [of 65552 "unat x"] page_of [of 65553 "unat x"] page_of [of 65554 "unat x"]
      page_of [of 65555 "unat x"]
    by (cases "unat x < 0x10011000"; cases "unat x < 0x10012000"; cases "unat x < 0x10013000")
      (simp_all add: in_slot_def in_rng_def sample_free_slot_def sample_pages_def)
  then show "slot_ok sample_pf (sample_pages lp) sample_free_slot"
    by (simp add: slot_ok_def slot_shape_def slot_perm_ok_def slot_end_def)
      (simp add: sample_free_slot_def zero_slot_def)
qed

lemma sample_heap_ok:
  assumes "lp \<noteq> Unmapped"
  shows "heap_ok sample_pf (sample_world lp)"
proof -
  have nz: "apart zero_slot s" "apart s zero_slot" for s by (simp_all add: apart_def zero_slot_def)
  have "apart sample_list_slot sample_block" "apart sample_list_slot sample_freed" "apart sample_block sample_freed"
    "apart sample_list_slot sample_free_slot" "apart sample_block sample_free_slot" "apart sample_freed sample_free_slot"
    by (auto simp: apart_def in_slot_def in_rng_def sample_list_slot_def sample_block_def sample_freed_def
        sample_free_slot_def)
  note ap = this this [THEN apart_sym] nz
  have "table_ok sample_pf (sample_pages lp) (slots (sample_world lp))"
    unfolding table_ok_def using sample_slots_ok [OF assms] zero_slot_ok ap
    by (simp add: All_less_Suc nth_Cons')
  then show ?thesis
    by (simp add: heap_ok_def sample_page_ok list_slot_def)
      (simp add: sample_world_def sample_list_slot_def zero_slot_def)
qed

text \<open>For evaluation on concrete states.\<close>

declare
  sample_pf_def [duma_defs]
  sample_mmap_def [duma_defs]
  sample_mprotect_def [duma_defs]
  sample_world_def [duma_defs]
  sample_list_slot_def [duma_defs]
  sample_block_def [duma_defs]
  sample_freed_def [duma_defs]
  sample_free_slot_def [duma_defs]
  sample_pages_def [duma_defs]

lemma sample_live: "live sample_block" "userAddress sample_block = 0x10002000"
  by (simp_all add: sample_block_def live_def)

lemma sample_sem: "sem_inv sample_pf (sem_view (sample_world lp))"
  by (simp add: sample_world_def initial_world_def sem_view_def)

lemma sample_null [simp]: "null_addr (sample_world lp) = 0"
  by (simp add: sample_world_def initial_world_def)


end
