(* ===== verification/Duma_Reduce.thy ===== *)
theory Duma_Reduce
  imports Duma_Sample
begin

text \<open>
  \<open>reduceProtectedMemory\<close> of \<open>duma_hlp.h\<close>: giving the memory of freed blocks, which is kept
  inaccessible to catch late accesses, back to the kernel.
\<close>

section \<open>Giving protected memory back\<close>

text \<open>Rounding a byte count up to kB: \<open>(n + 1023) >> 10\<close>.\<close>

definition kB :: "u64 \<Rightarrow> u64" where
  "kB n = drop_bit 10 (n + 1023)"

text \<open>A slot given up: \<open>protAddress\<close> is the one field the code leaves as it was.\<close>

definition clear_slot :: "DUMA_Slot \<Rightarrow> DUMA_Slot" where
  "clear_slot s = s\<lparr>internalAddress := 0, userAddress := 0, internalSize := 0, userSize := 0,
     state := DUMAST_EMPTY, allocator := EFA_INT_ALLOC, fileSource := DUMAFS_EMPTY,
     filename := None, lineno := 0\<rparr>"

definition account_reduced :: "u64 \<Rightarrow> world \<Rightarrow> world" where
  "account_reduced acc w = w\<lparr>sumProtectedMem := sumProtectedMem w - int (unat acc),
     sumAllocatedMem := sumAllocatedMem w - int (unat acc)\<rparr>"

text \<open>
  The first pass keeps the pages up to the one that holds the user address.  Both passes walk
  the slot indices, stop once enough is released, and report whether they returned from
  the middle of the loop.
\<close>

definition kept_size :: "platform \<Rightarrow> DUMA_Slot \<Rightarrow> u64" where
  "kept_size pf s =
     (userAddress s - internalAddress s + DUMA_PAGE_SIZE pf) AND NOT (DUMA_PAGE_SIZE pf - 1)"

fun reduce_pass1 :: "platform \<Rightarrow> u64 \<Rightarrow> nat list \<Rightarrow> u64 \<Rightarrow> world \<Rightarrow> stop + bool \<times> u64 \<times> world" where
  "reduce_pass1 pf red [] acc w = Inr (False, acc, w)"
| "reduce_pass1 pf red (i # is) acc w =
     (if \<not> acc < red then Inr (False, acc, w)
      else let s = slots w ! i in
        if state s = DUMAST_ALL_PROTECTED then
          let newSize = kept_size pf s; delSize = internalSize s - newSize in
          and_then (Page_Delete pf (internalAddress s + newSize) delSize w) (\<lambda>w.
            let acc = acc + kB delSize;
                w = set_slot i (s\<lparr>state := DUMAST_BEGIN_PROTECTED, internalSize := newSize\<rparr>) w in
            if red \<le> acc then Inr (True, acc, account_reduced acc w)
            else reduce_pass1 pf red is acc w)
        else reduce_pass1 pf red is acc w)"

fun reduce_pass2 :: "platform \<Rightarrow> u64 \<Rightarrow> nat list \<Rightarrow> u64 \<Rightarrow> world \<Rightarrow> stop + bool \<times> u64 \<times> world" where
  "reduce_pass2 pf red [] acc w = Inr (False, acc, w)"
| "reduce_pass2 pf red (i # is) acc w =
     (if \<not> acc < red then Inr (False, acc, w)
      else let s = slots w ! i in
        if state s = DUMAST_BEGIN_PROTECTED then
          and_then (Page_Delete pf (internalAddress s) (internalSize s) w) (\<lambda>w.
            let acc = acc + kB (internalSize s);
                w = set_slot i (clear_slot s) w in
            if red \<le> acc then Inr (True, acc, account_reduced acc w)
            else reduce_pass2 pf red is acc w)
        else reduce_pass2 pf red is acc w)"

definition reduceProtectedMemory :: "platform \<Rightarrow> u64 \<Rightarrow> world \<Rightarrow> stop + bool \<times> world" where
  "reduceProtectedMemory pf red w =
     and_then (touch_list pf w) (\<lambda>w.
     and_then (reduce_pass1 pf red [0 ..< length (slots w)] 0 w) (\<lambda>(done1, acc, w).
       if done1 then Inr (True, w)
       else and_then (reduce_pass2 pf red [0 ..< length (slots w)] acc w) (\<lambda>(done2, acc, w).
              Inr (done2, w))))"

section \<open>Reducing: frame and invariant\<close>

definition is_protected :: "DUMA_Slot \<Rightarrow> bool" where
  "is_protected s \<longleftrightarrow> state s = DUMAST_ALL_PROTECTED \<or> state s = DUMAST_BEGIN_PROTECTED"

text \<open>Everything giving memory back may change is blanked out.\<close>

definition reduce_mask :: "world \<Rightarrow> world" where
  "reduce_mask w = w\<lparr>pages := (\<lambda>_. Unmapped), clock := 0, slots := [],
     sumAllocatedMem := 0, sumProtectedMem := 0\<rparr>"

definition released :: "platform \<Rightarrow> world \<Rightarrow> world \<Rightarrow> bool" where
  "released pf w w' \<longleftrightarrow>
     reduce_mask w' = reduce_mask w \<and> length (slots w') = length (slots w) \<and>
     (\<forall>i < length (slots w).
        slots w' ! i = slots w ! i \<or>
        is_protected (slots w ! i) \<and>
        (is_protected (slots w' ! i) \<or> state (slots w' ! i) = DUMAST_EMPTY) \<and>
        (\<forall>x. in_slot (slots w' ! i) x \<longrightarrow> in_slot (slots w ! i) x)) \<and>
     (\<forall>x. (\<forall>i < length (slots w). is_protected (slots w ! i) \<longrightarrow> \<not> in_slot (slots w ! i) x) \<longrightarrow>
        perm_at pf w' x = perm_at pf w x)"

lemma released_refl: "released pf w w"
  by (simp add: released_def)

lemma released_trans: "released pf w1 w2 \<Longrightarrow> released pf w2 w3 \<Longrightarrow> released pf w1 w3"
proof -
  assume a: "released pf w1 w2" and b: "released pf w2 w3"
  have nth: "slots w3 ! i = slots w1 ! i \<or>
        is_protected (slots w1 ! i) \<and>
        (is_protected (slots w3 ! i) \<or> state (slots w3 ! i) = DUMAST_EMPTY) \<and>
        (\<forall>x. in_slot (slots w3 ! i) x \<longrightarrow> in_slot (slots w1 ! i) x)" if "i < length (slots w1)" for i
    using a b that unfolding released_def by metis
  have "perm_at pf w3 x = perm_at pf w1 x"
    if x: "\<forall>i < length (slots w1). is_protected (slots w1 ! i) \<longrightarrow> \<not> in_slot (slots w1 ! i) x" for x
  proof -
    have "\<forall>i < length (slots w2). is_protected (slots w2 ! i) \<longrightarrow> \<not> in_slot (slots w2 ! i) x"
      using a x unfolding released_def by metis
    with b have "perm_at pf w3 x = perm_at pf w2 x" unfolding released_def by blast
    also from a x have "\<dots> = perm_at pf w1 x" unfolding released_def by blast
    finally show ?thesis .
  qed
  with nth a b show ?thesis unfolding released_def by simp
qed

lemma released_mask: "released pf w w' \<Longrightarrow> reduce_mask w' = reduce_mask w"
  by (simp add: released_def)

lemma reduce_mask_fields:
  assumes "reduce_mask w' = reduce_mask w"
  shows "allocList w' = allocList w" "allocListSize w' = allocListSize w"
    "SLACKFILL w' = SLACKFILL w" "bytes w' = bytes w" "unUsedSlots w' = unUsedSlots w"
    "sem_view w' = sem_view w" "PROTECT_FREE w' = PROTECT_FREE w" "null_addr w' = null_addr w"
proof -
  note eqs = arg_cong [OF assms]
  show "allocList w' = allocList w" using eqs [of allocList] by (simp add: reduce_mask_def)
  show "allocListSize w' = allocListSize w" using eqs [of allocListSize] by (simp add: reduce_mask_def)
  show "SLACKFILL w' = SLACKFILL w" using eqs [of SLACKFILL] by (simp add: reduce_mask_def)
  show "bytes w' = bytes w" using eqs [of bytes] by (simp add: reduce_mask_def)
  show "unUsedSlots w' = unUsedSlots w" using eqs [of unUsedSlots] by (simp add: reduce_mask_def)
  show "sem_view w' = sem_view w" using eqs [of sem_view] by (simp add: reduce_mask_def sem_view_def)
  show "PROTECT_FREE w' = PROTECT_FREE w" using eqs [of PROTECT_FREE] by (simp add: reduce_mask_def)
  show "null_addr w' = null_addr w" using eqs [of null_addr] by (simp add: reduce_mask_def)
qed

text \<open>The part of a protected block that the first pass keeps: whole pages, up to and including
  the page of the user address.\<close>

lemma kept_size_bounds:
  assumes "page_ok pf" and "slot_shape pf s" and "state s \<noteq> DUMAST_EMPTY" and "state s \<noteq> DUMAST_FREE"
  shows "psz pf dvd unat (kept_size pf s)" "kept_size pf s \<noteq> 0" "kept_size pf s \<le> internalSize s"
    "in_rng (internalAddress s) (kept_size pf s) (userAddress s)"
proof -
  let ?P = "psz pf" and ?off = "unat (userAddress s) - unat (internalAddress s)"
  from assms have sh: "?P dvd unat (internalAddress s)" "?P dvd unat (internalSize s)"
      "internalAddress s \<noteq> 0" "slot_end s < 2 ^ 64" "in_slot s (userAddress s)"
    by (simp_all add: slot_shape_def)
  from sh(5) have u: "unat (internalAddress s) \<le> unat (userAddress s)" "?off < unat (internalSize s)"
    by (auto simp: in_slot_def in_rng_def)
  have P: "0 < ?P" using assms(1) by (rule page_okD)
  have le: "round_down ?P (?off + ?P) \<le> unat (internalSize s)"
  proof -
    have "round_up ?P (?off + 1) \<le> unat (internalSize s)"
      using u P sh by (intro round_up_least) simp_all
    then show ?thesis by (simp add: round_up_def)
  qed
  have "?P \<le> unat (internalAddress s)" using sh(1,3) by (intro dvd_imp_le) (simp_all add: unat_gt_0)
  with u(2) sh(4) have small: "?off + ?P < 2 ^ 64" by (simp add: slot_end_def)
  obtain k where k: "os_pagesize pf = 2 ^ k" "?P = 2 ^ k" using assms(1) by (rule page_okE)
  have "unat (userAddress s - internalAddress s) = ?off" using u by (simp add: unat_sub word_le_nat_alt)
  with small have "unat (userAddress s - internalAddress s + os_pagesize pf) = ?off + ?P"
    by (simp add: unat_add_no_wrap)
  then have off: "unat (userAddress s - internalAddress s + 2 ^ k) = ?off + ?P" by (simp add: k)
  have ks: "kept_size pf s = (userAddress s - internalAddress s + 2 ^ k) AND NOT (2 ^ k - 1)"
    using assms(1) k by (simp add: kept_size_def page_okD(1))
  have un: "unat (kept_size pf s) = round_down ?P (?off + ?P)"
    unfolding ks unat_and_not_mask off round_down_def using k(2) by metis
  show "?P dvd unat (kept_size pf s)" by (simp add: un)
  show "kept_size pf s \<le> internalSize s" using le by (simp add: un word_le_nat_alt)
  have gt: "?off < round_down ?P (?off + ?P)"
    using round_down_gt [OF P, of "?off + ?P"] by arith
  then show "kept_size pf s \<noteq> 0" using un by auto
  show "in_rng (internalAddress s) (kept_size pf s) (userAddress s)"
    using gt un u by (simp add: in_rng_def)
qed

text \<open>One step of the first pass.\<close>

lemma shrink_step:
  assumes ok: "heap_ok pf w" and i: "i < length (slots w)" and s: "s = slots w ! i"
    and st: "state s = DUMAST_ALL_PROTECTED"
    and del: "Page_Delete pf (internalAddress s + kept_size pf s) (internalSize s - kept_size pf s) w = Inr w1"
  defines "w2 \<equiv> set_slot i (s\<lparr>state := DUMAST_BEGIN_PROTECTED, internalSize := kept_size pf s\<rparr>) w1"
  shows "heap_ok pf w2 \<and> released pf w w2"
proof -
  let ?P = "psz pf" and ?k = "kept_size pf s"
  let ?s' = "s\<lparr>state := DUMAST_BEGIN_PROTECTED, internalSize := ?k\<rparr>"
  from ok have pok: "page_ok pf" and tab: "table_ok pf (pages w) (slots w)"
    by (simp_all add: heap_ok_def)
  from tab i s have so: "slot_ok pf (pages w) s" by (simp add: table_ok_nth)
  then have sh: "slot_shape pf s" by (simp add: slot_ok_def)
  note kb = kept_size_bounds [OF pok sh]
  have ks: "?P dvd unat ?k" "?k \<noteq> 0" "?k \<le> internalSize s"
    "in_rng (internalAddress s) ?k (userAddress s)" using kb st by simp_all
  have dv: "?P dvd unat (internalAddress s)" "?P dvd unat (internalSize s)" "slot_end s < 2 ^ 64"
    using sh st by (simp_all add: slot_shape_def)
  have un: "unat (internalAddress s + ?k) = unat (internalAddress s) + unat ?k"
    "unat (internalSize s - ?k) = unat (internalSize s) - unat ?k"
    using ks(3) dv(3) by (auto simp: slot_end_def word_le_nat_alt unat_sub intro!: unat_add_no_wrap)
  have rng: "pg_range pf (internalAddress s + ?k) (internalSize s - ?k)"
    using pok ks dv un by (simp add: pg_range_def dvd_diff_nat)
  from del obtain p c where p: "p \<noteq> ReadWrite" and w1: "w1 = w\<lparr>pages := set_pages pf
      (internalAddress s + ?k) (internalSize s - ?k) p (pages w), clock := c\<rparr>"
    by (rule Page_Delete_Inr)
  have split: "in_slot s x \<longleftrightarrow> in_slot ?s' x \<or> in_rng (internalAddress s + ?k) (internalSize s - ?k) x" for x
    using in_rng_split [OF _ ks(3), of "internalAddress s" x] dv(3) by (simp add: in_slot_def slot_end_def)
  have apart: "\<not> in_rng (internalAddress s + ?k) (internalSize s - ?k) x" if "in_slot ?s' x" for x
    using that un by (simp add: in_slot_def in_rng_def)
  have pg: "pages w1 (unat x div ?P) =
      (if in_rng (internalAddress s + ?k) (internalSize s - ?k) x then p else pages w (unat x div ?P))" for x
    by (simp add: w1 set_pages_at [OF rng])
  have "slot_end ?s' < 2 ^ 64" using dv(3) ks(3) by (simp add: slot_end_def word_le_nat_alt)
  then have sh': "slot_shape pf ?s'"
    using sh st ks by (simp add: slot_shape_def in_slot_def)
  have "slot_perm_ok ?s' x (pages w1 (unat x div ?P))" if "in_slot ?s' x" for x
    using so st split that apart by (auto simp: slot_ok_def slot_perm_ok_def pg)
  with sh' have so': "slot_ok pf (pages w1) ?s'" by (simp add: slot_ok_def)
  have "table_ok pf (pages w1) ((slots w)[i := ?s'])"
    using split s pg by (intro table_ok_rewrite [OF tab i so']) auto
  then have "heap_ok pf w2"
    unfolding w2_def by (intro heap_ok_set_slot [OF ok i]) (use s st in \<open>simp_all add: w1 list_slot_def\<close>)
  moreover have "released pf w w2"
    unfolding released_def w2_def
    using i s st split pg
    by (auto simp: w1 reduce_mask_def set_slot_def nth_list_update is_protected_def perm_at_def)
  ultimately show ?thesis ..
qed

text \<open>One step of the second pass.\<close>

lemma drop_step:
  assumes ok: "heap_ok pf w" and i: "i < length (slots w)" and s: "s = slots w ! i"
    and st: "state s = DUMAST_BEGIN_PROTECTED"
    and del: "Page_Delete pf (internalAddress s) (internalSize s) w = Inr w1"
  shows "heap_ok pf (set_slot i (clear_slot s) w1) \<and> released pf w (set_slot i (clear_slot s) w1)"
proof -
  let ?P = "psz pf"
  from ok have pok: "page_ok pf" and tab: "table_ok pf (pages w) (slots w)"
    by (simp_all add: heap_ok_def)
  from tab i s have so: "slot_ok pf (pages w) s" by (simp add: table_ok_nth)
  have rng: "pg_range pf (internalAddress s) (internalSize s)"
    using so pok st by (intro slot_ok_range) simp_all
  from del obtain p c where w1: "w1 = w\<lparr>pages := set_pages pf
      (internalAddress s) (internalSize s) p (pages w), clock := c\<rparr>"
    by (rule Page_Delete_Inr)
  have pg: "pages w1 (unat x div ?P) = (if in_slot s x then p else pages w (unat x div ?P))" for x
    by (simp add: w1 set_pages_at [OF rng] in_slot_def)
  have em: "\<not> in_slot (clear_slot s) x" for x by (simp add: clear_slot_def)
  have "slot_ok pf (pages w1) (clear_slot s)"
    by (simp add: slot_ok_def em) (simp add: slot_shape_def clear_slot_def)
  from table_ok_rewrite [OF tab i this] s em pg
  have "table_ok pf (pages w1) ((slots w)[i := clear_slot s])" by simp
  then have "heap_ok pf (set_slot i (clear_slot s) w1)"
    by (intro heap_ok_set_slot [OF ok i]) (use s st in \<open>simp_all add: w1 list_slot_def\<close>)
  moreover have "released pf w (set_slot i (clear_slot s) w1)"
    unfolding released_def
    using i s st em pg
    by (auto simp: w1 reduce_mask_def set_slot_def nth_list_update is_protected_def perm_at_def clear_slot_def)
  ultimately show ?thesis ..
qed

text \<open>The bookkeeping of the sums is invisible to the invariant.\<close>

lemma account_reduced_ok:
  "heap_ok pf (account_reduced acc w) = heap_ok pf w"
  "released pf w0 (account_reduced acc w) = released pf w0 w"
  by (simp_all add: account_reduced_def heap_ok_def list_slot_def released_def reduce_mask_def perm_at_def)

section \<open>The release loop\<close>

text \<open>
  Both passes are the same loop: walk the indices, let \<open>give\<close> release slot \<open>i\<close> when it is
  \<open>hit\<close>, add up what came back, and settle the accounts as soon as it is enough.
\<close>

definition sums :: "world \<Rightarrow> int \<times> int" where
  "sums w = (sumProtectedMem w, sumAllocatedMem w)"

lemma account_reduced_slots [simp]: "slots (account_reduced acc w) = slots w"
  by (simp add: account_reduced_def)

locale release_loop =
  fixes hit :: "DUMA_Slot \<Rightarrow> bool" and give :: "nat \<Rightarrow> world \<Rightarrow> stop + u64 \<times> world"
    and pass :: "u64 \<Rightarrow> nat list \<Rightarrow> u64 \<Rightarrow> world \<Rightarrow> stop + bool \<times> u64 \<times> world"
  assumes pass_Nil: "pass red [] acc w = Inr (False, acc, w)"
    and pass_Cons: "pass red (i # is) acc w =
      (if \<not> acc < red then Inr (False, acc, w)
       else if hit (slots w ! i) then
         and_then (give i w) (\<lambda>(kb, w).
           if red \<le> acc + kb then Inr (True, acc + kb, account_reduced (acc + kb) w)
           else pass red is (acc + kb) w)
       else pass red is acc w)"
    and give_slots: "give i w = Inr (kb, w1) \<Longrightarrow> \<exists>s. slots w1 = (slots w)[i := s] \<and> \<not> hit s"
    and give_sums: "give i w = Inr (kb, w1) \<Longrightarrow> sums w1 = sums w"
begin

lemma pass_inv:
  assumes "pass red is acc w = Inr (d, acc', w')" and "J w"
    and step: "\<And>i v kb v1. J v \<Longrightarrow> i \<in> set is \<Longrightarrow> hit (slots v ! i) \<Longrightarrow> give i v = Inr (kb, v1) \<Longrightarrow> J v1"
    and acct: "\<And>a v. J v \<Longrightarrow> J (account_reduced a v)"
  shows "J w'"
proof -
  have "J w'" if "pass red js acc w = Inr (d, acc', w')" "J w" "set js \<subseteq> set is" for js acc w
    using that
  proof (induction js arbitrary: acc w)
    case Nil
    then show ?case by (simp add: pass_Nil)
  next
    case (Cons i js)
    show ?case
    proof (cases "acc < red \<and> hit (slots w ! i)")
      case True
      with Cons.prems(1) obtain kb w1 where g: "give i w = Inr (kb, w1)" and
        r: "(if red \<le> acc + kb then Inr (True, acc + kb, account_reduced (acc + kb) w1)
             else pass red js (acc + kb) w1) = Inr (d, acc', w')"
        by (auto simp: pass_Cons outcome_simps)
      have j: "J w1" using Cons.prems(2) _ conjunct2 [OF True] g
        by (rule step) (use Cons.prems(3) in simp)
      from Cons.IH [OF _ j] Cons.prems(3) acct [OF j] r show ?thesis
        by (auto split: if_splits)
    next
      case False
      with Cons show ?thesis by (auto simp: pass_Cons split: if_splits)
    qed
  qed
  from this [OF assms(1,2)] show ?thesis by simp
qed

text \<open>What a run amounts to: a run that reports success has given back at least \<open>red\<close>, at least
  one slot, and has settled the accounts; any other run has not touched the accounts, and
  unless nothing was asked for it leaves no slot to release behind.\<close>

lemma pass_result:
  "pass red is acc w = Inr (d, acc', w') \<Longrightarrow>
   (d \<longrightarrow> acc < red \<and> red \<le> acc' \<and>
      sums w' = (fst (sums w) - int (unat acc'), snd (sums w) - int (unat acc'))) \<and>
   (\<not> d \<longrightarrow> sums w' = sums w \<and> (acc < red \<longrightarrow> acc' < red) \<and> (\<not> acc < red \<longrightarrow> w' = w \<and> acc' = acc))"
proof (induction "is" arbitrary: acc w)
  case Nil
  then show ?case by (simp add: pass_Nil)
next
  case (Cons i "is")
  show ?case
  proof (cases "acc < red \<and> hit (slots w ! i)")
    case True
    with Cons.prems(1) obtain kb w1 where g: "give i w = Inr (kb, w1)" and
      r: "(if red \<le> acc + kb then Inr (True, acc + kb, account_reduced (acc + kb) w1)
           else pass red is (acc + kb) w1) = Inr (d, acc', w')"
      by (auto simp: pass_Cons outcome_simps)
    show ?thesis
    proof (cases "red \<le> acc + kb")
      case enough: True
      with r have "d" "acc' = acc + kb" "w' = account_reduced (acc + kb) w1" by auto
      with give_sums [OF g] True enough show ?thesis
        by (simp add: sums_def account_reduced_def)
    next
      case False
      with r have "pass red is (acc + kb) w1 = Inr (d, acc', w')" by simp
      from Cons.IH [OF this] False True give_sums [OF g] show ?thesis by auto
    qed
  next
    case False
    with Cons.prems(1) have "w' = w \<and> acc' = acc \<and> \<not> d \<and> \<not> acc < red \<or>
        acc < red \<and> pass red is acc w = Inr (d, acc', w')"
      by (auto simp: pass_Cons split: if_splits)
    with Cons.IH show ?thesis by blast
  qed
qed

lemma pass_hits:
  assumes "pass red is acc w = Inr (d, acc', w')" and "\<not> hit (slots w ! i)"
  shows "\<not> hit (slots w' ! i)"
proof (rule pass_inv [where J = "\<lambda>v. \<not> hit (slots v ! i)", OF assms])
  fix j v kb v1
  assume v: "\<not> hit (slots v ! i)" "give j v = Inr (kb, v1)"
  then obtain s where "slots v1 = (slots v)[j := s]" "\<not> hit s" by (auto dest: give_slots)
  with v(1) show "\<not> hit (slots v1 ! i)"
    by (cases "j < length (slots v)"; cases "i = j") (simp_all add: list_update_beyond)
qed simp

lemma pass_complete:
  "pass red is acc w = Inr (False, acc', w') \<Longrightarrow> acc < red \<Longrightarrow> i \<in> set is \<Longrightarrow>
   \<forall>i \<in> set is. i < length (slots w) \<Longrightarrow> \<not> hit (slots w' ! i)"
proof (induction "is" arbitrary: acc w)
  case Nil
  then show ?case by simp
next
  case (Cons j "is")
  show ?case
  proof (cases "hit (slots w ! j)")
    case True
    with Cons.prems(1,2) obtain kb w1 where g: "give j w = Inr (kb, w1)"
      and more: "\<not> red \<le> acc + kb" and r: "pass red is (acc + kb) w1 = Inr (False, acc', w')"
      by (auto simp: pass_Cons outcome_simps split: if_splits)
    from g obtain s where s: "slots w1 = (slots w)[j := s]" "\<not> hit s" by (auto dest: give_slots)
    show ?thesis
    proof (cases "i \<in> set is")
      case True
      with Cons.IH [OF r] more s Cons.prems(4) show ?thesis by simp
    next
      case False
      with Cons.prems(3,4) s have "\<not> hit (slots w1 ! i)" by simp
      with r show ?thesis by (rule pass_hits)
    qed
  next
    case False
    with Cons.prems(1,2) have r: "pass red is acc w = Inr (False, acc', w')" by (simp add: pass_Cons)
    show ?thesis
    proof (cases "i \<in> set is")
      case True
      with Cons.IH [OF r] Cons.prems(2,4) show ?thesis by simp
    next
      case no: False
      with Cons.prems(3) False have "\<not> hit (slots w ! i)" by simp
      with r show ?thesis by (rule pass_hits)
    qed
  qed
qed

text \<open>Every success takes a step down in any measure each release takes a step down in.\<close>

lemma pass_measure:
  fixes \<mu> :: "world \<Rightarrow> nat"
  assumes "pass red is acc w = Inr (d, acc', w')" and "\<forall>i \<in> set is. i < length (slots w)"
    and step: "\<And>i v kb v1. i < length (slots v) \<Longrightarrow> hit (slots v ! i) \<Longrightarrow> give i v = Inr (kb, v1) \<Longrightarrow> \<mu> v1 < \<mu> v"
    and acct: "\<And>a v. \<mu> (account_reduced a v) = \<mu> v"
  shows "length (slots w') = length (slots w) \<and> \<mu> w' \<le> \<mu> w \<and> (d \<longrightarrow> \<mu> w' < \<mu> w)"
proof -
  have "length (slots w') = length (slots w) \<and> \<mu> w' \<le> \<mu> w \<and> (d \<longrightarrow> \<mu> w' < \<mu> w)"
    if "pass red is acc w = Inr (d, acc', w')" "\<forall>i \<in> set is. i < length (slots w)" for "is" acc w
    using that
  proof (induction "is" arbitrary: acc w)
    case Nil
    then show ?case by (simp add: pass_Nil)
  next
    case (Cons i "is")
    show ?case
    proof (cases "acc < red \<and> hit (slots w ! i)")
      case True
      with Cons.prems(1) obtain kb w1 where g: "give i w = Inr (kb, w1)" and
        r: "(if red \<le> acc + kb then Inr (True, acc + kb, account_reduced (acc + kb) w1)
             else pass red is (acc + kb) w1) = Inr (d, acc', w')"
        by (auto simp: pass_Cons outcome_simps)
      have less: "\<mu> w1 < \<mu> w" using step [OF _ _ g] True Cons.prems(2) by simp
      from give_slots [OF g] have len: "length (slots w1) = length (slots w)" by auto
      show ?thesis
      proof (cases "red \<le> acc + kb")
        case True
        with r have "w' = account_reduced (acc + kb) w1" by auto
        with less len acct show ?thesis by simp
      next
        case False
        with r have "pass red is (acc + kb) w1 = Inr (d, acc', w')" by simp
        from Cons.IH [OF this] len Cons.prems(2) less show ?thesis by auto
      qed
    next
      case False
      with Cons.prems(1) have "w' = w \<and> \<not> d \<or> pass red is acc w = Inr (d, acc', w')"
        by (auto simp: pass_Cons split: if_splits)
      with Cons show ?thesis by auto
    qed
  qed
  from this [OF assms(1,2)] show ?thesis .
qed

end

section \<open>Reducing: what is given back\<close>

text \<open>How much there is left to give back: two steps for a block that is still whole, one for
  the beginning of one.  Every pass that reports success has taken a step.\<close>

fun slot_weight :: "DUMA_SlotState \<Rightarrow> nat" where
  "slot_weight DUMAST_ALL_PROTECTED = 2"
| "slot_weight DUMAST_BEGIN_PROTECTED = 1"
| "slot_weight _ = 0"

definition protected_weight :: "world \<Rightarrow> nat" where
  "protected_weight w = sum_list (map (\<lambda>s. slot_weight (state s)) (slots w))"

lemma protected_weight_step:
  assumes "i < length (slots w)" and "slot_weight (state s) < slot_weight (state (slots w ! i))"
    and "slots w1 = slots w"
  shows "protected_weight (set_slot i s w1) < protected_weight w"
proof -
  let ?f = "\<lambda>s. slot_weight (state s)"
  have "?f (slots w ! i) \<le> sum_list (map ?f (slots w))"
    using assms(1) by (intro member_le_sum_list) (auto intro: nth_mem)
  with assms show ?thesis
    by (simp add: protected_weight_def map_update sum_list_update)
qed

lemma Page_Delete_slots [frame_simps]: "Page_Delete pf a n w = Inr w1 \<Longrightarrow> slots w1 = slots w"
  by (erule Page_Delete_Inr) simp

section \<open>Both passes are release loops\<close>

definition give1 :: "platform \<Rightarrow> nat \<Rightarrow> world \<Rightarrow> stop + u64 \<times> world" where
  "give1 pf i w =
     (let s = slots w ! i; newSize = kept_size pf s; delSize = internalSize s - newSize in
      and_then (Page_Delete pf (internalAddress s + newSize) delSize w) (\<lambda>w.
        Inr (kB delSize, set_slot i (s\<lparr>state := DUMAST_BEGIN_PROTECTED, internalSize := newSize\<rparr>) w)))"

definition give2 :: "platform \<Rightarrow> nat \<Rightarrow> world \<Rightarrow> stop + u64 \<times> world" where
  "give2 pf i w =
     (let s = slots w ! i in
      and_then (Page_Delete pf (internalAddress s) (internalSize s) w) (\<lambda>w.
        Inr (kB (internalSize s), set_slot i (clear_slot s) w)))"

lemma Page_Delete_sums: "Page_Delete pf a n w = Inr w1 \<Longrightarrow> sums w1 = sums w"
  by (erule Page_Delete_Inr) (simp add: sums_def)

lemma sums_set_slot [simp]: "sums (set_slot i s w) = sums w"
  by (simp add: sums_def set_slot_def)

interpretation pass1: release_loop "\<lambda>s. state s = DUMAST_ALL_PROTECTED" "give1 pf" "reduce_pass1 pf"
proof
  fix i w kb w1
  assume "give1 pf i w = Inr (kb, w1)"
  then show "\<exists>s. slots w1 = (slots w)[i := s] \<and> state s \<noteq> DUMAST_ALL_PROTECTED" and "sums w1 = sums w"
    by (auto simp: give1_def Let_def outcome_simps frame_simps Page_Delete_sums)
qed (auto simp: give1_def Let_def and_then_assoc intro!: and_then_cong)

interpretation pass2: release_loop "\<lambda>s. state s = DUMAST_BEGIN_PROTECTED" "give2 pf" "reduce_pass2 pf"
proof
  fix i w kb w1
  assume "give2 pf i w = Inr (kb, w1)"
  then show "\<exists>s. slots w1 = (slots w)[i := s] \<and> state s \<noteq> DUMAST_BEGIN_PROTECTED" and "sums w1 = sums w"
    by (auto simp: give2_def Let_def outcome_simps frame_simps Page_Delete_sums clear_slot_def)
qed (auto simp: give2_def Let_def and_then_assoc intro!: and_then_cong)

lemma pass_ok:
  "reduce_pass1 pf red is acc w = Inr (d, acc', w') \<Longrightarrow> heap_ok pf w \<Longrightarrow> \<forall>i \<in> set is. i < length (slots w) \<Longrightarrow>
   heap_ok pf w' \<and> released pf w w'"
  "reduce_pass2 pf red is acc w = Inr (d, acc', w') \<Longrightarrow> heap_ok pf w \<Longrightarrow> \<forall>i \<in> set is. i < length (slots w) \<Longrightarrow>
   heap_ok pf w' \<and> released pf w w'"
proof -
  let ?J = "\<lambda>v. heap_ok pf v \<and> released pf w v"
  assume i: "\<forall>i \<in> set is. i < length (slots w)" and w: "heap_ok pf w"
  have len: "length (slots v) = length (slots w)" if "?J v" for v using that by (simp add: released_def)
  have s1: "?J v1" if "?J v" "i \<in> set is" "state (slots v ! i) = DUMAST_ALL_PROTECTED" "give1 pf i v = Inr (kb, v1)"
    for i v kb v1
    using that i len [OF that(1)] shrink_step [of pf v i "slots v ! i"]
    by (auto simp: give1_def Let_def outcome_simps intro: released_trans)
  have s2: "?J v1" if "?J v" "i \<in> set is" "state (slots v ! i) = DUMAST_BEGIN_PROTECTED" "give2 pf i v = Inr (kb, v1)"
    for i v kb v1
    using that i len [OF that(1)] drop_step [of pf v i "slots v ! i"]
    by (auto simp: give2_def Let_def outcome_simps intro: released_trans)
  have a: "?J (account_reduced k v)" if "?J v" for k v using that by (simp add: account_reduced_ok)
  have w: "?J w" using w by (simp add: released_refl)
  show "?J w'" if "reduce_pass1 pf red is acc w = Inr (d, acc', w')"
    by (rule pass1.pass_inv [where J = ?J, OF that w]) (erule (3) s1, erule a)
  show "?J w'" if "reduce_pass2 pf red is acc w = Inr (d, acc', w')"
    by (rule pass2.pass_inv [where J = ?J, OF that w]) (erule (3) s2, erule a)
qed

lemma protected_weight_account [simp]: "protected_weight (account_reduced a w) = protected_weight w"
  by (simp add: protected_weight_def)

lemma pass_weight:
  "reduce_pass1 pf red is acc w = Inr (d, acc', w') \<Longrightarrow> \<forall>i \<in> set is. i < length (slots w) \<Longrightarrow>
   length (slots w') = length (slots w) \<and> protected_weight w' \<le> protected_weight w \<and>
   (d \<longrightarrow> protected_weight w' < protected_weight w)"
  "reduce_pass2 pf red is acc w = Inr (d, acc', w') \<Longrightarrow> \<forall>i \<in> set is. i < length (slots w) \<Longrightarrow>
   length (slots w') = length (slots w) \<and> protected_weight w' \<le> protected_weight w \<and>
   (d \<longrightarrow> protected_weight w' < protected_weight w)"
proof -
  assume i: "\<forall>i \<in> set is. i < length (slots w)"
  have s1: "protected_weight v1 < protected_weight v"
    if "i < length (slots v)" "state (slots v ! i) = DUMAST_ALL_PROTECTED" "give1 pf i v = Inr (kb, v1)"
    for i v kb v1
    using that by (auto simp: give1_def Let_def outcome_simps frame_simps intro!: protected_weight_step)
  have s2: "protected_weight v1 < protected_weight v"
    if "i < length (slots v)" "state (slots v ! i) = DUMAST_BEGIN_PROTECTED" "give2 pf i v = Inr (kb, v1)"
    for i v kb v1
    using that by (auto simp: give2_def Let_def outcome_simps frame_simps clear_slot_def intro!: protected_weight_step)
  show "reduce_pass1 pf red is acc w = Inr (d, acc', w') \<Longrightarrow> length (slots w') = length (slots w) \<and>
      protected_weight w' \<le> protected_weight w \<and> (d \<longrightarrow> protected_weight w' < protected_weight w)"
    using pass1.pass_measure [of pf red "is" acc w d acc' w' protected_weight, OF _ i s1] by simp
  show "reduce_pass2 pf red is acc w = Inr (d, acc', w') \<Longrightarrow> length (slots w') = length (slots w) \<and>
      protected_weight w' \<le> protected_weight w \<and> (d \<longrightarrow> protected_weight w' < protected_weight w)"
    using pass2.pass_measure [of pf red "is" acc w d acc' w' protected_weight, OF _ i s2] by simp
qed

section \<open>The whole reduction\<close>

lemma reduceProtectedMemory_cases:
  assumes "reduceProtectedMemory pf red w = Inr (ok, w')"
  obtains acc1 where "list_open pf w" "ok" "reduce_pass1 pf red [0 ..< length (slots w)] 0 w = Inr (True, acc1, w')"
  | acc1 w1 acc2 where "list_open pf w" "reduce_pass1 pf red [0 ..< length (slots w)] 0 w = Inr (False, acc1, w1)"
      "length (slots w1) = length (slots w)"
      "reduce_pass2 pf red [0 ..< length (slots w1)] acc1 w1 = Inr (ok, acc2, w')"
proof -
  from assms obtain d1 acc1 w1 where o: "list_open pf w"
    and p1: "reduce_pass1 pf red [0 ..< length (slots w)] 0 w = Inr (d1, acc1, w1)"
    and r: "(if d1 then Inr (True, w1)
       else and_then (reduce_pass2 pf red [0 ..< length (slots w1)] acc1 w1) (\<lambda>(done2, acc, w).
              Inr (done2, w))) = Inr (ok, w')"
    by (auto simp: reduceProtectedMemory_def touch_list_def outcome_simps split: if_splits)
  show thesis
  proof (cases d1)
    case True
    with o p1 r show thesis by (auto intro: that(1))
  next
    case False
    with r obtain acc2 where "reduce_pass2 pf red [0 ..< length (slots w1)] acc1 w1 = Inr (ok, acc2, w')"
      by (auto simp: outcome_simps)
    moreover from p1 have "length (slots w1) = length (slots w)" using pass_weight(1) [OF p1] by simp
    ultimately show thesis using o p1 False by (auto intro: that(2))
  qed
qed

lemma reduceProtectedMemory_ok:
  assumes "reduceProtectedMemory pf red w = Inr (ok, w')" and "heap_ok pf w"
  shows "heap_ok pf w' \<and> released pf w w'"
  using assms(1)
proof (cases rule: reduceProtectedMemory_cases)
  case 1
  from pass_ok(1) [OF this(3) assms(2)] show ?thesis by simp
next
  case (2 acc1 w1 acc2)
  from pass_ok(1) [OF this(2) assms(2)] have "heap_ok pf w1" "released pf w w1" by simp_all
  with pass_ok(2) [OF 2(4)] show ?thesis by (auto intro: released_trans)
qed

lemma reduceProtectedMemory_weight:
  assumes "reduceProtectedMemory pf red w = Inr (ok, w')"
  shows "length (slots w') = length (slots w) \<and> (ok \<longrightarrow> protected_weight w' < protected_weight w)"
  using assms
proof (cases rule: reduceProtectedMemory_cases)
  case 1
  from pass_weight(1) [OF this(3)] show ?thesis by simp
next
  case (2 acc1 w1 acc2)
  from pass_weight(1) [OF 2(2)] pass_weight(2) [OF 2(4)] show ?thesis by auto
qed

text \<open>The accounts follow a reduction that reports success, and no other.\<close>

lemma reduceProtectedMemory_sums:
  assumes "reduceProtectedMemory pf red w = Inr (ok, w')"
  shows "if ok then \<exists>acc \<ge> red. sumProtectedMem w' = sumProtectedMem w - int (unat acc) \<and>
                sumAllocatedMem w' = sumAllocatedMem w - int (unat acc)
         else sumProtectedMem w' = sumProtectedMem w \<and> sumAllocatedMem w' = sumAllocatedMem w"
  using assms
proof (cases rule: reduceProtectedMemory_cases)
  case 1
  from pass1.pass_result [OF this(3)] 1 show ?thesis by (auto simp: sums_def)
next
  case (2 acc1 w1 acc2)
  from pass1.pass_result [OF 2(2)] pass2.pass_result [OF 2(4)] show ?thesis by (auto simp: sums_def)
qed

text \<open>A failed reduction has emptied every protected slot.\<close>

lemma reduceProtectedMemory_exhausted:
  assumes "reduceProtectedMemory pf red w = Inr (False, w')" and "0 < red"
  shows "\<forall>s \<in> set (slots w'). \<not> is_protected s"
  using assms(1)
proof (cases rule: reduceProtectedMemory_cases)
  case 1
  then show ?thesis by simp
next
  case (2 acc1 w1 acc2)
  from pass1.pass_result [OF 2(2)] assms(2) have "acc1 < red" by simp
  have "\<not> is_protected (slots w' ! i)" if i: "i < length (slots w')" for i
  proof -
    have len: "length (slots w') = length (slots w1)" using pass_weight(2) [OF 2(4)] by simp
    have "state (slots w1 ! i) \<noteq> DUMAST_ALL_PROTECTED"
      by (rule pass1.pass_complete [OF 2(2) assms(2)]) (use i len 2(3) in auto)
    then have "state (slots w' ! i) \<noteq> DUMAST_ALL_PROTECTED"
      by (rule pass2.pass_inv [where J = "\<lambda>v. state (slots v ! i) \<noteq> DUMAST_ALL_PROTECTED", OF 2(4)])
        (auto simp: give2_def Let_def outcome_simps frame_simps clear_slot_def nth_update_if split: if_splits)
    moreover have "state (slots w' ! i) \<noteq> DUMAST_BEGIN_PROTECTED"
      by (rule pass2.pass_complete [OF 2(4) \<open>acc1 < red\<close>]) (use i len in auto)
    ultimately show ?thesis by (simp add: is_protected_def)
  qed
  then show ?thesis by (auto simp: in_set_conv_nth)
qed

section \<open>The slot array stays open\<close>

lemma list_open_iff:
  assumes "heap_ok pf w"
  shows "list_open pf w \<longleftrightarrow> (\<forall>x. in_rng (allocList w) (allocListSize w) x \<longrightarrow> perm_at pf w x = ReadWrite)"
proof -
  let ?P = "psz pf" and ?a = "unat (allocList w)" and ?n = "unat (allocListSize w)"
  from assms obtain s where s: "s \<in> set (slots w)" "list_slot w s" "slot_shape pf s"
    and P: "0 < ?P" "?P dvd ?n" by (auto simp: heap_ok_def table_ok_def slot_ok_def page_okD)
  from s have dv: "?P dvd ?a" and lim: "?a + ?n < 2 ^ 64"
    by (auto simp: list_slot_def slot_shape_def slot_end_def word_le_nat_alt)
  from dv P obtain i j where ij: "?a = ?P * i" "?n = ?P * j" unfolding dvd_def by blast
  have "(\<forall>k < j. pages w (i + k) = ReadWrite) \<longleftrightarrow>
      (\<forall>x. in_rng (allocList w) (allocListSize w) x \<longrightarrow> perm_at pf w x = ReadWrite)"
  proof (intro iffI allI impI)
    fix x assume all: "\<forall>k < j. pages w (i + k) = ReadWrite" and "in_rng (allocList w) (allocListSize w) x"
    then have x: "?P * i \<le> unat x" "unat x < ?P * (i + j)" by (simp_all add: in_rng_def ij distrib_left)
    from x(1) P(1) have "i \<le> unat x div ?P" by (simp add: less_eq_div_iff_mult_less_eq mult.commute)
    moreover from x(2) P(1) have "unat x div ?P < i + j" by (simp add: div_less_iff_less_mult mult.commute)
    ultimately have "pages w (i + (unat x div ?P - i)) = ReadWrite" using all by (intro all [rule_format]) simp
    then show "perm_at pf w x = ReadWrite" using \<open>i \<le> _\<close> by (simp add: perm_at_def)
  next
    fix k assume all: "\<forall>x. in_rng (allocList w) (allocListSize w) x \<longrightarrow> perm_at pf w x = ReadWrite" and k: "k < j"
    let ?x = "word_of_nat (?P * (i + k)) :: u64"
    have "?P * k < ?P * j" using k P(1) by simp
    with lim have "?P * (i + k) < 2 ^ 64" unfolding ij distrib_left by linarith
    then have "unat ?x = ?P * (i + k)" by (rule unat_word_of_nat)
    with \<open>?P * k < ?P * j\<close> have "in_rng (allocList w) (allocListSize w) ?x"
      by (simp add: in_rng_def ij distrib_left)
    with all have "perm_at pf w ?x = ReadWrite" by blast
    with \<open>unat ?x = _\<close> P(1) show "pages w (i + k) = ReadWrite" by (simp add: perm_at_def)
  qed
  then show ?thesis using P(1) by (simp add: list_open_def list_all_iff ij Ball_def)
qed

text \<open>Memory that no protected slot owns keeps its protection.\<close>

lemma released_perm:
  assumes "released pf w w'" and "heap_ok pf w"
    and "j < length (slots w)" "in_slot (slots w ! j) x" "\<not> is_protected (slots w ! j)"
  shows "perm_at pf w' x = perm_at pf w x"
proof -
  from assms(2) have "table_ok pf (pages w) (slots w)" by (simp add: heap_ok_def)
  with assms(3-5) have "\<not> in_slot (slots w ! i) x" if "i < length (slots w)" "is_protected (slots w ! i)" for i
    using that table_ok_apart [of pf "pages w" "slots w" j i x] by metis
  with assms(1) show ?thesis by (simp add: released_def)
qed

lemma released_list_open:
  assumes "released pf w w'" and "heap_ok pf w" and "heap_ok pf w'" and "list_open pf w"
  shows "list_open pf w'"
proof -
  note fl = reduce_mask_fields [OF released_mask [OF assms(1)]]
  from assms(2) obtain s where "s \<in> set (slots w)" and s: "list_slot w s" by (auto simp: heap_ok_def)
  then obtain j where j: "j < length (slots w)" "slots w ! j = s" by (auto simp: in_set_conv_nth)
  have "perm_at pf w' x = ReadWrite" if x: "in_rng (allocList w) (allocListSize w) x" for x
  proof -
    have "in_slot s x" using x s by (simp add: list_slot_def in_slot_def in_rng_def word_le_nat_alt)
    with released_perm [OF assms(1,2) j(1)] j s have "perm_at pf w' x = perm_at pf w x"
      by (simp add: list_slot_def is_protected_def)
    with x assms(2,4) show ?thesis by (simp add: list_open_iff)
  qed
  with assms(3) fl show ?thesis by (simp add: list_open_iff)
qed

section \<open>Properties\<close>

declare
  kB_def [duma_defs]
  clear_slot_def [duma_defs]
  account_reduced_def [duma_defs]
  kept_size_def [duma_defs]
  reduceProtectedMemory_def [duma_defs]

text \<open>C15: \<open>reduceProtectedMemory\<close> keeps the slot table valid and touches nothing but protected
  slots and their pages.  When it reports success it has lowered both memory sums by the same
  amount, at least the amount asked for; when it fails it has left the sums alone although
  it has released every protected slot.\<close>

theorem reduceProtectedMemory_correct:
  assumes "heap_ok pf w" and "reduceProtectedMemory pf red w = Inr (ok, w')"
  shows "heap_ok pf w' \<and> released pf w w' \<and>
    (if ok then \<exists>acc \<ge> red. sumProtectedMem w' = sumProtectedMem w - int (unat acc) \<and>
                sumAllocatedMem w' = sumAllocatedMem w - int (unat acc)
     else sumProtectedMem w' = sumProtectedMem w \<and> sumAllocatedMem w' = sumAllocatedMem w) \<and>
    (\<not> ok \<and> 0 < red \<longrightarrow> (\<forall>s \<in> set (slots w'). \<not> is_protected s))"
  using reduceProtectedMemory_ok [OF assms(2,1)] reduceProtectedMemory_sums [OF assms(2)]
    reduceProtectedMemory_exhausted [of pf red w w'] assms(2) by auto

lemma sample_reduce:
  "\<exists>w'. reduceProtectedMemory sample_pf 1 (sample_world ReadWrite) = Inr (True, w')"
  by (simp add: duma_defs Let_def upt_rec_numeral)

theorem reduceProtectedMemory_correct_witness:
  "\<exists>w'. reduceProtectedMemory sample_pf 1 (sample_world ReadWrite) = Inr (True, w') \<and>
     heap_ok sample_pf w' \<and> sumProtectedMem w' < 8"
proof -
  obtain w' where w': "reduceProtectedMemory sample_pf 1 (sample_world ReadWrite) = Inr (True, w')"
    using sample_reduce by blast
  from reduceProtectedMemory_correct [OF sample_heap_ok w'] obtain acc :: u64
    where "heap_ok sample_pf w'" "1 \<le> acc" "sumProtectedMem w' = 8 - int (unat acc)"
    by (auto simp: sample_world_def)
  moreover from this(2) have "0 < uint acc" by (simp add: word_le_def)
  ultimately show ?thesis using w' by auto
qed

end
