(* ===== verification/Duma_Free.thy ===== *)
theory Duma_Free
  imports Duma_Reduce
begin

text \<open>
  Freeing and checking blocks: \<open>_duma_deallocate\<close>, \<open>duma_check\<close> and \<open>duma_checkAll\<close> of
  \<open>src/duma.c\<close>.
\<close>

section \<open>Entering and leaving the allocator\<close>

text \<open>With \<open>protectAllocList\<close> an operation takes the semaphore and opens the slot array, and
  closes it again before it returns.\<close>

definition open_list :: "platform \<Rightarrow> bool \<Rightarrow> world \<Rightarrow> stop + world" where
  "open_list pf protectAllocList w =
     (if protectAllocList
      then and_then (DUMA_get_sem pf w) (\<lambda>w. Page_AllowAccess pf (allocList w) (allocListSize w) w)
      else Inr w)"

definition close_list :: "platform \<Rightarrow> bool \<Rightarrow> world \<Rightarrow> stop + world" where
  "close_list pf protectAllocList w =
     (if protectAllocList
      then and_then (Page_DenyAccess pf (allocList w) (allocListSize w) w) DUMA_rel_sem
      else Inr w)"

definition check_freq :: "platform \<Rightarrow> world \<Rightarrow> stop + world" where
  "check_freq pf w =
     (if CHECK_FREQ w > 0 then
        let w = w\<lparr>checkFreqCounter := checkFreqCounter w + 1\<rparr> in
        if checkFreqCounter w = CHECK_FREQ w
        then and_then (duma_check_all_slacks pf w) (\<lambda>_. Inr (w\<lparr>checkFreqCounter := 0\<rparr>))
        else Inr w
      else Inr w)"

section \<open>Finding the block\<close>

text \<open>The slot of an address, or an abort that names the block the address lies in or near.
  \<open>free\<close> and \<open>duma_check\<close> differ in the message only.\<close>

definition slot_or_abort ::
  "platform \<Rightarrow> (u64 \<Rightarrow> (u64 \<times> DUMA_Slot_FileSource \<times> src_pos) option \<Rightarrow> abort_msg) \<Rightarrow> u64 \<Rightarrow> world \<Rightarrow> stop + nat" where
  "slot_or_abort pf msg address w =
     and_then (slotForUserAddress pf address w) (\<lambda>r. case r of
         Some i \<Rightarrow> Inr i
       | None \<Rightarrow> and_then (nearestSlotForUserAddress pf address w) (\<lambda>r. case r of
             Some i \<Rightarrow> let s = slots w ! i in
               Inl (Aborted (msg address (Some (userAddress s, fileSource s, slot_pos s))))
           | None \<Rightarrow> Inl (Aborted (msg address None))))"

section \<open>\<open>_duma_deallocate\<close>\<close>

text \<open>The loop of \<open>FREE_ACCESS\<close>: from the last byte to the first, read it, write another
  value, write it back.  A block does not wrap around the address space, so the pointer
  comparison ends the loop after \<open>userSize\<close> steps.\<close>

fun free_access :: "platform \<Rightarrow> u64 \<Rightarrow> nat \<Rightarrow> world \<Rightarrow> stop + world" where
  "free_access pf start 0 w = Inr w"
| "free_access pf start (Suc n) w =
     (let cur = start + word_of_nat n in
      and_then (load pf cur w) (\<lambda>c.
      and_then (store pf cur (c - 1) w) (\<lambda>w.
      and_then (store pf cur c w) (\<lambda>w. free_access pf start n w))))"

definition free_guard :: "u64 \<Rightarrow> DUMA_Allocator \<Rightarrow> src_pos \<Rightarrow> DUMA_Slot \<Rightarrow> stop + unit" where
  "free_guard address dealloc pos s =
     (if state s = DUMAST_ALL_PROTECTED \<or> state s = DUMAST_BEGIN_PROTECTED
      then Inl (Aborted (Free_already_freed address (fileSource s) (slot_pos s)))
      else if alloc_type (allocator s) \<noteq> alloc_type dealloc
      then Inl (Aborted (Free_mismatch (allocator s) dealloc (fileSource s) (slot_pos s) pos))
      else Inr ())"

text \<open>Make room below the limit on protected memory for this block, if that can help.\<close>

definition free_make_room :: "platform \<Rightarrow> int \<Rightarrow> world \<Rightarrow> stop + world" where
  "free_make_room pf internalSizekB w =
     (if PROTECT_FREE w > 0 \<and> sumProtectedMem w + internalSizekB > PROTECT_FREE w \<and>
         internalSizekB < PROTECT_FREE w \<and> sumProtectedMem w \<ge> internalSizekB
      then and_then (reduceProtectedMemory pf (word_of_int internalSizekB) w) (\<lambda>(_, w). Inr w)
      else Inr w)"

text \<open>Keep the block, inaccessible, or give its memory back and empty the slot.\<close>

definition free_retire :: "platform \<Rightarrow> nat \<Rightarrow> int \<Rightarrow> src_pos \<Rightarrow> world \<Rightarrow> stop + world" where
  "free_retire pf i internalSizekB pos w =
     (let s = slots w ! i in
      if allocator s \<noteq> EFA_INT_ALLOC \<and>
         (PROTECT_FREE w < 0 \<or> PROTECT_FREE w > 0 \<and> sumProtectedMem w + internalSizekB \<le> PROTECT_FREE w)
      then
        and_then (Page_DenyAccess pf (internalAddress s) (internalSize s)
                   (set_slot i (s\<lparr>state := DUMAST_ALL_PROTECTED\<rparr>) w)) (\<lambda>w.
          let w = w\<lparr>sumProtectedMem := sumProtectedMem w + internalSizekB\<rparr> in
          Inr (if snd pos \<noteq> 0
               then set_slot i (s\<lparr>state := DUMAST_ALL_PROTECTED, fileSource := DUMAFS_DEALLOCATION,
                                 filename := fst pos, lineno := snd pos\<rparr>) w
               else w))
      else
        and_then (Page_Delete pf (internalAddress s) (internalSize s) w) (\<lambda>w.
          Inr (set_slot i (clear_slot s)
                (w\<lparr>sumAllocatedMem := sumAllocatedMem w - internalSizekB,
                   unUsedSlots := unUsedSlots w + 1\<rparr>))))"

definition count_free :: "DUMA_Slot \<Rightarrow> src_pos \<Rightarrow> world \<Rightarrow> world" where
  "count_free s pos w =
     (let w = w\<lparr>numDeallocs := numDeallocs w + 1\<rparr>
      in if SHOW_ALLOC w then DUMA_Print (Show_freeing (userSize s) pos (slot_pos s)) w else w)"

definition free_block :: "platform \<Rightarrow> u64 \<Rightarrow> DUMA_Allocator \<Rightarrow> src_pos \<Rightarrow> world \<Rightarrow> stop + world" where
  "free_block pf address dealloc pos w =
     and_then (slot_or_abort pf Free_not_from_DUMA address w) (\<lambda>i.
     let s = slots w ! i; internalSizekB = int (unat (kB (internalSize s))) in
     and_then (free_guard address dealloc pos s) (\<lambda>_.
     let w = count_free s pos w in
     and_then (duma_check_slack pf s w) (\<lambda>_.
     and_then (if FREE_ACCESS w then free_access pf (userAddress s) (unat (userSize s)) w else Inr w) (\<lambda>w.
     and_then (free_make_room pf internalSizekB w) (\<lambda>w.
     free_retire pf i internalSizekB pos w)))))"

definition duma_deallocate ::
  "platform \<Rightarrow> u64 \<Rightarrow> bool \<Rightarrow> DUMA_Allocator \<Rightarrow> src_pos \<Rightarrow> world \<Rightarrow> stop + world" where
  "duma_deallocate pf address protectAllocList dealloc pos w =
     (if allocList w = 0 then Inl (Aborted Free_before_malloc)
      else if address = 0 \<or> null_addr w = address then Inr w
      else
        and_then (open_list pf protectAllocList w) (\<lambda>w.
        and_then (check_freq pf w) (\<lambda>w.
        and_then (free_block pf address dealloc pos w) (\<lambda>w.
        close_list pf protectAllocList w))))"

section \<open>\<open>duma_check\<close> and \<open>duma_checkAll\<close>\<close>

definition duma_check :: "platform \<Rightarrow> u64 \<Rightarrow> world \<Rightarrow> stop + world" where
  "duma_check pf address w =
     (if address = 0 then Inr w
      else
        and_then (open_list pf True w) (\<lambda>w.
        and_then (slot_or_abort pf Check_not_from_DUMA address w) (\<lambda>i.
        let s = slots w ! i in
        if state s = DUMAST_ALL_PROTECTED \<or> state s = DUMAST_BEGIN_PROTECTED
        then Inl (Aborted (Check_already_freed address (fileSource s) (slot_pos s)))
        else and_then (duma_check_slack pf s w) (\<lambda>_. close_list pf True w))))"

definition duma_checkAll :: "platform \<Rightarrow> world \<Rightarrow> stop + world" where
  "duma_checkAll pf w =
     and_then (open_list pf True w) (\<lambda>w.
     and_then (duma_check_all_slacks pf w) (\<lambda>_. close_list pf True w))"

declare
  open_list_def [duma_defs]
  close_list_def [duma_defs]
  check_freq_def [duma_defs]
  slot_or_abort_def [duma_defs]
  free_guard_def [duma_defs]
  free_make_room_def [duma_defs]
  free_retire_def [duma_defs]
  count_free_def [duma_defs]
  free_block_def [duma_defs]
  duma_deallocate_def [duma_defs]
  duma_check_def [duma_defs]
  duma_checkAll_def [duma_defs]

section \<open>Frames\<close>

lemma heap_ok_cong:
  "pages w' = pages w \<Longrightarrow> slots w' = slots w \<Longrightarrow> allocList w' = allocList w \<Longrightarrow>
   allocListSize w' = allocListSize w \<Longrightarrow> heap_ok pf w' = heap_ok pf w"
  by (simp add: heap_ok_def list_slot_def)

lemma list_open_cong:
  "pages w' = pages w \<Longrightarrow> allocList w' = allocList w \<Longrightarrow> allocListSize w' = allocListSize w \<Longrightarrow>
   list_open pf w' = list_open pf w"
  by (simp add: list_open_def)

lemma heap_ok_list:
  assumes "heap_ok pf w"
  obtains i where "i < length (slots w)" "list_slot w (slots w ! i)"
    "pg_range pf (allocList w) (allocListSize w)"
    "\<And>x. in_rng (allocList w) (allocListSize w) x \<Longrightarrow> in_slot (slots w ! i) x"
proof -
  from assms obtain s where s: "s \<in> set (slots w)" "list_slot w s" by (auto simp: heap_ok_def)
  then obtain i where i: "i < length (slots w)" "slots w ! i = s" by (auto simp: in_set_conv_nth)
  have "slot_shape pf s" using assms s by (auto simp: heap_ok_def table_ok_def slot_ok_def)
  with s assms have "pg_range pf (allocList w) (allocListSize w)"
    by (auto simp: pg_range_def heap_ok_def list_slot_def slot_shape_def)
  with i s show thesis
    by (intro that [of i]) (auto simp: list_slot_def in_slot_def in_rng_def word_le_nat_alt)
qed

text \<open>Opening and closing the slot array.\<close>

lemma heap_ok_list_pages:
  assumes ok: "heap_ok pf w" and p: "p \<noteq> Unmapped"
    and w': "pages w' = set_pages pf (allocList w) (allocListSize w) p (pages w)"
      "slots w' = slots w" "allocList w' = allocList w" "allocListSize w' = allocListSize w"
  shows "heap_ok pf w'"
proof -
  from ok obtain i where i: "i < length (slots w)" and ls: "list_slot w (slots w ! i)"
    and rg: "pg_range pf (allocList w) (allocListSize w)"
    and sub: "\<And>x. in_rng (allocList w) (allocListSize w) x \<Longrightarrow> in_slot (slots w ! i) x"
    by (rule heap_ok_list) blast
  from ok have tab: "table_ok pf (pages w) (slots w)" by (simp add: heap_ok_def)
  have "table_ok pf (pages w') (slots w)"
    using tab nth_mem [OF i] ls slot_ok_mapped [OF table_ok_nth [OF tab i]] p sub
    by (intro table_ok_internal [OF tab]) (auto simp: list_slot_def w' set_pages_at [OF rg])
  with ok w' show ?thesis by (simp add: heap_ok_def list_slot_def)
qed

lemma open_list_frame:
  assumes "open_list pf True w = Inr w'"
  obtains own tid nr ini d where
    "w' = w\<lparr>mutex_owner := own, mutextid := tid, locknr := nr, semInited := ini, semDepth := d,
       pages := set_pages pf (allocList w) (allocListSize w) ReadWrite (pages w),
       clock := Suc (clock w)\<rparr>"
proof -
  from assms obtain w1 where g: "DUMA_get_sem pf w = Inr w1"
    and a: "Page_AllowAccess pf (allocList w1) (allocListSize w1) w1 = Inr w'"
    by (auto simp: open_list_def outcome_simps)
  from g show thesis by (rule DUMA_get_sem_frame) (use a in \<open>auto simp: outcome_simps intro: that\<close>)
qed

lemma close_list_frame:
  assumes "close_list pf True w = Inr w'"
  obtains own tid nr d where
    "w' = w\<lparr>pages := set_pages pf (allocList w) (allocListSize w) NoAccess (pages w),
       clock := Suc (clock w), mutex_owner := own, mutextid := tid, locknr := nr, semDepth := d\<rparr>"
proof -
  from assms obtain w1 where g: "DUMA_rel_sem w1 = Inr w'"
    and a: "Page_DenyAccess pf (allocList w) (allocListSize w) w = Inr w1"
    by (auto simp: close_list_def outcome_simps)
  from g show thesis by (rule DUMA_rel_sem_frame) (use a in \<open>auto simp: outcome_simps intro: that\<close>)
qed

lemma open_list_ok:
  assumes "open_list pf prot w = Inr w'" and "heap_ok pf w"
  shows "heap_ok pf w' \<and> (prot \<longrightarrow> list_open pf w')"
proof (cases prot)
  case True
  then have o: "open_list pf True w = Inr w'" using assms(1) by simp
  from assms(2) obtain i where rg: "pg_range pf (allocList w) (allocListSize w)" by (rule heap_ok_list)
  from o obtain own tid nr ini d where w': "w' = w\<lparr>mutex_owner := own, mutextid := tid, locknr := nr, semInited := ini, semDepth := d,
       pages := set_pages pf (allocList w) (allocListSize w) ReadWrite (pages w),
       clock := Suc (clock w)\<rparr>" by (rule open_list_frame)
  have "heap_ok pf w'" by (rule heap_ok_list_pages [OF assms(2)]) (simp_all add: w')
  moreover from this have "list_open pf w'"
    by (simp add: list_open_iff) (simp add: w' perm_at_def set_pages_at [OF rg])
  ultimately show ?thesis by simp
next
  case False
  with assms show ?thesis by (simp add: open_list_def)
qed

lemma close_list_ok:
  assumes "close_list pf prot w = Inr w'" and "heap_ok pf w"
  shows "heap_ok pf w'"
proof (cases prot)
  case True
  then have "close_list pf True w = Inr w'" using assms(1) by simp
  then show ?thesis
    by (rule close_list_frame) (rule heap_ok_list_pages [OF assms(2)]; simp)
next
  case False
  with assms show ?thesis by (simp add: close_list_def)
qed

lemma check_freq_frame:
  assumes "check_freq pf w = Inr w'"
  obtains c where "w' = w\<lparr>checkFreqCounter := c\<rparr>"
proof -
  have "\<exists>c. w' = w\<lparr>checkFreqCounter := c\<rparr>"
    using assms by (cases w) (auto simp: check_freq_def Let_def outcome_simps split: if_splits)
  then show thesis using that by blast
qed

text \<open>The accesses of \<open>FREE_ACCESS\<close> leave the contents as they were.\<close>

lemma free_access_Inr: "free_access pf start n w = Inr w' \<Longrightarrow> w' = w"
proof (induction pf start n w rule: free_access.induct)
  case (1 pf start w)
  then show ?case by simp
next
  case (2 pf start n w)
  let ?cur = "start + word_of_nat n"
  from "2.prems" obtain c w1 w2 where l: "load pf ?cur w = Inr c" and s1: "store pf ?cur (c - 1) w = Inr w1"
    and s2: "store pf ?cur c w1 = Inr w2" and r: "free_access pf start n w2 = Inr w'"
    by (auto simp: Let_def and_then_Inr_iff)
  from "2.IH" [OF refl l s1 s2 r] l s1 s2 show ?case by (auto simp: outcome_simps fun_upd_idem)
qed

lemma free_make_room_ok:
  assumes "free_make_room pf k w = Inr w'" and "heap_ok pf w"
  shows "heap_ok pf w' \<and> released pf w w'"
  using assms by (auto simp: free_make_room_def outcome_simps released_refl
      dest: reduceProtectedMemory_ok split: if_splits)

section \<open>Retiring a block\<close>

lemma heap_ok_rewrite:
  assumes ok: "heap_ok pf w" and i: "i < length (slots w)" and nl: "\<not> list_slot w (slots w ! i)"
    and rg: "pg_range pf a n" and sub: "\<And>x. in_rng a n x \<Longrightarrow> in_slot (slots w ! i) x"
    and w1: "pages w1 = set_pages pf a n p (pages w)" "slots w1 = slots w"
      "allocList w1 = allocList w" "allocListSize w1 = allocListSize w"
    and s: "slot_ok pf (pages w1) s'" "\<And>x. in_slot s' x \<Longrightarrow> in_slot (slots w ! i) x"
  shows "heap_ok pf (set_slot i s' w1)"
proof (rule heap_ok_set_slot [OF ok i _ w1(2-4) nl])
  from ok have "table_ok pf (pages w) (slots w)" by (simp add: heap_ok_def)
  then show "table_ok pf (pages w1) ((slots w)[i := s'])"
    by (rule table_ok_rewrite [OF _ i s]) (use sub in \<open>auto simp: w1 set_pages_at [OF rg]\<close>)
qed

lemma clear_slot_ok: "slot_ok pf pg (clear_slot s)"
  by (simp add: slot_ok_def slot_shape_def clear_slot_def in_slot_def)

lemma free_retire_ok:
  assumes ok: "heap_ok pf w" and i: "i < length (slots w)" and nl: "\<not> list_slot w (slots w ! i)"
    and ne: "state (slots w ! i) \<noteq> DUMAST_EMPTY" and r: "free_retire pf i k pos w = Inr w'"
  shows "heap_ok pf w'"
    and "\<exists>s' p. slots w' = (slots w)[i := s'] \<and> (state s' = DUMAST_ALL_PROTECTED \<or> state s' = DUMAST_EMPTY) \<and>
           (\<forall>x. in_slot s' x \<longrightarrow> in_slot (slots w ! i) x) \<and> p \<noteq> ReadWrite \<and>
           (\<forall>x. perm_at pf w' x = (if in_slot (slots w ! i) x then p else perm_at pf w x)) \<and>
           bytes w' = bytes w \<and> sem_view w' = sem_view w \<and> allocList w' = allocList w \<and>
           allocListSize w' = allocListSize w"
proof -
  let ?s = "slots w ! i"
  from ok i have so: "slot_ok pf (pages w) ?s" and pok: "page_ok pf"
    by (simp_all add: heap_ok_def table_ok_nth)
  from slot_ok_range [OF so pok ne] have rg: "pg_range pf (internalAddress ?s) (internalSize ?s)" by simp
  have sub: "in_slot ?s x" if "in_rng (internalAddress ?s) (internalSize ?s) x" for x
    using that by (simp add: in_slot_def)
  note pg = set_pages_at [OF rg] in_slot_def
  have "heap_ok pf w' \<and> (\<exists>s' p. slots w' = (slots w)[i := s'] \<and>
           (state s' = DUMAST_ALL_PROTECTED \<or> state s' = DUMAST_EMPTY) \<and>
           (\<forall>x. in_slot s' x \<longrightarrow> in_slot ?s x) \<and> p \<noteq> ReadWrite \<and>
           (\<forall>x. perm_at pf w' x = (if in_slot ?s x then p else perm_at pf w x)) \<and>
           bytes w' = bytes w \<and> sem_view w' = sem_view w \<and> allocList w' = allocList w \<and>
           allocListSize w' = allocListSize w)"
  proof (cases "allocator ?s \<noteq> EFA_INT_ALLOC \<and>
         (PROTECT_FREE w < 0 \<or> PROTECT_FREE w > 0 \<and> sumProtectedMem w + k \<le> PROTECT_FREE w)")
    case True
    define s' where "s' = (if snd pos \<noteq> 0 then ?s\<lparr>state := DUMAST_ALL_PROTECTED,
        fileSource := DUMAFS_DEALLOCATION, filename := fst pos, lineno := snd pos\<rparr>
      else ?s\<lparr>state := DUMAST_ALL_PROTECTED\<rparr>)"
    define w1 where "w1 = w\<lparr>pages := set_pages pf (internalAddress ?s) (internalSize ?s) NoAccess (pages w),
      clock := Suc (clock w), sumProtectedMem := sumProtectedMem w + k\<rparr>"
    have w': "w' = set_slot i s' w1"
      using r True unfolding s'_def w1_def
      by (auto simp: free_retire_def Let_def outcome_simps set_slot_def split: if_splits)
    have s': "in_slot s' x = in_slot ?s x" for x by (simp add: s'_def in_slot_def)
    have "slot_shape pf s'"
      using so ne True by (auto simp: slot_ok_def slot_shape_def s'_def slot_end_def in_slot_def)
    then have "slot_ok pf (pages w1) s'"
      using s' by (simp add: slot_ok_def w1_def pg) (simp add: s'_def slot_perm_ok_def)
    from heap_ok_rewrite [OF ok i nl rg sub _ _ _ _ this] have "heap_ok pf w'"
      by (simp add: w' s') (simp add: w1_def)
    moreover have "state s' = DUMAST_ALL_PROTECTED" by (simp add: s'_def)
    moreover have "slots w' = (slots w)[i := s']" "bytes w' = bytes w" "sem_view w' = sem_view w"
      "allocList w' = allocList w" "allocListSize w' = allocListSize w"
      "\<forall>x. perm_at pf w' x = (if in_slot ?s x then NoAccess else perm_at pf w x)"
      by (simp_all add: w' w1_def set_slot_def sem_view_def perm_at_def pg)
    ultimately show ?thesis using s' by (intro conjI exI [of _ s'] exI [of _ NoAccess]) simp_all
  next
    case False
    with r obtain w0 where del: "Page_Delete pf (internalAddress ?s) (internalSize ?s) w = Inr w0"
      and w': "w' = set_slot i (clear_slot ?s) (w0\<lparr>sumAllocatedMem := sumAllocatedMem w0 - k,
                   unUsedSlots := unUsedSlots w0 + 1\<rparr>)"
      by (auto simp: free_retire_def Let_def outcome_simps split: if_splits)
    from del obtain p c where p: "p \<noteq> ReadWrite" and
      w0: "w0 = w\<lparr>pages := set_pages pf (internalAddress ?s) (internalSize ?s) p (pages w), clock := c\<rparr>"
      by (rule Page_Delete_Inr)
    from heap_ok_rewrite [OF ok i nl rg sub _ _ _ _ clear_slot_ok] have "heap_ok pf w'"
      by (simp add: w' w0) (simp add: clear_slot_def)
    moreover have "slots w' = (slots w)[i := clear_slot ?s]" "bytes w' = bytes w" "sem_view w' = sem_view w"
      "allocList w' = allocList w" "allocListSize w' = allocListSize w"
      "\<forall>x. perm_at pf w' x = (if in_slot ?s x then p else perm_at pf w x)"
      by (simp_all add: w' w0 set_slot_def sem_view_def perm_at_def pg)
    ultimately show ?thesis using p
      by (intro conjI exI [of _ "clear_slot ?s"] exI [of _ p]) (simp_all add: clear_slot_def)
  qed
  then show "heap_ok pf w'" and "\<exists>s' p. slots w' = (slots w)[i := s'] \<and> (state s' = DUMAST_ALL_PROTECTED \<or> state s' = DUMAST_EMPTY) \<and>
           (\<forall>x. in_slot s' x \<longrightarrow> in_slot (slots w ! i) x) \<and> p \<noteq> ReadWrite \<and>
           (\<forall>x. perm_at pf w' x = (if in_slot (slots w ! i) x then p else perm_at pf w x)) \<and>
           bytes w' = bytes w \<and> sem_view w' = sem_view w \<and> allocList w' = allocList w \<and>
           allocListSize w' = allocListSize w"
    by simp_all
qed

section \<open>What freeing leaves alone\<close>

lemma keeps_list_pages:
  assumes ok: "heap_ok pf w"
    and w': "pages w' = set_pages pf (allocList w) (allocListSize w) p (pages w)"
      "slots w' = slots w" "bytes w' = bytes w"
  shows "keeps pf I w w'"
proof -
  from ok obtain i where i: "i < length (slots w)" "list_slot w (slots w ! i)"
    and rg: "pg_range pf (allocList w) (allocListSize w)"
    and sub: "\<And>x. in_rng (allocList w) (allocListSize w) x \<Longrightarrow> in_slot (slots w ! i) x"
    by (rule heap_ok_list) blast
  from ok have tab: "table_ok pf (pages w) (slots w)" by (simp add: heap_ok_def)
  show ?thesis
    by (rule keeps_inside [OF tab i(1)])
      (use i(2) sub in \<open>auto simp: w' perm_at_def set_pages_at [OF rg] list_slot_not_live\<close>)
qed

lemma open_list_keeps:
  assumes "open_list pf prot w = Inr w'" and "heap_ok pf w"
  shows "keeps pf I w w'" "slots w' = slots w"
proof -
  have "keeps pf I w w' \<and> slots w' = slots w"
  proof (cases prot)
    case True
    then have "open_list pf True w = Inr w'" using assms(1) by simp
    then show ?thesis by (rule open_list_frame) (use keeps_list_pages [OF assms(2)] in simp)
  next
    case False
    with assms show ?thesis by (simp add: open_list_def)
  qed
  then show "keeps pf I w w'" "slots w' = slots w" by simp_all
qed

lemma close_list_keeps:
  assumes "close_list pf prot w = Inr w'" and "heap_ok pf w"
  shows "keeps pf I w w'" "slots w' = slots w"
proof -
  have "keeps pf I w w' \<and> slots w' = slots w"
  proof (cases prot)
    case True
    then have "close_list pf True w = Inr w'" using assms(1) by simp
    then show ?thesis by (rule close_list_frame) (use keeps_list_pages [OF assms(2)] in simp)
  next
    case False
    with assms show ?thesis by (simp add: close_list_def)
  qed
  then show "keeps pf I w w'" "slots w' = slots w" by simp_all
qed

text \<open>Opening and closing the slot array does not touch any other memory.\<close>

lemma close_list_perm:
  assumes "close_list pf prot w = Inr w'" and "heap_ok pf w" and "\<not> in_rng (allocList w) (allocListSize w) x"
  shows "perm_at pf w' x = perm_at pf w x"
proof (cases prot)
  case True
  from assms(2) have rg: "pg_range pf (allocList w) (allocListSize w)" by (rule heap_ok_list)
  from True assms(1) have "close_list pf True w = Inr w'" by simp
  then show ?thesis by (rule close_list_frame) (use assms(3) in \<open>simp add: perm_at_def set_pages_at [OF rg]\<close>)
next
  case False
  with assms show ?thesis by (simp add: close_list_def)
qed

lemma live_not_protected: "live s \<Longrightarrow> \<not> is_protected s"
  by (auto simp: live_def is_protected_def)

lemma released_keeps:
  assumes "released pf w w'" and "heap_ok pf w"
  shows "keeps pf I w w'"
  unfolding keeps_def
proof (intro allI impI conjI)
  fix j x assume j: "j < length (slots w)" and l: "j \<notin> I \<and> live (slots w ! j)"
  then have np: "\<not> is_protected (slots w ! j)" by (simp add: live_not_protected)
  show "j < length (slots w')" "slots w' ! j = slots w ! j"
    using assms(1) j np by (auto simp: released_def)
  show "bytes w' x = bytes w x"
    using reduce_mask_fields(4) [OF released_mask [OF assms(1)]] by simp
  assume "in_slot (slots w ! j) x"
  from released_perm [OF assms j this np] show "perm_at pf w' x = perm_at pf w x" .
next
  fix j assume j: "j < length (slots w')" "j \<notin> I \<and> live (slots w' ! j)"
  then have "\<not> is_protected (slots w' ! j)" "state (slots w' ! j) \<noteq> DUMAST_EMPTY"
    by (simp_all add: live_not_protected) (simp add: live_def)
  with assms(1) j show "slots w' ! j = slots w ! j" "j < length (slots w)" by (auto simp: released_def)
qed

lemma slot_or_abort_Inr:
  "slot_or_abort pf msg a w = Inr i \<Longrightarrow> slotForUserAddress pf a w = Inr (Some i)"
  by (auto simp: slot_or_abort_def and_then_Inr_iff Let_def split: option.splits)

section \<open>Freeing a block\<close>

lemma count_free_same:
  "slots (count_free s pos w) = slots w" "pages (count_free s pos w) = pages w" "bytes (count_free s pos w) = bytes w"
  "sem_view (count_free s pos w) = sem_view w" "allocList (count_free s pos w) = allocList w"
  "allocListSize (count_free s pos w) = allocListSize w" "SLACKFILL (count_free s pos w) = SLACKFILL w"
  by (simp_all add: count_free_def DUMA_Print_def sem_view_def Let_def)

lemma free_block_steps:
  assumes ok: "heap_ok pf w" and a: "a \<noteq> 0" and f: "free_block pf a d pos w = Inr w'"
    and nl: "alloc_type d \<noteq> DUMAAT_INTERNAL \<or> a \<noteq> allocList w"
  obtains i w3 s' p where "slotForUserAddress pf a w = Inr (Some i)" "i < length (slots w)"
    "\<not> is_protected (slots w ! i)" "alloc_type (allocator (slots w ! i)) = alloc_type d"
    "duma_check_slack pf (slots w ! i) w = Inr ()"
    "released pf (count_free (slots w ! i) pos w) w3" "heap_ok pf w3" "length (slots w3) = length (slots w)" "slots w3 ! i = slots w ! i"
    "slots w' = (slots w3)[i := s']" "state s' = DUMAST_ALL_PROTECTED \<or> state s' = DUMAST_EMPTY" "p \<noteq> ReadWrite"
    "\<And>x. perm_at pf w' x = (if in_slot (slots w ! i) x then p else perm_at pf w3 x)"
    "bytes w' = bytes w3" "sem_view w' = sem_view w3" "allocList w' = allocList w3" "allocListSize w' = allocListSize w3"
    "heap_ok pf w'"
proof -
  from f obtain i where so: "slot_or_abort pf Free_not_from_DUMA a w = Inr i"
    and g: "free_guard a d pos (slots w ! i) = Inr ()"
    and c: "duma_check_slack pf (slots w ! i) (count_free (slots w ! i) pos w) = Inr ()"
    and r: "and_then (if FREE_ACCESS (count_free (slots w ! i) pos w)
          then free_access pf (userAddress (slots w ! i)) (unat (userSize (slots w ! i))) (count_free (slots w ! i) pos w)
          else Inr (count_free (slots w ! i) pos w))
        (\<lambda>w3. and_then (free_make_room pf (int (unat (kB (internalSize (slots w ! i))))) w3)
        (\<lambda>w3. free_retire pf i (int (unat (kB (internalSize (slots w ! i))))) pos w3)) = Inr w'"
    unfolding free_block_def Let_def by (elim and_then_InrE) simp
  define w2 where "w2 = count_free (slots w ! i) pos w"
  from so have i: "slotForUserAddress pf a w = Inr (Some i)" by (rule slot_or_abort_Inr)
  let ?s = "slots w ! i"
  let ?k = "int (unat (kB (internalSize ?s)))"
  note eq = count_free_same [of "slots w ! i" pos w, folded w2_def]
  have ok2: "heap_ok pf w2" using ok heap_ok_cong [of w2 w pf] eq by simp
  from r obtain w3 where room: "free_make_room pf ?k w2 = Inr w3" and ret: "free_retire pf i ?k pos w3 = Inr w'"
  proof (rule and_then_InrE)
    fix w3
    assume "(if FREE_ACCESS (count_free ?s pos w) then free_access pf (userAddress ?s) (unat (userSize ?s)) (count_free ?s pos w)
        else Inr (count_free ?s pos w)) = Inr w3"
    then have [simp]: "w3 = w2" by (auto simp: w2_def dest: free_access_Inr split: if_splits)
    assume "and_then (free_make_room pf ?k w3) (\<lambda>w3. free_retire pf i ?k pos w3) = Inr w'"
    then show thesis by (rule and_then_InrE) (rule that; simp)
  qed
  note ia = slotForUserAddress_Some [OF i]
  from free_make_room_ok [OF room ok2] have ok3: "heap_ok pf w3" and rel: "released pf w2 w3" by simp_all
  from g have np: "\<not> is_protected ?s" and ty: "alloc_type (allocator ?s) = alloc_type d"
    by (auto simp: free_guard_def is_protected_def split: if_splits)
  have len: "length (slots w3) = length (slots w)" and same: "slots w3 ! i = ?s"
    using rel eq ia np by (auto simp: released_def)
  note fl = reduce_mask_fields [OF released_mask [OF rel]]
  have ne: "state ?s \<noteq> DUMAST_EMPTY"
    using ok ia a by (auto simp: heap_ok_def slot_ok_def slot_shape_def dest!: table_ok_nth [of _ _ _ i])
  have nls: "\<not> list_slot w3 (slots w3 ! i)"
    using nl ty ia same fl(1) eq by (auto simp: list_slot_def)
  from free_retire_ok [OF ok3 _ nls _ ret] ia(2) len same ne obtain s' p where
      ok': "heap_ok pf w'" and sl: "slots w' = (slots w3)[i := s']"
      and st: "state s' = DUMAST_ALL_PROTECTED \<or> state s' = DUMAST_EMPTY" and p: "p \<noteq> ReadWrite"
      and pm: "\<And>x. perm_at pf w' x = (if in_slot ?s x then p else perm_at pf w3 x)"
      and rest: "bytes w' = bytes w3" "sem_view w' = sem_view w3" "allocList w' = allocList w3"
        "allocListSize w' = allocListSize w3"
    by auto
  have "duma_check_slack pf ?s w = Inr ()"
    using c eq duma_check_slack_cong [of w2 w pf ?s] by (simp flip: w2_def)
  then show thesis
    using that [OF i ia(2) np ty _ _ ok3 len same sl st p pm rest ok'] rel by (simp add: w2_def)
qed

lemma free_block_ok:
  assumes ok: "heap_ok pf w" and a: "a \<noteq> 0" and f: "free_block pf a d pos w = Inr w'"
    and nl: "alloc_type d \<noteq> DUMAAT_INTERNAL \<or> a \<noteq> allocList w"
  obtains i where "slotForUserAddress pf a w = Inr (Some i)" "i < length (slots w)"
    "\<not> is_protected (slots w ! i)" "alloc_type (allocator (slots w ! i)) = alloc_type d"
    "duma_check_slack pf (slots w ! i) w = Inr ()"
    "heap_ok pf w'" "keeps pf {i} w w'" "length (slots w') = length (slots w)"
    "state (slots w' ! i) = DUMAST_ALL_PROTECTED \<or> state (slots w' ! i) = DUMAST_EMPTY"
    "\<And>x. in_slot (slots w ! i) x \<Longrightarrow> perm_at pf w' x \<noteq> ReadWrite"
    "sem_view w' = sem_view w" "allocList w' = allocList w" "allocListSize w' = allocListSize w"
proof -
  from free_block_steps [OF ok a f nl] obtain i w3 s' p where i: "slotForUserAddress pf a w = Inr (Some i)" "i < length (slots w)"
    "\<not> is_protected (slots w ! i)" "alloc_type (allocator (slots w ! i)) = alloc_type d"
    "duma_check_slack pf (slots w ! i) w = Inr ()"
    and rel: "released pf (count_free (slots w ! i) pos w) w3" and ok3: "heap_ok pf w3"
    and len: "length (slots w3) = length (slots w)" and same: "slots w3 ! i = slots w ! i"
    and sl: "slots w' = (slots w3)[i := s']" and st: "state s' = DUMAST_ALL_PROTECTED \<or> state s' = DUMAST_EMPTY" and p: "p \<noteq> ReadWrite"
    and pm: "\<And>x. perm_at pf w' x = (if in_slot (slots w ! i) x then p else perm_at pf w3 x)"
    and rest: "bytes w' = bytes w3" "sem_view w' = sem_view w3" "allocList w' = allocList w3" "allocListSize w' = allocListSize w3"
    and ok': "heap_ok pf w'" by blast
  let ?w2 = "count_free (slots w ! i) pos w"
  have ok2: "heap_ok pf ?w2" using ok heap_ok_cong [of ?w2 w pf] by (simp add: count_free_same)
  note fl = reduce_mask_fields [OF released_mask [OF rel]]
  have "keeps pf {i} w3 w'"
    using ok3 i(2) len same sl pm rest by (intro keeps_inside [of pf w3 i]) (simp_all add: heap_ok_def)
  moreover have "keeps pf {i} ?w2 w3" using rel ok2 by (rule released_keeps)
  moreover have "keeps pf {i} w ?w2" by (simp add: keeps_def count_free_same perm_at_def)
  ultimately have "keeps pf {i} w w'" by (blast intro: keeps_trans)
  moreover have "perm_at pf w' x \<noteq> ReadWrite" if "in_slot (slots w ! i) x" for x using pm p that by simp
  ultimately show thesis
    using that [OF i ok'] sl st len rest fl i(2) by (simp add: count_free_same)
qed

text \<open>The lock is as it was before.\<close>

lemma bracket_as_lock:
  "and_then (open_list pf True w) (\<lambda>w. and_then (body w) (close_list pf True)) =
   and_then (DUMA_get_sem pf w) (\<lambda>w. and_then
     (and_then (Page_AllowAccess pf (allocList w) (allocListSize w) w) (\<lambda>w. and_then (body w)
       (\<lambda>w. Page_DenyAccess pf (allocList w) (allocListSize w) w))) DUMA_rel_sem)"
proof -
  have "close_list pf True = (\<lambda>w. and_then (Page_DenyAccess pf (allocList w) (allocListSize w) w) DUMA_rel_sem)"
    by (rule ext) (simp add: close_list_def)
  then show ?thesis by (simp add: open_list_def and_then_assoc)
qed

lemma bracket_sem_view:
  assumes "and_then (open_list pf True w) (\<lambda>w. and_then (body w) (close_list pf True)) = Inr w'"
    and "sem_inv pf (sem_view w)" and "\<And>w w'. body w = Inr w' \<Longrightarrow> sem_view w' = sem_view w"
  shows "sem_view w' = sem_view w"
  by (rule sem.bracket_balanced [OF assms(2) assms(1) [unfolded bracket_as_lock]])
    (auto simp: outcome_simps sem_view_def dest!: assms(3))

section \<open>Properties\<close>

lemma deallocate_unfold:
  assumes "duma_deallocate pf a prot d pos w = Inr w'" and "a \<noteq> 0" and "a \<noteq> null_addr w"
  obtains w1 c w2 where "allocList w \<noteq> 0" "open_list pf prot w = Inr w1"
    "check_freq pf w1 = Inr (w1\<lparr>checkFreqCounter := c\<rparr>)"
    "free_block pf a d pos (w1\<lparr>checkFreqCounter := c\<rparr>) = Inr w2" "close_list pf prot w2 = Inr w'"
proof -
  from assms obtain w1 w1' w2 where "allocList w \<noteq> 0" "open_list pf prot w = Inr w1"
    "check_freq pf w1 = Inr w1'" "free_block pf a d pos w1' = Inr w2" "close_list pf prot w2 = Inr w'"
    by (auto simp: duma_deallocate_def and_then_Inr_iff split: if_splits)
  with that show thesis by (metis check_freq_frame)
qed

lemma heap_ok_checkFreqCounter [simp]:
  "heap_ok pf (w\<lparr>checkFreqCounter := c\<rparr>) = heap_ok pf w"
  by (simp add: heap_ok_def list_slot_def)

lemma keeps_checkFreqCounter [simp]: "keeps pf I w (w\<lparr>checkFreqCounter := c\<rparr>)"
  by (simp add: keeps_def perm_at_def)

lemma slotForUserAddress_cong:
  "slotForUserAddress pf a w = Inr (Some i) \<Longrightarrow> slots w' = slots w \<Longrightarrow> list_open pf w' \<Longrightarrow>
   slotForUserAddress pf a w' = Inr (Some i)"
  by (auto simp: slotForUserAddress_def touch_list_def split: if_splits)

text \<open>A slot the free path accepts holds a live block.\<close>

lemma freed_live:
  assumes "heap_ok pf w" and "i < length (slots w)" and "userAddress (slots w ! i) \<noteq> 0"
    and "\<not> is_protected (slots w ! i)" and "alloc_type (allocator (slots w ! i)) \<noteq> DUMAAT_INTERNAL"
  shows "live (slots w ! i)"
proof -
  have "slot_shape pf (slots w ! i)"
    using assms(1,2) by (auto simp: heap_ok_def slot_ok_def dest: table_ok_nth)
  with assms(3-5) show ?thesis
    by (cases "state (slots w ! i)") (auto simp: slot_shape_def live_def is_protected_def)
qed

text \<open>The slot array is not part of any live block.\<close>

lemma live_not_list:
  assumes "heap_ok pf w" and "i < length (slots w)" and "live (slots w ! i)" and "in_slot (slots w ! i) x"
  shows "\<not> in_rng (allocList w) (allocListSize w) x"
proof -
  from assms(1) obtain k where k: "k < length (slots w)" "list_slot w (slots w ! k)"
    and sub: "\<And>x. in_rng (allocList w) (allocListSize w) x \<Longrightarrow> in_slot (slots w ! k) x"
    by (rule heap_ok_list) blast
  from k(2) assms(3) have "k \<noteq> i" by (auto dest: list_slot_not_live)
  with assms k sub show ?thesis by (auto simp: heap_ok_def dest: table_ok_apart)
qed

lemma open_list_bytes:
  assumes "open_list pf prot w = Inr w'"
  shows "bytes w' = bytes w" "SLACKFILL w' = SLACKFILL w"
proof -
  have "bytes w' = bytes w \<and> SLACKFILL w' = SLACKFILL w"
  proof (cases prot)
    case True
    then have "open_list pf True w = Inr w'" using assms by simp
    then show ?thesis by (rule open_list_frame) simp
  qed (use assms in \<open>simp add: open_list_def\<close>)
  then show "bytes w' = bytes w" "SLACKFILL w' = SLACKFILL w" by simp_all
qed

lemma duma_deallocate_ok:
  assumes ok: "heap_ok pf w" and a: "a \<noteq> 0" "a \<noteq> null_addr w" and d: "alloc_type d \<noteq> DUMAAT_INTERNAL"
    and f: "duma_deallocate pf a prot d pos w = Inr w'"
  obtains i where "i < length (slots w)" "userAddress (slots w ! i) = a" "live (slots w ! i)"
    "\<And>j. j < i \<Longrightarrow> userAddress (slots w ! j) \<noteq> a"
    "alloc_type (allocator (slots w ! i)) = alloc_type d" "heap_ok pf w'" "keeps pf {i} w w'"
    "state (slots w' ! i) = DUMAST_ALL_PROTECTED \<or> state (slots w' ! i) = DUMAST_EMPTY"
    "\<And>x. in_slot (slots w ! i) x \<Longrightarrow> load pf x w' = Inl (Segv x)"
    "length (slots w') = length (slots w)" "\<And>x. slack_byte (slots w ! i) x \<Longrightarrow> bytes w x = ucast (SLACKFILL w)"
proof -
  from f a obtain w1 c w2 where o: "open_list pf prot w = Inr w1"
    and fb: "free_block pf a d pos (w1\<lparr>checkFreqCounter := c\<rparr>) = Inr w2" (is "free_block pf a d pos ?w1 = _")
    and cl: "close_list pf prot w2 = Inr w'" by (rule deallocate_unfold)
  from open_list_ok [OF o ok] have ok1: "heap_ok pf ?w1" by simp
  note s1 = open_list_keeps [OF o ok]
  show thesis
  proof (rule free_block_ok [OF ok1 a(1) fb disjI1 [OF d]])
  fix i
  assume i: "slotForUserAddress pf a ?w1 = Inr (Some i)" "i < length (slots ?w1)" "\<not> is_protected (slots ?w1 ! i)"
      "alloc_type (allocator (slots ?w1 ! i)) = alloc_type d"
    and sk: "duma_check_slack pf (slots ?w1 ! i) ?w1 = Inr ()"
    and ok2: "heap_ok pf w2" and k2: "keeps pf {i} ?w1 w2"
    and len: "length (slots w2) = length (slots ?w1)"
    and st: "state (slots w2 ! i) = DUMAST_ALL_PROTECTED \<or> state (slots w2 ! i) = DUMAST_EMPTY"
    and pm: "\<And>x. in_slot (slots ?w1 ! i) x \<Longrightarrow> perm_at pf w2 x \<noteq> ReadWrite"
    and ls: "allocList w2 = allocList ?w1" "allocListSize w2 = allocListSize ?w1"
  note fs = slotForUserAddress_Some [OF i(1)]
  have lv: "live (slots ?w1 ! i)" using freed_live [OF ok1 i(2)] i(3,4) fs(3) a d by simp
  have "perm_at pf w' x \<noteq> ReadWrite" if x: "in_slot (slots ?w1 ! i) x" for x
    using close_list_perm [OF cl ok2, of x] live_not_list [OF ok1 i(2) lv x] pm [OF x] ls by simp
  then have "load pf x w' = Inl (Segv x)" if "in_slot (slots w ! i) x" for x
    using that s1 by (simp add: load_def)
  moreover have "keeps pf {i} w w'"
    using s1(1) k2 close_list_keeps(1) [OF cl ok2] keeps_checkFreqCounter [of pf "{i}" w1 c]
    by (blast intro: keeps_trans)
  moreover have "bytes ?w1 = bytes w" "SLACKFILL ?w1 = SLACKFILL w"
    using open_list_bytes [OF o] by simp_all
  with duma_check_slack_Inr [OF sk]
  have "slack_byte (slots w ! i) x \<Longrightarrow> bytes w x = ucast (SLACKFILL w)" for x using s1(2) by simp
  ultimately show thesis
    using i(2,4) fs(3,4) lv len s1(2) close_list_ok [OF cl ok2] st close_list_keeps(2) [OF cl ok2]
    by (intro that [of i]) simp_all
  qed
qed

lemma check_freq_sem_view: "check_freq pf w = Inr w' \<Longrightarrow> sem_view w' = sem_view w"
  by (erule check_freq_frame) (simp add: sem_view_def)

lemma sample_free:
  "\<exists>w'. duma_deallocate sample_pf 0x10002000 True EFA_FREE (Some ''t.c'', 3) (sample_world NoAccess) = Inr w' \<and>
     null_addr w' = 0"
  by (simp add: duma_defs Let_def upt_conv_Cons check_while_empty)

text \<open>C7: A successful \<open>free\<close> of a pointer found the live block that starts there, of a matching
  allocation function.  Afterwards the slot table is valid, every byte of the block, dead page
  included, faults when it is read, and no other live block has changed in any way.\<close>

theorem free_retires_block:
  assumes "heap_ok pf w" and "a \<noteq> 0" and "a \<noteq> null_addr w" and "alloc_type d \<noteq> DUMAAT_INTERNAL"
    and "duma_deallocate pf a True d pos w = Inr w'"
  shows "\<exists>i < length (slots w). userAddress (slots w ! i) = a \<and> live (slots w ! i) \<and>
     alloc_type (allocator (slots w ! i)) = alloc_type d \<and> heap_ok pf w' \<and> keeps pf {i} w w' \<and>
     \<not> live (slots w' ! i) \<and> (\<forall>x. in_slot (slots w ! i) x \<longrightarrow> load pf x w' = Inl (Segv x))"
  by (rule duma_deallocate_ok [OF assms]) (auto simp: live_def)

lemma deallocate_sem_view:
  assumes "sem_inv pf (sem_view w)" and "heap_ok pf w"
    and "duma_deallocate pf a True d pos w = Inr w'" and "alloc_type d \<noteq> DUMAAT_INTERNAL"
  shows "sem_view w' = sem_view w"
proof (cases "allocList w = 0 \<or> a = 0 \<or> a = null_addr w")
  case True
  with assms(3) show ?thesis by (auto simp: duma_deallocate_def split: if_splits)
next
  case False
  then have a: "a \<noteq> 0" by simp
  from False assms(3) obtain w1 c w2 where o: "open_list pf True w = Inr w1"
    and cf: "check_freq pf w1 = Inr (w1\<lparr>checkFreqCounter := c\<rparr>)"
    and fb: "free_block pf a d pos (w1\<lparr>checkFreqCounter := c\<rparr>) = Inr w2" (is "free_block pf a d pos ?w1 = _")
    and cl: "close_list pf True w2 = Inr w'" by (auto elim: deallocate_unfold)
  let ?body = "\<lambda>v. if v = w1 then Inr w2 else Inl Blocked"
  from o cl have "and_then (open_list pf True w) (\<lambda>v. and_then (?body v) (close_list pf True)) = Inr w'" by simp
  then show ?thesis
  proof (rule bracket_sem_view [OF _ assms(1)])
    fix v v' assume "?body v = Inr v'"
    then have v: "v = w1" "v' = w2" by (simp_all split: if_splits)
    from open_list_ok [OF o assms(2)] have "heap_ok pf ?w1" by simp
    from free_block_ok [OF this a fb] assms(4) have "sem_view w2 = sem_view ?w1" by blast
    then show "sem_view v' = sem_view v" by (simp add: v sem_view_def)
  qed
qed

text \<open>C12: Freeing takes the semaphore and gives it back: whatever the nesting depth, the state of
  the lock after a successful call is the state before.\<close>

theorem free_restores_lock:
  assumes "sem_inv pf (sem_view w)" and "heap_ok pf w"
    and "duma_deallocate pf a True d pos w = Inr w'" and "alloc_type d \<noteq> DUMAAT_INTERNAL"
  shows "sem_view w' = sem_view w"
  by (rule deallocate_sem_view [OF assms])

text \<open>C9: No memory is freed twice: after a successful \<open>free\<close>, a second call with the same pointer and
  any deallocation function stops the program.\<close>

theorem double_free_stops:
  assumes "heap_ok pf w" and "a \<noteq> 0" and "a \<noteq> null_addr w" and "a \<noteq> null_addr w'"
    and "alloc_type d \<noteq> DUMAAT_INTERNAL" and "alloc_type d2 \<noteq> DUMAAT_INTERNAL"
    and "duma_deallocate pf a True d pos w = Inr w'"
  shows "\<exists>e. duma_deallocate pf a True d2 pos2 w' = Inl e"
proof (cases "duma_deallocate pf a True d2 pos2 w'")
  case (Inr w'')
  show ?thesis
  proof (rule duma_deallocate_ok [OF assms(1,2,3,5,7)])
    fix i assume i: "i < length (slots w)" "userAddress (slots w ! i) = a" "live (slots w ! i)"
      and ok': "heap_ok pf w'"
      and st: "state (slots w' ! i) = DUMAST_ALL_PROTECTED \<or> state (slots w' ! i) = DUMAST_EMPTY"
      and new: "keeps pf {i} w w'"
      and len: "length (slots w') = length (slots w)"
    from duma_deallocate_ok [OF ok' assms(2,4,6) Inr] obtain j
      where j: "j < length (slots w')" "userAddress (slots w' ! j) = a" "live (slots w' ! j)" by blast
    from st j(3) have ne: "j \<noteq> i" by (auto simp: live_def)
    have "slots w' ! j = slots w ! j" by (rule keeps_back(2) [OF new j(1) _ j(3)]) (use ne in simp)
    with j len i have "in_slot (slots w ! j) a" "in_slot (slots w ! i) a"
      using live_in_slot [OF assms(1), of i] live_in_slot [OF assms(1), of j] by simp_all
    with assms(1) i(1) j(1) len ne show ?thesis
      by (auto simp: heap_ok_def dest: table_ok_apart)
  qed
qed simp



theorem free_retires_block_witness:
  "\<exists>w'. duma_deallocate sample_pf 0x10002000 True EFA_FREE (Some ''t.c'', 3) (sample_world NoAccess) = Inr w' \<and>
     heap_ok sample_pf w' \<and> load sample_pf 0x10002004 w' = Inl (Segv 0x10002004)"
proof -
  obtain w' where w': "duma_deallocate sample_pf 0x10002000 True EFA_FREE (Some ''t.c'', 3) (sample_world NoAccess) = Inr w'"
    using sample_free by blast
  have "heap_ok sample_pf (sample_world NoAccess)" by (rule sample_heap_ok) simp
  note spec = free_retires_block [OF this _ _ _ w']
  have "(0x10002000 :: u64) \<noteq> 0" "0x10002000 \<noteq> null_addr (sample_world NoAccess)"
    "alloc_type EFA_FREE \<noteq> DUMAAT_INTERNAL" by simp_all
  from spec [OF this] obtain i where i: "i < length (slots (sample_world NoAccess))"
      "userAddress (slots (sample_world NoAccess) ! i) = 0x10002000" "heap_ok sample_pf w'"
      "\<forall>x. in_slot (slots (sample_world NoAccess) ! i) x \<longrightarrow> load sample_pf x w' = Inl (Segv x)"
    by blast
  from i(1) have "i \<in> {0, 1, 2, 3, 4, 5, 6, 7, 8, 9, 10}" by (simp, arith)
  with i(2) have "i = 1"
    by (auto simp: sample_list_slot_def sample_freed_def sample_free_slot_def zero_slot_def)
  with i(4) have "load sample_pf 0x10002004 w' = Inl (Segv 0x10002004)"
    by (simp add: in_slot_def in_rng_def sample_block_def)
  with w' i(3) show ?thesis by blast
qed

theorem free_restores_lock_witness:
  "\<exists>w'. duma_deallocate sample_pf 0x10002000 True EFA_FREE (Some ''t.c'', 3) (sample_world NoAccess) = Inr w' \<and>
     mutex_owner w' = None"
proof -
  obtain w' where w': "duma_deallocate sample_pf 0x10002000 True EFA_FREE (Some ''t.c'', 3) (sample_world NoAccess) = Inr w'"
    using sample_free by blast
  have "heap_ok sample_pf (sample_world NoAccess)" by (rule sample_heap_ok) simp
  from free_restores_lock [OF sample_sem this w'] have "sem_view w' = sem_view (sample_world NoAccess)" by simp
  with w' show ?thesis by (auto simp: sem_view_def sample_world_def initial_world_def)
qed

theorem double_free_stops_witness:
  "\<exists>w' e. duma_deallocate sample_pf 0x10002000 True EFA_FREE (Some ''t.c'', 3) (sample_world NoAccess) = Inr w' \<and>
     duma_deallocate sample_pf 0x10002000 True EFA_FREE (None, 0) w' = Inl e"
proof -
  obtain w' where w': "duma_deallocate sample_pf 0x10002000 True EFA_FREE (Some ''t.c'', 3) (sample_world NoAccess) = Inr w'"
      and n: "null_addr w' = 0"
    using sample_free by blast
  have "heap_ok sample_pf (sample_world NoAccess)" by (rule sample_heap_ok) simp
  from double_free_stops [OF this _ _ _ _ _ w', of EFA_FREE "(None, 0)"] n w' show ?thesis by auto
qed



text \<open>C11: \<open>duma_checkAll\<close> returns only if no byte of no man's land has been overwritten, in any
  block in use; it leaves the table valid and all live blocks as they were.\<close>

lemma check_slacks_Inr:
  "check_slacks pf ss w = Inr () \<Longrightarrow> s \<in> set ss \<Longrightarrow> state s = DUMAST_IN_USE \<Longrightarrow> slack_byte s x \<Longrightarrow>
   bytes w x = ucast (SLACKFILL w)"
  by (induction ss) (auto simp: and_then_Inr_iff slack_byte_def intro: duma_check_slack_Inr split: if_splits)

theorem duma_checkAll_sound:
  assumes "heap_ok pf w" and "duma_checkAll pf w = Inr w'"
  shows "heap_ok pf w' \<and> keeps pf {} w w' \<and>
    (\<forall>s \<in> set (slots w). \<forall>x. state s = DUMAST_IN_USE \<and> slack_byte s x \<longrightarrow> bytes w x = ucast (SLACKFILL w))"
proof -
  from assms(2) obtain w1 where o: "open_list pf True w = Inr w1"
    and c: "duma_check_all_slacks pf w1 = Inr ()" and cl: "close_list pf True w1 = Inr w'"
    by (auto simp: duma_checkAll_def and_then_Inr_iff)
  from open_list_ok [OF o assms(1)] have ok1: "heap_ok pf w1" by simp
  from c have "check_slacks pf (slots w1) w1 = Inr ()"
    by (auto simp: duma_check_all_slacks_def touch_list_def split: if_splits)
  from check_slacks_Inr [OF this] open_list_bytes [OF o] open_list_keeps(2) [OF o assms(1)]
  have "\<forall>s \<in> set (slots w). \<forall>x. state s = DUMAST_IN_USE \<and> slack_byte s x \<longrightarrow> bytes w x = ucast (SLACKFILL w)"
    by simp
  moreover have "keeps pf {} w w'"
    using open_list_keeps(1) [OF o assms(1)] close_list_keeps(1) [OF cl ok1] by (rule keeps_trans)
  ultimately show ?thesis using close_list_ok [OF cl ok1] by simp
qed

lemma sample_checkAll: "\<exists>w'. duma_checkAll sample_pf (sample_world NoAccess) = Inr w'"
  by (simp add: duma_defs Let_def upt_conv_Cons check_while_empty)

theorem duma_checkAll_sound_witness:
  "\<exists>w'. duma_checkAll sample_pf (sample_world NoAccess) = Inr w' \<and> heap_ok sample_pf w'"
proof -
  obtain w' where w': "duma_checkAll sample_pf (sample_world NoAccess) = Inr w'"
    using sample_checkAll by blast
  have "heap_ok sample_pf (sample_world NoAccess)" by (rule sample_heap_ok) simp
  from duma_checkAll_sound [OF this w'] w' show ?thesis by blast
qed

end
