(* ===== verification/Duma_Alloc.thy ===== *)
theory Duma_Alloc
  imports Duma_Free
begin

text \<open>
  \<open>_duma_allocate\<close> and \<open>allocateMoreSlots\<close> of \<open>src/duma.c\<close>: the definitions, in the order
  of the code.
\<close>

section \<open>Size and alignment\<close>

text \<open>\<open>for (a = s; a & (a - 1); a &= a - 1);\<close> clears the lowest bits until one is left.\<close>

function lower_pow2 :: "u64 \<Rightarrow> u64" where
  "lower_pow2 a = (if a AND (a - 1) = 0 then a else lower_pow2 (a AND (a - 1)))"
  by pat_completeness auto
termination
proof (relation "measure unat")
  fix a :: u64 assume "a AND (a - 1) \<noteq> 0"
  then have "a \<noteq> 0" by auto
  then show "(a AND (a - 1), a) \<in> measure unat" using and_pred_less [of a] by (simp add: word_less_nat_alt)
qed simp

declare lower_pow2.simps [simp del]

definition alloc_alignment :: "u64 \<Rightarrow> u64 \<Rightarrow> world \<Rightarrow> u64" where
  "alloc_alignment alignment usz w =
     (if alignment = 0 then
        let a = scast (ALIGNMENT w) in if usz < a then lower_pow2 usz else a
      else alignment)"

text \<open>\<open>(int)alignment == ((int)alignment & -(int)alignment)\<close>: only the low 32 bits are looked at.\<close>

definition alignment_accepted :: "u64 \<Rightarrow> bool" where
  "alignment_accepted alignment = (let a = ucast alignment :: u32 in a = (a AND - a))"

definition internal_size :: "platform \<Rightarrow> u64 \<Rightarrow> u64 \<Rightarrow> u64" where
  "internal_size pf alignment usz =
     (if usz = 0 then DUMA_PAGE_SIZE pf
      else let n = ((usz + DUMA_PAGE_SIZE pf - 1) AND NOT (DUMA_PAGE_SIZE pf - 1)) + DUMA_PAGE_SIZE pf
           in if alignment > DUMA_PAGE_SIZE pf then n + (alignment - DUMA_PAGE_SIZE pf) else n)"

section \<open>Choosing a slot\<close>

text \<open>The best fitting free slot (with its size) and the first two empty slots; an exact fit
  ends the search.\<close>

fun scan_slots :: "u64 \<Rightarrow> DUMA_Slot list \<Rightarrow> nat \<Rightarrow> (nat \<times> u64) option \<times> nat option \<times> nat option \<Rightarrow>
    (nat \<times> u64) option \<times> nat option \<times> nat option" where
  "scan_slots sz [] i acc = acc"
| "scan_slots sz (s # ss) i (full, e0, e1) =
     (if state s = DUMAST_FREE \<and> internalSize s \<ge> sz then
        if (case full of None \<Rightarrow> True | Some (_, n) \<Rightarrow> internalSize s < n) then
          if internalSize s = sz then (Some (i, internalSize s), e0, e1)
          else scan_slots sz ss (Suc i) (Some (i, internalSize s), e0, e1)
        else scan_slots sz ss (Suc i) (full, e0, e1)
      else if state s = DUMAST_EMPTY then
        scan_slots sz ss (Suc i)
          (if e0 = None then (full, Some i, e1) else if e1 = None then (full, e0, Some i) else (full, e0, e1))
      else scan_slots sz ss (Suc i) (full, e0, e1))"

section \<open>New memory\<close>

definition MEMORY_CREATION_SIZE :: u64 where
  "MEMORY_CREATION_SIZE = 1024 * 1024"

definition chunk_size :: "platform \<Rightarrow> u64 \<Rightarrow> u64" where
  "chunk_size pf isz =
     (let c = (if MEMORY_CREATION_SIZE < isz then isz else MEMORY_CREATION_SIZE)
      in (c + DUMA_PAGE_SIZE pf - 1) AND NOT (DUMA_PAGE_SIZE pf - 1))"

lemma Page_Create_slots [frame_simps]: "Page_Create pf n ex pr w = Inr (a, w') \<Longrightarrow> slots w' = slots w"
  by (auto simp: Page_Create_def Let_def DUMA_Print_def split: option.splits if_splits)

lemma chunk_retry_step:
  assumes "reduceProtectedMemory pf red w = Inr (True, w1)" and "Page_Create pf len False False w1 = Inr (a, w2)"
  shows "protected_weight w2 < protected_weight w"
  using reduceProtectedMemory_weight [OF assms(1)] Page_Create_slots [OF assms(2)]
  by (simp add: protected_weight_def)

text \<open>\<open>do { reduce_more = reduceProtectedMemory(red); address = Page_Create(len, 0, 0); }
  while (reduce_more && 0 == address)\<close>: every round but the last releases a slot.\<close>

function chunk_retry :: "platform \<Rightarrow> u64 \<Rightarrow> u64 \<Rightarrow> world \<Rightarrow> stop + u64 \<times> world" where
  "chunk_retry pf red len w =
     and_then (reduceProtectedMemory pf red w) (\<lambda>(reduce_more, w).
     and_then (Page_Create pf len False False w) (\<lambda>(address, w).
       if reduce_more \<and> address = 0 then chunk_retry pf red len w else Inr (address, w)))"
  by pat_completeness auto
termination
  by (relation "measure (\<lambda>(pf, red, len, w). protected_weight w)") (auto intro: chunk_retry_step)

declare chunk_retry.simps [simp del]

text \<open>Reduce protected memory when the limit \<open>MAX_ALLOC\<close> would be exceeded.\<close>

definition chunk_reserve :: "platform \<Rightarrow> u64 \<Rightarrow> world \<Rightarrow> stop + world" where
  "chunk_reserve pf chunkSizekB w =
     (if MAX_ALLOC w > 0 \<and> sumAllocatedMem w + int (unat chunkSizekB) > MAX_ALLOC w
      then and_then (reduceProtectedMemory pf chunkSizekB w) (\<lambda>(_, w). Inr w) else Inr w)"

definition chunk_address :: "platform \<Rightarrow> DUMA_FailReturn \<Rightarrow> u64 \<Rightarrow> u64 \<Rightarrow> bool \<Rightarrow> world \<Rightarrow> stop + u64 \<times> world" where
  "chunk_address pf fail red len over w =
     and_then (if over then Inr (0, w) else Page_Create pf len False False w) (\<lambda>(address, w).
       if address = 0 \<and> PROTECT_FREE w \<noteq> 0 then
         and_then (chunk_retry pf red len w) (\<lambda>(address, w).
           if address = 0 \<and> fail = DUMA_FAIL_ENV
           then Page_Create pf len (MALLOC_FAILEXIT w) True w else Inr (address, w))
       else Inr (address, w))"

text \<open>Mark the chunk free in slot \<open>f\<close>; without memory the slot stays empty.\<close>

definition install_chunk :: "nat \<Rightarrow> u64 \<Rightarrow> u64 \<Rightarrow> int \<Rightarrow> world \<Rightarrow> world" where
  "install_chunk f address len addedkB w =
     (let s = slots w ! f in
      if address \<noteq> 0
      then set_slot f (s\<lparr>internalAddress := address, internalSize := len, state := DUMAST_FREE\<rparr>)
             (w\<lparr>sumAllocatedMem := sumAllocatedMem w + addedkB,
                sumTotalAllocatedMem := sumTotalAllocatedMem w + addedkB,
                unUsedSlots := unUsedSlots w - 1\<rparr>)
      else set_slot f (s\<lparr>internalAddress := 0\<rparr>) w)"

definition create_chunk :: "platform \<Rightarrow> u64 \<Rightarrow> u64 \<Rightarrow> DUMA_FailReturn \<Rightarrow> nat \<Rightarrow> world \<Rightarrow> stop + world" where
  "create_chunk pf usz isz fail f w =
     (let chunkSize = chunk_size pf isz; chunkSizekB = kB chunkSize;
          over = (usz > - 1 - (chunkSize - 1));
          numChunks = (if over then - 1 else if usz \<le> 0 then 1
                       else (usz + (chunkSize - 1)) div chunkSize) in
      and_then (chunk_reserve pf chunkSizekB w) (\<lambda>w.
      if \<not> over \<and> \<not> numChunks \<ge> 1 then Inl (Assert_failed ''numChunks >= 1'') else
      and_then (chunk_address pf fail chunkSizekB (chunkSize * numChunks) over w) (\<lambda>(address, w).
      Inr (install_chunk f address (chunkSize * numChunks) (sint (chunkSizekB * numChunks)) w))))"

section \<open>Carving out the block\<close>

definition split_slot :: "u64 \<Rightarrow> nat \<Rightarrow> nat option \<Rightarrow> world \<Rightarrow> stop + world" where
  "split_slot sz f e0 w =
     (let s = slots w ! f in
      if internalSize s > sz then
        case e0 of
          None \<Rightarrow> Inl (Segv 0)
        | Some e \<Rightarrow>
            let addr = internalAddress s + sz; n = internalSize s - sz in
            Inr (set_slot f (s\<lparr>internalSize := sz\<rparr>)
                  (set_slot e (s\<lparr>internalAddress := addr, internalSize := n, userAddress := addr, userSize := n\<rparr>)
                    (w\<lparr>unUsedSlots := unUsedSlots w - 1\<rparr>)))
      else Inr w)"

definition above_user :: "platform \<Rightarrow> u64 \<Rightarrow> u64 \<Rightarrow> u64 \<Rightarrow> u64 \<Rightarrow> u64" where
  "above_user pf alignment isz usz intAddr =
     (intAddr + isz - DUMA_PAGE_SIZE pf - usz) AND NOT (alignment - 1)"

definition above_prot :: "platform \<Rightarrow> u64 \<Rightarrow> u64 \<Rightarrow> u64" where
  "above_prot pf userAddr usz =
     (userAddr + usz + DUMA_PAGE_SIZE pf - 1) AND NOT (DUMA_PAGE_SIZE pf - 1)"

definition below_user :: "platform \<Rightarrow> u64 \<Rightarrow> u64 \<Rightarrow> u64" where
  "below_user pf alignment intAddr =
     (intAddr + DUMA_PAGE_SIZE pf + alignment - 1) AND NOT (alignment - 1)"

definition below_prot :: "platform \<Rightarrow> u64 \<Rightarrow> u64" where
  "below_prot pf userAddr = (userAddr AND NOT (DUMA_PAGE_SIZE pf - 1)) - DUMA_PAGE_SIZE pf"

text \<open>Choose the user address and the dead page, and set up the page protections.\<close>

definition place_block ::
  "platform \<Rightarrow> u64 \<Rightarrow> u64 \<Rightarrow> bool \<Rightarrow> u64 \<Rightarrow> u64 \<Rightarrow> world \<Rightarrow> stop + u64 \<times> u64 \<times> world" where
  "place_block pf alignment usz protectBelow isz intAddr w =
     (let endAddr = intAddr + isz in
      if usz = 0 then
        let userAddr = intAddr + drop_bit 1 (DUMA_PAGE_SIZE pf); protAddr = intAddr in
        and_then (Page_DenyAccess pf protAddr (endAddr - protAddr) w) (\<lambda>w. Inr (userAddr, protAddr, w))
      else if \<not> protectBelow then
        let userAddr = above_user pf alignment isz usz intAddr;
            protAddr = above_prot pf userAddr usz in
        and_then (Page_AllowAccess pf intAddr (protAddr - intAddr) w) (\<lambda>w.
        and_then (Page_DenyAccess pf protAddr (endAddr - protAddr) w) (\<lambda>w. Inr (userAddr, protAddr, w)))
      else
        let userAddr = below_user pf alignment intAddr; protAddr = below_prot pf userAddr in
        and_then (Page_AllowAccess pf userAddr (isz - (userAddr - protAddr)) w) (\<lambda>w.
        and_then (Page_DenyAccess pf intAddr (userAddr - intAddr) w) (\<lambda>w. Inr (userAddr, protAddr, w))))"

definition record_block ::
  "nat \<Rightarrow> u64 \<Rightarrow> u64 \<Rightarrow> u64 \<Rightarrow> DUMA_Allocator \<Rightarrow> src_pos \<Rightarrow> world \<Rightarrow> world" where
  "record_block f userAddr protAddr usz alloc pos w =
     set_slot f ((slots w ! f)\<lparr>userAddress := userAddr, protAddress := protAddr, userSize := usz,
       state := DUMAST_IN_USE, allocator := alloc, fileSource := DUMAFS_ALLOCATION,
       filename := fst pos, lineno := snd pos\<rparr>) w"

text \<open>The part between the scan and the closing of the slot array; the result is the user address,
  \<open>0\<close> when there is no memory.\<close>

definition use_slot ::
  "platform \<Rightarrow> u64 \<Rightarrow> u64 \<Rightarrow> bool \<Rightarrow> u64 \<Rightarrow> DUMA_Allocator \<Rightarrow> src_pos \<Rightarrow> nat \<Rightarrow> nat option \<Rightarrow> world \<Rightarrow> stop + u64 \<times> world" where
  "use_slot pf alignment usz protectBelow isz alloc pos f e0 w =
     (if internalSize (slots w ! f) \<noteq> 0 then
        and_then (split_slot isz f e0 w) (\<lambda>w.
        and_then (place_block pf alignment usz protectBelow isz (internalAddress (slots w ! f)) w)
          (\<lambda>(userAddr, protAddr, w).
        let w = record_block f userAddr protAddr usz alloc pos w in
        and_then (duma_init_slack pf (slots w ! f) w) (\<lambda>w. Inr (userAddr, w))))
      else Inr (0, w))"

definition find_or_create ::
  "platform \<Rightarrow> u64 \<Rightarrow> u64 \<Rightarrow> DUMA_FailReturn \<Rightarrow> world \<Rightarrow> stop + nat \<times> nat option \<times> world" where
  "find_or_create pf usz isz fail w =
     and_then (touch_list pf w) (\<lambda>w.
     case scan_slots isz (slots w) 0 (None, None, None) of
       (Some (f, _), e0, e1) \<Rightarrow> Inr (f, e0, w)
     | (None, None, e1) \<Rightarrow> Inl (Aborted No_empty_slot_0)
     | (None, Some f, None) \<Rightarrow> Inl (Aborted No_empty_slot_1)
     | (None, Some f, Some e) \<Rightarrow>
         and_then (create_chunk pf usz isz fail f w) (\<lambda>w. Inr (f, Some e, w)))"

section \<open>\<open>_duma_allocate\<close>\<close>

definition count_alloc :: "u64 \<Rightarrow> src_pos \<Rightarrow> world \<Rightarrow> world" where
  "count_alloc usz pos w =
     (let w = w\<lparr>numAllocs := numAllocs w + 1\<rparr> in
      if SHOW_ALLOC w then
        let w = DUMA_Print (Show_allocating usz pos) w in
        if usz = 0 then DUMA_Print Show_zero_size w else w
      else w)"

text \<open>From the check of the alignment on.  \<open>grow\<close> stands for \<open>allocateMoreSlots\<close>, which calls
  this function for internal memory, where it is not called again.\<close>

definition allocate_block ::
  "(world \<Rightarrow> stop + world) \<Rightarrow> platform \<Rightarrow> u64 \<Rightarrow> u64 \<Rightarrow> bool \<Rightarrow> u32 \<Rightarrow> bool \<Rightarrow> DUMA_Allocator \<Rightarrow> DUMA_FailReturn \<Rightarrow>
   src_pos \<Rightarrow> world \<Rightarrow> stop + u64 \<times> world" where
  "allocate_block grow pf alignment usz protectBelow fillByte protectAllocList alloc fail pos w =
     (let alignment = (if usz = 0 then alignment else alloc_alignment alignment usz w);
          isz = internal_size pf alignment usz in
      if usz \<noteq> 0 \<and> \<not> alignment_accepted alignment
      then Inl (Aborted (Alignment_not_pow2 alignment pos)) else
      and_then (open_list pf protectAllocList w) (\<lambda>w.
      and_then (check_freq pf w) (\<lambda>w.
      and_then (if alloc_type alloc \<noteq> DUMAAT_INTERNAL \<and> unUsedSlots w < 7 then grow w else Inr w) (\<lambda>w.
      and_then (find_or_create pf usz isz fail w) (\<lambda>(f, e0, w).
      and_then (use_slot pf alignment usz protectBelow isz alloc pos f e0 w) (\<lambda>(userAddr, w).
      and_then (close_list pf protectAllocList w) (\<lambda>w.
      and_then (if userAddr \<noteq> 0 \<and> fillByte \<noteq> - 1 \<and> usz \<noteq> 0
                then memset pf (unat usz) userAddr (ucast fillByte) w else Inr w) (\<lambda>w.
      Inr (userAddr, w)))))))))"

definition allocate_with ::
  "(world \<Rightarrow> stop + world) \<Rightarrow> platform \<Rightarrow> u64 \<Rightarrow> u64 \<Rightarrow> bool \<Rightarrow> u32 \<Rightarrow> bool \<Rightarrow> DUMA_Allocator \<Rightarrow> DUMA_FailReturn \<Rightarrow>
   src_pos \<Rightarrow> world \<Rightarrow> stop + u64 \<times> world" where
  "allocate_with grow pf alignment usz protectBelow fillByte protectAllocList alloc fail pos w =
     (let allocationStrategy = (case alloc_std alloc of DUMAAS_C \<Rightarrow> MALLOC_0_STRATEGY w
                                                     | DUMAAS_CPP \<Rightarrow> NEW_0_STRATEGY w) in
      if allocList w = 0 then Inl (Assert_failed ''0 != _duma_g.allocList'') else
      let w = count_alloc usz pos w in
      if usz = 0 \<and> allocationStrategy = 0 then Inl (Aborted (Alloc_0_bytes pos))
      else if usz = 0 \<and> allocationStrategy = 1 then Inr (0, w)
      else if usz = 0 \<and> allocationStrategy \<noteq> 3 then Inr (null_addr w, w)
      else allocate_block grow pf alignment usz protectBelow fillByte protectAllocList alloc fail pos w)"

section \<open>\<open>allocateMoreSlots\<close>\<close>

text \<open>The copy into the new array and the clearing of its last page fault where the memory is
  not accessible; the typed array grows by a page of empty slots.\<close>

definition allocateMoreSlots :: "platform \<Rightarrow> world \<Rightarrow> stop + world" where
  "allocateMoreSlots pf w =
     (let newSize = allocListSize w + DUMA_PAGE_SIZE pf; oldAllocation = allocList w in
      and_then (allocate_with Inr pf 1 newSize False (- 1) False EFA_INT_ALLOC DUMA_FAIL_NULL
                 (Some ''src/duma.c'', 1233) w) (\<lambda>(newAllocation, w).
      if newAllocation = 0 then Inr w else
      and_then (touch_list pf w) (\<lambda>w.
      and_then (touch_list pf (w\<lparr>allocList := newAllocation, allocListSize := newSize,
                   slots := slots w @ replicate (unat (slotsPerPage w)) zero_slot,
                   unUsedSlots := unUsedSlots w + slotsPerPage w\<rparr>)) (\<lambda>w.
      duma_deallocate pf oldAllocation False EFA_INT_DEALLOC (Some ''src/duma.c'', 1259) w))))"

definition duma_allocate ::
  "platform \<Rightarrow> u64 \<Rightarrow> u64 \<Rightarrow> bool \<Rightarrow> u32 \<Rightarrow> bool \<Rightarrow> DUMA_Allocator \<Rightarrow> DUMA_FailReturn \<Rightarrow> src_pos \<Rightarrow> world \<Rightarrow>
   stop + u64 \<times> world" where
  "duma_allocate pf = allocate_with (allocateMoreSlots pf) pf"

declare
  alloc_alignment_def [duma_defs]
  alignment_accepted_def [duma_defs]
  internal_size_def [duma_defs]
  MEMORY_CREATION_SIZE_def [duma_defs]
  chunk_size_def [duma_defs]
  chunk_reserve_def [duma_defs]
  chunk_address_def [duma_defs]
  install_chunk_def [duma_defs]
  create_chunk_def [duma_defs]
  split_slot_def [duma_defs]
  above_user_def [duma_defs]
  above_prot_def [duma_defs]
  below_user_def [duma_defs]
  below_prot_def [duma_defs]
  place_block_def [duma_defs]
  record_block_def [duma_defs]
  use_slot_def [duma_defs]
  find_or_create_def [duma_defs]
  count_alloc_def [duma_defs]
  allocate_block_def [duma_defs]
  allocate_with_def [duma_defs]
  duma_allocate_def [duma_defs]

end
