(* ===== verification/Duma_Place.thy ===== *)
theory Duma_Place
  imports Duma_Alloc
begin

text \<open>
  Where \<open>_duma_allocate\<close> puts a block: the alignment loop, the size computation, the search
  for a slot and the address arithmetic, related to rounding on natural numbers.
\<close>

section \<open>The default alignment\<close>

lemma lower_pow2_correct:
  "a \<noteq> 0 \<Longrightarrow> is_pow2 (lower_pow2 a) \<and> lower_pow2 a \<le> a \<and> unat a < 2 * unat (lower_pow2 a)"
proof (induction a rule: lower_pow2.induct)
  case (1 a)
  show ?case
  proof (cases "a AND (a - 1) = 0")
    case True
    then have "lower_pow2 a = a" by (simp add: lower_pow2.simps)
    with True 1 show ?thesis by (simp add: is_pow2_def unat_gt_0)
  next
    case False
    let ?b = "a AND (a - 1)"
    from 1 have "0 < unat a" by (simp add: unat_gt_0)
    then obtain k q where d: "unat a = 2 ^ k * (2 * q + 1)" using odd_decomp by blast
    have b: "unat ?b = 2 ^ k * (2 * q)" using d by (rule word_and_pred)
    from False b have "0 < q" by (metis unat_eq_0 mult_0_right neq0_conv)
    from 1 False have ih: "is_pow2 (lower_pow2 ?b)" "lower_pow2 ?b \<le> ?b" "unat ?b < 2 * unat (lower_pow2 ?b)"
      by simp_all
    have eq: "lower_pow2 a = lower_pow2 ?b" using False by (subst lower_pow2.simps) simp
    from ih(1) obtain m where m: "unat (lower_pow2 ?b) = 2 ^ m" by (rule is_pow2E)
    have "unat a < 2 * 2 ^ m"
    proof -
      have "k \<le> m"
      proof (rule ccontr)
        assume "\<not> k \<le> m"
        then have "(2::nat) * 2 ^ m \<le> 2 ^ k" by (metis Suc_leI not_le one_le_numeral power_Suc power_increasing)
        also have "\<dots> \<le> 2 ^ k * (2 * q)" using \<open>0 < q\<close> by simp
        finally show False using ih(3) b m by simp
      qed
      then obtain r where r: "m = k + r" by (auto simp: le_iff_add)
      have "2 ^ k * (2 * q) < 2 ^ k * (2 * 2 ^ r)" using ih(3) by (simp add: b m r power_add)
      then have "q < 2 ^ r" by simp
      then have "2 * q + 1 < 2 * 2 ^ r" by simp
      then have "2 ^ k * (2 * q + 1) < 2 ^ k * (2 * 2 ^ r)" by (rule mult_strict_left_mono) simp
      then show ?thesis using d r by (simp add: power_add)
    qed
    moreover have "lower_pow2 a \<le> a"
      using ih(2) and_pred_less [OF "1.prems"] eq by simp
    ultimately show ?thesis using ih(1) eq m by simp
  qed
qed

section \<open>Masks of powers of two\<close>

lemma pow2_mask:
  assumes "is_pow2 (al :: u64)"
  shows "unat (x AND NOT (al - 1)) = round_down (unat al) (unat x)"
proof -
  from assms obtain k where "k < LENGTH(64)" "al = 2 ^ k" "unat al = 2 ^ k" by (rule is_pow2E)
  then show ?thesis by (simp only: unat_and_not_mask round_down_def)
qed

lemma page_mask:
  "page_ok pf \<Longrightarrow> unat (x AND NOT (DUMA_PAGE_SIZE pf - 1)) = round_down (psz pf) (unat x)"
  by (simp add: pow2_mask page_okD)

lemma pow2_dvd:
  assumes "is_pow2 (a :: u64)" "is_pow2 (b :: u64)" "a \<le> b"
  shows "unat a dvd unat b"
proof -
  from assms(1) obtain i where i: "unat a = 2 ^ i" by (rule is_pow2E)
  from assms(2) obtain j where j: "unat b = 2 ^ j" by (rule is_pow2E)
  have "(2::nat) ^ i \<le> 2 ^ j" using assms(3) i j by (simp add: word_le_nat_alt)
  then have "i \<le> j" by (rule power_le_imp_le_exp [rotated]) simp
  with i j show ?thesis by (simp add: le_imp_power_dvd)
qed

section \<open>Sizes\<close>

text \<open>The requests the theorems are about: an alignment that is a power of two and, like the
  size, at most half a gigabyte, so that no computation wraps and the length passed to
  \<open>mmap\<close> fits an \<open>int\<close>.\<close>

definition small_request :: "u64 \<Rightarrow> u64 \<Rightarrow> bool" where
  "small_request al usz \<longleftrightarrow> (usz \<noteq> 0 \<longrightarrow> is_pow2 al) \<and> (usz \<noteq> 0 \<longrightarrow> unat al \<le> 2 ^ 29) \<and> unat usz \<le> 2 ^ 29"

lemma round_up_dvd_eq: "0 < P \<Longrightarrow> P dvd n \<Longrightarrow> round_up P n = n"
  using round_up_ge [of P n] round_up_least [of P n n] by simp

lemma round_down_dvd_eq: "P dvd n \<Longrightarrow> round_down P n = n"
  by (simp add: round_down_def)

lemma round_up_mono: "0 < P \<Longrightarrow> m \<le> n \<Longrightarrow> round_up P m \<le> round_up P n"
  using round_up_ge [of P n] by (intro round_up_least) simp_all

lemma internal_size_unat:
  assumes "page_ok pf" and "small_request al usz" and "usz \<noteq> 0"
  shows "unat (internal_size pf al usz) =
    round_up (psz pf) (unat usz) + psz pf + (if psz pf < unat al then unat al - psz pf else 0)"
proof -
  let ?P = "psz pf"
  note P = page_okD [OF assms(1)]
  have P0: "1 \<le> os_pagesize pf" using P(3) by (simp add: word_le_nat_alt)
  from assms have u: "unat usz \<le> 2 ^ 29" "unat al \<le> 2 ^ 29" by (simp_all add: small_request_def)
  have "unat (usz + os_pagesize pf) = unat usz + ?P"
    using u P by (intro unat_add_no_wrap) simp
  then have "unat (usz + os_pagesize pf - 1) = unat usz + ?P - 1"
    using P0 by (subst unat_sub) (auto simp: word_le_nat_alt)
  then have a: "unat ((usz + os_pagesize pf - 1) AND NOT (os_pagesize pf - 1)) = round_up ?P (unat usz)"
    using page_mask [OF assms(1)] by (simp add: P(1) round_up_def)
  have "round_up ?P (unat usz) < unat usz + ?P" using P(3) by (rule round_up_less)
  with u P have lim: "round_up ?P (unat usz) + ?P \<le> 2 ^ 30" by simp
  let ?n = "((usz + os_pagesize pf - 1) AND NOT (os_pagesize pf - 1)) + os_pagesize pf"
  have n: "unat ?n = round_up ?P (unat usz) + ?P"
    using lim by (subst unat_add_no_wrap) (simp_all add: a)
  show ?thesis
  proof (cases "?P < unat al")
    case True
    then have s: "unat (al - os_pagesize pf) = unat al - ?P"
      by (intro unat_sub) (simp add: word_le_nat_alt)
    have "unat (?n + (al - os_pagesize pf)) = unat ?n + unat (al - os_pagesize pf)"
      using lim n s u by (intro unat_add_no_wrap) simp
    with True n s assms(3) show ?thesis
      by (simp add: internal_size_def P(1) Let_def word_less_nat_alt)
  next
    case False
    with n assms(3) show ?thesis
      by (simp add: internal_size_def P(1) Let_def word_less_nat_alt)
  qed
qed

lemma internal_size_bounds:
  assumes "page_ok pf" and "small_request al usz"
  shows "psz pf dvd unat (internal_size pf al usz)" "psz pf \<le> unat (internal_size pf al usz)"
    "unat (internal_size pf al usz) \<le> 2 ^ 30 + 2 ^ 20" "internal_size pf al usz \<noteq> 0"
    "usz \<noteq> 0 \<Longrightarrow> unat usz + psz pf \<le> unat (internal_size pf al usz)"
proof -
  let ?P = "psz pf" and ?n = "unat (internal_size pf al usz)"
  note P = page_okD [OF assms(1)]
  have "?P dvd ?n \<and> ?P \<le> ?n \<and> ?n \<le> 2 ^ 30 + 2 ^ 20 \<and> (usz \<noteq> 0 \<longrightarrow> unat usz + ?P \<le> ?n)"
  proof (cases "usz = 0")
    case True
    with P show ?thesis by (simp add: internal_size_def)
  next
    case False
    from assms(2) False have u: "unat usz \<le> 2 ^ 29" "unat al \<le> 2 ^ 29" "is_pow2 al"
      by (simp_all add: small_request_def)
    have r: "round_up ?P (unat usz) < unat usz + ?P" "unat usz \<le> round_up ?P (unat usz)"
      using P(3) by (simp_all add: round_up_less round_up_ge)
    have d: "?P dvd unat al - ?P" if "?P < unat al"
      using pow2_dvd [OF P(2) u(3)] that by (simp add: word_le_nat_alt)
    show ?thesis
      using d r u P by (auto simp: internal_size_unat [OF assms False])
  qed
  then show "?P dvd ?n" "?P \<le> ?n" "?n \<le> 2 ^ 30 + 2 ^ 20" "usz \<noteq> 0 \<Longrightarrow> unat usz + ?P \<le> ?n" by auto
  with P(3) show "internal_size pf al usz \<noteq> 0" by (metis le_zero_eq not_less unsigned_0)
qed

lemma chunk_size_bounds:
  assumes "page_ok pf" and "psz pf dvd unat isz" and "unat isz \<le> 2 ^ 30 + 2 ^ 20"
  shows "isz \<le> chunk_size pf isz" "psz pf dvd unat (chunk_size pf isz)" "unat (chunk_size pf isz) < 2 ^ 31"
    "2 ^ 20 \<le> unat (chunk_size pf isz)"
proof -
  let ?P = "psz pf" and ?c = "if MEMORY_CREATION_SIZE < isz then isz else MEMORY_CREATION_SIZE"
  note P = page_okD [OF assms(1)]
  have P0: "1 \<le> os_pagesize pf" using P(3) by (simp add: word_le_nat_alt)
  have c: "unat ?c \<le> 2 ^ 30 + 2 ^ 20" "unat isz \<le> unat ?c" "2 ^ 20 \<le> unat ?c"
    using assms(3) by (auto simp: MEMORY_CREATION_SIZE_def word_less_nat_alt)
  have "unat (?c + os_pagesize pf) = unat ?c + ?P" using c P by (intro unat_add_no_wrap) simp
  then have "unat (?c + os_pagesize pf - 1) = unat ?c + ?P - 1"
    using P0 by (subst unat_sub) (auto simp: word_le_nat_alt)
  then have u: "unat (chunk_size pf isz) = round_up ?P (unat ?c)"
    using page_mask [OF assms(1)] by (simp add: chunk_size_def Let_def P(1) round_up_def)
  show "?P dvd unat (chunk_size pf isz)" by (simp add: u)
  have "unat ?c \<le> unat (chunk_size pf isz)" using P(3) by (simp only: u round_up_ge)
  with c show "isz \<le> chunk_size pf isz" "2 ^ 20 \<le> unat (chunk_size pf isz)" by (simp_all add: word_le_nat_alt)
  have "unat (chunk_size pf isz) < unat ?c + ?P" using P(3) by (simp only: u round_up_less)
  with c P show "unat (chunk_size pf isz) < 2 ^ 31" by simp
qed

section \<open>The search for a slot\<close>

definition fits :: "u64 \<Rightarrow> DUMA_Slot \<Rightarrow> bool" where
  "fits sz s \<longleftrightarrow> state s = DUMAST_FREE \<and> sz \<le> internalSize s"

definition best_fit :: "u64 \<Rightarrow> DUMA_Slot list \<Rightarrow> (nat \<times> u64) option \<Rightarrow> bool" where
  "best_fit sz ss r = (case r of
      None \<Rightarrow> (\<forall>s \<in> set ss. \<not> fits sz s)
    | Some (k, n) \<Rightarrow> k < length ss \<and> fits sz (ss ! k) \<and> internalSize (ss ! k) = n \<and>
        (\<forall>s \<in> set ss. fits sz s \<longrightarrow> n \<le> internalSize s))"

definition empties :: "DUMA_Slot list \<Rightarrow> nat option \<Rightarrow> nat option \<Rightarrow> bool" where
  "empties ss e0 e1 \<longleftrightarrow>
     (\<forall>e. e0 = Some e \<or> e1 = Some e \<longrightarrow> e < length ss \<and> state (ss ! e) = DUMAST_EMPTY) \<and>
     (e0 = None \<longrightarrow> e1 = None) \<and> (e0 \<noteq> None \<longrightarrow> e0 \<noteq> e1)"

text \<open>The scan of a suffix, when the accumulator describes the prefix.\<close>

lemma scan_slots_step:
  "scan_slots sz ss (length pre) (full, e0, e1) = (full', e0', e1') \<Longrightarrow>
   best_fit sz pre full \<Longrightarrow> empties pre e0 e1 \<Longrightarrow>
   best_fit sz (pre @ ss) full' \<and> empties (pre @ ss) e0' e1'"
proof (induction ss arbitrary: pre full e0 e1)
  case Nil
  then show ?case by simp
next
  case (Cons s ss)
  have em: "empties (pre @ s # ss) e0 e1" "empties (pre @ [s]) e0 e1"
    using Cons.prems(3) by (auto simp: empties_def nth_append)
  have len: "Suc (length pre) = length (pre @ [s])" by simp
  consider (better) "fits sz s" "case full of None \<Rightarrow> True | Some (_, n) \<Rightarrow> internalSize s < n"
    | (worse) "fits sz s" "\<not> (case full of None \<Rightarrow> True | Some (_, n) \<Rightarrow> internalSize s < n)"
    | (empty) "\<not> fits sz s" "state s = DUMAST_EMPTY"
    | (other) "\<not> fits sz s" "state s \<noteq> DUMAST_EMPTY" by blast
  then show ?case
  proof cases
    case better
    have b: "best_fit sz (pre @ [s]) (Some (length pre, internalSize s))"
      using better Cons.prems(2) by (force simp: best_fit_def split: option.splits)
    show ?thesis
    proof (cases "internalSize s = sz")
      case True
      then have "(full', e0', e1') = (Some (length pre, sz), e0, e1)"
        using Cons.prems(1) better by (auto simp: fits_def)
      moreover have "best_fit sz (pre @ s # ss) (Some (length pre, sz))"
        using better True by (simp add: best_fit_def) (simp add: fits_def)
      ultimately show ?thesis using em by simp
    next
      case False
      with Cons.prems(1) better
      have "scan_slots sz ss (length (pre @ [s])) (Some (length pre, internalSize s), e0, e1) = (full', e0', e1')"
        by (simp add: fits_def)
      from Cons.IH [OF this b em(2)] show ?thesis by simp
    qed
  next
    case worse
    have b: "best_fit sz (pre @ [s]) full"
      using worse Cons.prems(2) by (auto simp: best_fit_def nth_append split: option.splits)
    from worse Cons.prems(1) have "scan_slots sz ss (length (pre @ [s])) (full, e0, e1) = (full', e0', e1')"
      by (simp add: fits_def)
    from Cons.IH [OF this b em(2)] show ?thesis by simp
  next
    case empty
    have b: "best_fit sz (pre @ [s]) full"
      using empty Cons.prems(2) by (auto simp: best_fit_def nth_append split: option.splits)
    let ?acc = "if e0 = None then (full, Some (length pre), e1)
      else if e1 = None then (full, e0, Some (length pre)) else (full, e0, e1)"
    obtain f0 e00 e01 where acc: "?acc = (f0, e00, e01)" by (cases ?acc)
    have e: "f0 = full" "empties (pre @ [s]) e00 e01"
      using acc empty Cons.prems(3) by (auto simp: empties_def nth_append split: if_splits)
    from empty Cons.prems(1) acc have "scan_slots sz ss (length (pre @ [s])) (full, e00, e01) = (full', e0', e1')"
      by (auto simp: fits_def e(1) split: if_splits)
    from Cons.IH [OF this b e(2)] show ?thesis by simp
  next
    case other
    have b: "best_fit sz (pre @ [s]) full"
      using other Cons.prems(2) by (auto simp: best_fit_def nth_append split: option.splits)
    from other Cons.prems(1) have "scan_slots sz ss (length (pre @ [s])) (full, e0, e1) = (full', e0', e1')"
      by (auto simp: fits_def)
    from Cons.IH [OF this b em(2)] show ?thesis by simp
  qed
qed

lemma scan_slots_correct:
  assumes "scan_slots sz ss 0 (None, None, None) = (full, e0, e1)"
  shows "best_fit sz ss full" "empties ss e0 e1"
  using scan_slots_step [of sz ss "[]" None None None full e0 e1] assms
  by (simp_all add: best_fit_def empties_def)

section \<open>Placing the block at the end\<close>

text \<open>The block ends as close to the dead page as its alignment allows.\<close>

lemma above_layout:
  assumes pok: "page_ok pf" and sm: "small_request al usz" and nz: "usz \<noteq> 0"
    and ia: "psz pf dvd unat ia" and lim: "unat ia + unat (internal_size pf al usz) < 2 ^ 64"
  defines "isz \<equiv> internal_size pf al usz"
  defines "u \<equiv> above_user pf al isz usz ia"
  defines "p \<equiv> above_prot pf u usz"
  shows "unat al dvd unat u" "unat ia \<le> unat u" "unat u + unat usz \<le> unat p"
    "psz pf dvd unat p" "unat p + psz pf \<le> unat ia + unat isz"
    "unat p - (unat u + unat usz) < unat al" "unat p - (unat u + unat usz) < psz pf"
proof -
  let ?P = "psz pf" and ?a = "unat al" and ?n = "unat usz" and ?i = "unat ia"
  note P = page_okD [OF pok]
  from sm nz have s: "?n \<le> 2 ^ 29" "?a \<le> 2 ^ 29" "is_pow2 al" by (simp_all add: small_request_def)
  have a0: "0 < ?a" using s(3) by (rule is_pow2_pos)
  let ?R = "round_up ?P ?n" and ?D = "if ?P < ?a then ?a - ?P else 0"
  have isz: "unat isz = ?R + ?P + ?D" unfolding isz_def by (rule internal_size_unat [OF pok sm nz])
  have R: "?n \<le> ?R" "?R < ?n + ?P" "?P dvd ?R" using P(3) by (simp_all add: round_up_ge round_up_less)
  have lim': "?i + ?R + ?P + ?D < 2 ^ 64" using lim isz by (simp add: isz_def)
  let ?y = "?i + ?D + (?R - ?n)"
  have y: "unat (ia + isz - os_pagesize pf - usz) = ?y"
  proof -
    have "unat (ia + isz) = ?i + (?R + ?P + ?D)" using lim' isz by (subst unat_add_no_wrap) simp_all
    then have "unat (ia + isz - os_pagesize pf) = ?i + ?R + ?D"
      by (subst unat_sub) (simp_all add: word_le_nat_alt)
    then show ?thesis using R(1) by (subst unat_sub) (simp_all add: word_le_nat_alt)
  qed
  have u: "unat u = round_down ?a ?y" by (simp add: u_def above_user_def P(1) pow2_mask [OF s(3)] y)
  show "?a dvd unat u" by (simp add: u)
  have dv: "?P dvd ?a" if "?P < ?a" using pow2_dvd [OF P(2) s(3)] that by (simp add: word_le_nat_alt)
  have dv': "?a dvd ?P" if "\<not> ?P < ?a" using pow2_dvd [OF s(3) P(2)] that by (simp add: word_le_nat_alt)
  have base: "round_up ?a ?i \<le> ?y"
  proof (cases "?P < ?a")
    case True
    from dv [OF True] ia have "?P dvd round_up ?a ?i - ?i"
      by (intro dvd_diff_nat) (auto intro: dvd_trans [OF _ dvd_round_up])
    moreover have "round_up ?a ?i - ?i < ?a" using round_up_less [OF a0, of ?i] round_up_ge [OF a0, of ?i] by simp
    ultimately have "round_up ?a ?i - ?i + ?P \<le> ?a"
      using dv [OF True] by (rule dvd_less_le)
    then show ?thesis using True by simp
  next
    case False
    then have "?a dvd ?i" using dv' ia by (blast intro: dvd_trans)
    then show ?thesis using a0 by (simp add: round_up_dvd_eq)
  qed
  have iu: "?i \<le> unat u"
  proof -
    have "round_up ?a ?i \<le> unat u" unfolding u by (rule round_down_greatest [OF dvd_round_up base])
    with round_up_ge [OF a0, of ?i] show ?thesis by simp
  qed
  then show "?i \<le> unat u" .
  have uy: "unat u \<le> ?y" by (simp add: u)
  let ?E = "?i + ?D + ?R"
  have PE: "?P dvd ?E" using ia R(3) dv by simp
  have un: "unat u + ?n \<le> ?E" using uy R(1) by simp
  have p: "unat p = round_up ?P (unat u + ?n)"
  proof -
    have "unat (u + usz) = unat u + ?n" using un lim' by (intro unat_add_no_wrap) simp
    moreover from this have "unat (u + usz + os_pagesize pf) = unat u + ?n + ?P"
      using un lim' by (subst unat_add_no_wrap) simp_all
    ultimately have "unat (u + usz + os_pagesize pf - 1) = unat u + ?n + ?P - 1"
      using P(3) by (subst unat_sub) (auto simp: word_le_nat_alt)
    then show ?thesis by (simp add: p_def above_prot_def P(1) page_mask [OF pok, unfolded P(1)] round_up_def)
  qed
  show "?P dvd unat p" by (simp add: p)
  show "unat u + ?n \<le> unat p" unfolding p using P(3) by (rule round_up_ge)
  have pE: "unat p \<le> ?E" unfolding p using P(3) PE un by (rule round_up_least)
  then show "unat p + ?P \<le> ?i + unat isz" by (simp add: isz)
  show "unat p - (unat u + ?n) < ?P" using round_up_less [OF P(3), of "unat u + ?n"] P(3) by (subst p) arith
  show "unat p - (unat u + ?n) < ?a"
  proof (cases "?P < ?a")
    case True
    with \<open>unat p - (unat u + ?n) < ?P\<close> show ?thesis by simp
  next
    case False
    have "?y < unat u + ?a" unfolding u using a0 by (rule round_down_gt)
    with pE R(1) a0 show ?thesis by linarith
  qed
qed

section \<open>Placing the block at the beginning\<close>

lemma below_layout:
  assumes pok: "page_ok pf" and al: "is_pow2 al" "unat al \<le> psz pf"
    and ia: "psz pf dvd unat ia" and lim: "unat ia + 2 * psz pf \<le> 2 ^ 64"
  shows "unat (below_user pf al ia) = unat ia + psz pf" "below_prot pf (below_user pf al ia) = ia"
proof -
  let ?P = "psz pf" and ?a = "unat al" and ?i = "unat ia"
  note P = page_okD [OF pok]
  have a0: "0 < ?a" using al(1) by (rule is_pow2_pos)
  have "?a dvd ?P" using pow2_dvd [OF al(1) P(2)] al(2) by (simp add: word_le_nat_alt)
  then have d: "?a dvd ?i + ?P" using ia by (auto intro: dvd_trans)
  have iP: "unat (ia + os_pagesize pf) = ?i + ?P" using lim P(3) by (intro unat_add_no_wrap) simp
  have "unat (ia + os_pagesize pf + al - 1) = ?i + ?P + ?a - 1"
  proof (cases "?i + ?P + ?a < 2 ^ 64")
    case True
    then have "unat (ia + os_pagesize pf + al) = ?i + ?P + ?a" using iP by (subst unat_add_no_wrap) simp_all
    then show ?thesis using a0 by (subst unat_sub) (auto simp: word_le_nat_alt)
  next
    case False
    have "unat (al - 1) = ?a - 1" using a0 by (subst unat_sub) (auto simp: word_le_nat_alt)
    then have "unat (ia + os_pagesize pf + (al - 1)) = ?i + ?P + (?a - 1)"
      using iP lim al(2) a0 by (subst unat_add_no_wrap) simp_all
    with a0 show ?thesis by (simp add: add_diff_eq)
  qed
  then have "unat (below_user pf al ia) = round_up ?a (?i + ?P)"
    by (simp add: below_user_def P(1) pow2_mask [OF al(1)] round_up_def)
  with d a0 show u: "unat (below_user pf al ia) = ?i + ?P" by (simp add: round_up_dvd_eq)
  have "unat (below_user pf al ia AND NOT (os_pagesize pf - 1)) = ?i + ?P"
    using ia by (simp add: page_mask [OF pok, unfolded P(1)] u round_down_dvd_eq)
  then have "unat (below_prot pf (below_user pf al ia)) = ?i"
    by (simp add: below_prot_def P(1)) (subst unat_sub; simp add: word_le_nat_alt)
  then show "below_prot pf (below_user pf al ia) = ia" by (simp add: word_unat_eq_iff)
qed

end
