(* ===== verification/Duma_Alloc_Correct.thy ===== *)
theory Duma_Alloc_Correct
  imports Duma_Place
begin

text \<open>
  Every step of \<open>_duma_allocate\<close> keeps the slot table valid and leaves the live blocks
  alone; the block it returns is laid out and protected as promised.
\<close>

section \<open>Steps that only release or fail\<close>

definition quiet :: "platform \<Rightarrow> world \<Rightarrow> world \<Rightarrow> bool" where
  "quiet pf w w' \<longleftrightarrow> heap_ok pf w' \<and> keeps pf {} w w' \<and> length (slots w') = length (slots w) \<and>
     (\<forall>j < length (slots w). \<not> is_protected (slots w ! j) \<longrightarrow> slots w' ! j = slots w ! j) \<and>
     allocList w' = allocList w \<and> allocListSize w' = allocListSize w \<and> sem_view w' = sem_view w \<and>
     (list_open pf w \<longrightarrow> list_open pf w')"

lemma quiet_refl: "heap_ok pf w \<Longrightarrow> quiet pf w w"
  by (simp add: quiet_def)

lemma quiet_trans: "quiet pf w1 w2 \<Longrightarrow> quiet pf w2 w3 \<Longrightarrow> quiet pf w1 w3"
proof -
  assume a: "quiet pf w1 w2" and b: "quiet pf w2 w3"
  have "slots w3 ! j = slots w1 ! j" if "j < length (slots w1)" "\<not> is_protected (slots w1 ! j)" for j
  proof -
    from a that have "slots w2 ! j = slots w1 ! j" by (simp add: quiet_def)
    with a b that show ?thesis by (simp add: quiet_def)
  qed
  moreover have "keeps pf {} w1 w3" using a b by (auto simp: quiet_def intro: keeps_trans)
  ultimately show ?thesis using a b by (simp add: quiet_def)
qed

lemma reduce_quiet:
  assumes "reduceProtectedMemory pf red w = Inr (ok, w')" and "heap_ok pf w"
  shows "quiet pf w w'"
proof -
  from reduceProtectedMemory_ok [OF assms] have h: "heap_ok pf w'" and r: "released pf w w'" by simp_all
  have "slots w' ! j = slots w ! j" if "j < length (slots w)" "\<not> is_protected (slots w ! j)" for j
    using r that by (auto simp: released_def)
  with h r released_list_open [OF r assms(2) h] released_keeps [OF r assms(2), of "{}"] reduce_mask_fields [OF released_mask [OF r]]
  show ?thesis by (simp add: quiet_def released_def)
qed

lemma create_fail_quiet:
  assumes "Page_Create pf n ex pr w = Inr (0, w')" and "os_ok pf" and "heap_ok pf w"
  shows "quiet pf w w'"
proof -
  from Page_Create_fail [OF assms(1,2)] obtain c s o' where "w' = w\<lparr>clock := c, startAddr := s, out := o'\<rparr>"
    by blast
  then have eq: "pages w' = pages w" "slots w' = slots w" "allocList w' = allocList w"
    "allocListSize w' = allocListSize w" "bytes w' = bytes w" "sem_view w' = sem_view w"
    by (simp_all add: sem_view_def)
  then have "heap_ok pf w'" using assms(3) heap_ok_cong [of w' w pf] by simp
  with eq show ?thesis using list_open_cong [of w' w pf] by (simp add: quiet_def keeps_def perm_at_def)
qed

lemma chunk_retry_quiet:
  "chunk_retry pf red len w = Inr (a, w') \<Longrightarrow> os_ok pf \<Longrightarrow> heap_ok pf w \<Longrightarrow>
   \<exists>w1. quiet pf w w1 \<and> Page_Create pf len False False w1 = Inr (a, w')"
proof (induction pf red len w rule: chunk_retry.induct)
  case (1 pf red len w)
  from "1.prems"(1) obtain more w1 a1 w2 where r: "reduceProtectedMemory pf red w = Inr (more, w1)"
    and c: "Page_Create pf len False False w1 = Inr (a1, w2)"
    and n: "(if more \<and> a1 = 0 then chunk_retry pf red len w2 else Inr (a1, w2)) = Inr (a, w')"
    by (subst (asm) chunk_retry.simps) (auto simp: and_then_Inr_iff)
  have q1: "quiet pf w w1" using r "1.prems"(3) by (rule reduce_quiet)
  show ?case
  proof (cases "more \<and> a1 = 0")
    case True
    have q2: "quiet pf w1 w2" using c True "1.prems"(2) q1 by (intro create_fail_quiet) (auto simp: quiet_def)
    have "\<exists>w1'. quiet pf w2 w1' \<and> Page_Create pf len False False w1' = Inr (a, w')"
      by (rule "1.IH" [OF r refl c refl True]) (use n True "1.prems"(2) q2 in \<open>auto simp: quiet_def\<close>)
    with q1 q2 show ?thesis by (blast intro: quiet_trans)
  next
    case False
    with n have "a1 = a" "w2 = w'" by (simp_all split: if_splits)
    with q1 c show ?thesis by blast
  qed
qed

section \<open>A new chunk\<close>

text \<open>What is true between the search and the recording of the block: slot \<open>f\<close> is free and has at
  least the memory asked for, or it is still empty because there is no memory.\<close>

definition prepared :: "platform \<Rightarrow> u64 \<Rightarrow> nat \<Rightarrow> world \<Rightarrow> world \<Rightarrow> bool" where
  "prepared pf isz f w w' \<longleftrightarrow> heap_ok pf w' \<and> keeps pf {} w w' \<and> length (slots w') = length (slots w) \<and>
     (\<forall>j < length (slots w). j \<noteq> f \<and> \<not> is_protected (slots w ! j) \<longrightarrow> slots w' ! j = slots w ! j) \<and>
     allocList w' = allocList w \<and> allocListSize w' = allocListSize w \<and> sem_view w' = sem_view w \<and>
     (list_open pf w \<longrightarrow> list_open pf w') \<and>
     (state (slots w' ! f) = DUMAST_EMPTY \<or>
      state (slots w' ! f) = DUMAST_FREE \<and> isz \<le> internalSize (slots w' ! f))"

lemma chunk_into_slot:
  assumes q: "quiet pf w wq" and c: "Page_Create pf n ex pr wq = Inr (a, w3)" and os: "os_ok pf"
    and f: "f < length (slots w)" "state (slots w ! f) = DUMAST_EMPTY"
    and n: "psz pf dvd unat n" "unat n < 2 ^ 31" "isz \<le> n" "isz \<noteq> 0"
    and w': "w' = install_chunk f a n kb w3"
  shows "prepared pf isz f w w'"
proof -
  let ?P = "psz pf"
  from q have ok: "heap_ok pf wq" and fq: "slots wq ! f = slots w ! f" "length (slots wq) = length (slots w)"
    using f by (auto simp: quiet_def is_protected_def)
  then have tab: "table_ok pf (pages wq) (slots wq)" and pok: "page_ok pf" by (simp_all add: heap_ok_def)
  have fe: "f < length (slots wq)" "state (slots wq ! f) = DUMAST_EMPTY" using f fq by simp_all
  have sh: "slot_shape pf (slots wq ! f)" using table_ok_nth [OF tab fe(1)] by (simp add: slot_ok_def)
  have sl3: "slots w3 = slots wq" using c by (rule Page_Create_slots)
  show ?thesis
  proof (cases "a = 0")
    case True
    from c True os ok have "quiet pf wq w3" by (auto intro: create_fail_quiet)
    with q have q3: "quiet pf w w3" by (rule quiet_trans)
    have "(slots wq ! f)\<lparr>internalAddress := 0\<rparr> = slots wq ! f"
      using sh fe(2) by (simp add: slot_shape_def)
    then have "w' = set_slot f (slots wq ! f) w3" using True by (simp add: w' sl3 install_chunk_def)
    then have "w' = w3" by (simp add: set_slot_def flip: sl3)
    with q3 fe sl3 show ?thesis by (auto simp: prepared_def quiet_def)
  next
    case False
    have ln: "mmap_length n = n" using n(2) by (rule mmap_length_small)
    from Page_Create_Inr [OF c False] have mm: "os_mmap pf (clock wq) (pages wq) (startAddr wq) n = Some a"
      and w3: "w3 = wq\<lparr>clock := Suc (clock wq), pages := set_pages pf a n ReadWrite (pages wq),
             bytes := (\<lambda>x. if page_span ?P (unat a) (unat n) (unat x div ?P) then 0 else bytes wq x),
             startAddr := a + n\<rparr>" by (simp_all add: ln)
    from mm os have an: "?P dvd unat a" "unat a + unat n < 2 ^ 64"
      and un: "\<And>k. page_span ?P (unat a) (unat n) k \<Longrightarrow> pages wq k = Unmapped"
      by (auto simp: os_ok_def)
    have rg: "pg_range pf a n" using pok an n by (simp add: pg_range_def)
    have ps: "page_span ?P (unat a) (unat n) (unat x div ?P) \<longleftrightarrow> in_rng a n x" for x
      using an n pok by (simp add: page_span_iff page_okD in_rng_def)
    define s where "s = (slots wq ! f)\<lparr>internalAddress := a, internalSize := n, state := DUMAST_FREE\<rparr>"
    have ins: "in_slot s x = in_rng a n x" for x by (simp add: s_def in_slot_def)
    have n0: "n \<noteq> 0" using n(3,4) by auto
    have "slot_shape pf s"
      using sh fe(2) False an n n0 by (simp add: slot_shape_def s_def slot_end_def)
    then have so: "slot_ok pf (pages w3) s"
      by (simp add: slot_ok_def ins w3 set_pages_at [OF rg]) (simp add: slot_perm_ok_def s_def)
    have tab3: "table_ok pf (pages w3) ((slots wq)[f := s])"
      by (rule table_ok_fresh [OF tab fe so]) (use ps un in \<open>auto simp: ins w3 set_pages_at [OF rg]\<close>)
    have kq: "keeps pf {} wq w'"
    proof -
      have "\<not> in_rng a n x" if "j < length (slots wq)" "in_slot (slots wq ! j) x" for j x
        using un ps slot_ok_mapped [OF table_ok_nth [OF tab that(1)] that(2)] by blast
      then show ?thesis
        using False fe by (auto simp: keeps_def w' install_chunk_def sl3 set_slot_def perm_at_def w3 set_pages_at [OF rg] ps
            nth_update_if live_def)
    qed
    have w'': "w' = set_slot f s (w3\<lparr>sumAllocatedMem := sumAllocatedMem w3 + kb,
                     sumTotalAllocatedMem := sumTotalAllocatedMem w3 + kb,
                     unUsedSlots := unUsedSlots w3 - 1\<rparr>)"
      using False by (simp add: w' install_chunk_def sl3 s_def)
    have "heap_ok pf w'" unfolding w''
      by (rule heap_ok_set_slot [OF ok fe(1)]) (use tab3 fe in \<open>simp_all add: w3 list_slot_def\<close>)
    moreover have "keeps pf {} w w'" using q kq by (auto simp: quiet_def intro: keeps_trans)
    moreover have "slots w' = (slots wq)[f := s]" by (simp add: w'' sl3)
    moreover have "allocList w' = allocList wq" "allocListSize w' = allocListSize wq" "sem_view w' = sem_view wq"
      by (simp_all add: w'' w3 set_slot_def sem_view_def)
    moreover have "list_open pf w'" if "list_open pf w"
    proof -
      have "list_open pf wq" using q that by (simp add: quiet_def)
      then have lo: "perm_at pf wq x = ReadWrite" if "in_rng (allocList wq) (allocListSize wq) x" for x
        using that list_open_iff [OF ok] by blast
      have "perm_at pf w' x = ReadWrite" if x: "in_rng (allocList wq) (allocListSize wq) x" for x
        using lo [OF x] un [of "unat x div ?P"] ps [of x] by (auto simp: w'' w3 perm_at_def set_slot_def set_pages_at [OF rg])
      then show ?thesis using calculation list_open_iff by simp
    qed
    ultimately show ?thesis
      using q fe n(3) by (auto simp: prepared_def quiet_def s_def)
  qed
qed

text \<open>A request within the bounds needs exactly one chunk.\<close>

lemma create_chunk_single:
  assumes pok: "page_ok pf" and isz: "psz pf dvd unat isz" "unat isz \<le> 2 ^ 30 + 2 ^ 20" "usz = 0 \<or> usz < isz"
  shows "create_chunk pf usz isz fail f w =
    and_then (chunk_reserve pf (kB (chunk_size pf isz)) w) (\<lambda>w.
    and_then (chunk_address pf fail (kB (chunk_size pf isz)) (chunk_size pf isz) False w) (\<lambda>(address, w).
    Inr (install_chunk f address (chunk_size pf isz) (sint (kB (chunk_size pf isz))) w)))"
proof -
  note cs = chunk_size_bounds [OF pok isz(1,2)]
  let ?C = "chunk_size pf isz"
  have c0: "?C \<noteq> 0" using cs(4) by (metis le_zero_eq unsigned_0 zero_neq_numeral power_eq_0_iff)
  have over: "\<not> usz > - 1 - (?C - 1)"
  proof -
    have "unat (?C - 1) = unat ?C - 1" using c0 by (simp add: unat_minus_one)
    then have "unat (- 1 - (?C - 1) :: u64) = 2 ^ 64 - 1 - (unat ?C - 1)"
      using cs(3)
      by (subst unat_sub) (simp_all add: word_le_nat_alt unsigned_minus_1_eq_mask mask_eq_exp_minus_1)
    moreover have "unat usz \<le> unat ?C" using isz(3) cs(1) by (auto simp: word_less_nat_alt word_le_nat_alt)
    ultimately show ?thesis using cs(3) by (simp add: word_less_nat_alt)
  qed
  have num: "(if usz \<le> 0 then 1 else (usz + (?C - 1)) div ?C) = 1"
  proof (cases "usz \<le> 0")
    case False
    then have u: "0 < unat usz" by (simp add: word_le_nat_alt unat_gt_0)
    have "unat usz \<le> unat ?C" using isz(3) cs(1) by (auto simp: word_less_nat_alt word_le_nat_alt)
    moreover have "unat (?C - 1) = unat ?C - 1" using c0 by (simp add: unat_minus_one)
    moreover from calculation have "unat (usz + (?C - 1)) = unat usz + (unat ?C - 1)"
      using cs(3) by (subst unat_add_no_wrap) simp_all
    ultimately have "unat ((usz + (?C - 1)) div ?C) = 1"
      using u cs(4) by (simp add: unat_div div_nat_eqI)
    then have "(usz + (?C - 1)) div ?C = 1" by (simp add: word_unat_eq_iff)
    with False show ?thesis by simp
  qed simp
  from over num show ?thesis
    by (simp add: create_chunk_def Let_def del: word_le_0_iff split del: if_split cong: if_cong)
qed

lemma create_chunk_ok:
  assumes cc: "create_chunk pf usz isz fail f w = Inr w'"
    and ok: "heap_ok pf w" and os: "os_ok pf" and f: "f < length (slots w)" "state (slots w ! f) = DUMAST_EMPTY"
    and isz: "psz pf dvd unat isz" "unat isz \<le> 2 ^ 30 + 2 ^ 20" "isz \<noteq> 0" "usz = 0 \<or> usz < isz"
  shows "prepared pf isz f w w'"
proof -
  have pok: "page_ok pf" using ok by (simp add: heap_ok_def)
  note cs = chunk_size_bounds [OF pok isz(1,2)]
  let ?C = "chunk_size pf isz"
  from cc obtain w1 a w3 where r: "chunk_reserve pf (kB ?C) w = Inr w1"
    and ad: "chunk_address pf fail (kB ?C) ?C False w1 = Inr (a, w3)"
    and w': "w' = install_chunk f a ?C (sint (kB ?C)) w3"
    by (auto simp: create_chunk_single [OF pok isz(1,2,4)] and_then_Inr_iff)
  have q1: "quiet pf w w1"
    using r ok by (auto simp: chunk_reserve_def and_then_Inr_iff intro: reduce_quiet quiet_refl split: if_splits)
  from ad obtain a0 w2 where c: "Page_Create pf ?C False False w1 = Inr (a0, w2)"
    and t: "(if a0 = 0 \<and> PROTECT_FREE w2 \<noteq> 0 then
         and_then (chunk_retry pf (kB ?C) ?C w2) (\<lambda>(address, w).
           if address = 0 \<and> fail = DUMA_FAIL_ENV
           then Page_Create pf ?C (MALLOC_FAILEXIT w) True w else Inr (address, w))
       else Inr (a0, w2)) = Inr (a, w3)"
    unfolding chunk_address_def by (elim and_then_InrE) (simp split: prod.splits)
  have "\<exists>wq ex pr. quiet pf w wq \<and> Page_Create pf ?C ex pr wq = Inr (a, w3)"
  proof (cases "a0 = 0 \<and> PROTECT_FREE w2 \<noteq> 0")
    case False
    with t have "a0 = a" "w2 = w3" by (simp_all split: if_splits)
    with q1 c show ?thesis by blast
  next
    case True
    with t obtain a4 w4 where cr: "chunk_retry pf (kB ?C) ?C w2 = Inr (a4, w4)"
      and n: "(if a4 = 0 \<and> fail = DUMA_FAIL_ENV then Page_Create pf ?C (MALLOC_FAILEXIT w4) True w4
               else Inr (a4, w4)) = Inr (a, w3)"
      by (auto simp: and_then_Inr_iff)
    have "quiet pf w1 w2" using c True os q1 by (intro create_fail_quiet) (auto simp: quiet_def)
    with q1 have q2: "quiet pf w w2" by (rule quiet_trans)
    from q2 have "heap_ok pf w2" by (simp add: quiet_def)
    from chunk_retry_quiet [OF cr os this] obtain w5 where q5: "quiet pf w2 w5"
      and c5: "Page_Create pf ?C False False w5 = Inr (a4, w4)" by blast
    show ?thesis
    proof (cases "a4 = 0 \<and> fail = DUMA_FAIL_ENV")
      case True
      then have "quiet pf w5 w4" using c5 os q5 by (intro create_fail_quiet) (auto simp: quiet_def)
      then have "quiet pf w w4" using quiet_trans [OF q2 q5] by (blast intro: quiet_trans)
      with True n show ?thesis by auto
    next
      case False
      with n have "a4 = a" "w4 = w3" by auto
      with c5 quiet_trans [OF q2 q5] show ?thesis by blast
    qed
  qed
  then obtain wq ex pr where q: "quiet pf w wq" and cq: "Page_Create pf ?C ex pr wq = Inr (a, w3)" by blast
  from cs(3) cs(2) pok show ?thesis
    by (intro chunk_into_slot [OF q cq os f]) (simp_all add: w' pg_range_def cs(1) isz(3))
qed

end
