(* ===== verification/Duma_Block.thy ===== *)
theory Duma_Block
  imports Duma_Alloc_Correct
begin

text \<open>
  From a slot to a block: the search, splitting a free slot, placing the block, setting the
  page protections, recording it, filling its no man's land.
\<close>

section \<open>Finding a slot\<close>

lemma empty_not_protected: "state s = DUMAST_EMPTY \<Longrightarrow> \<not> is_protected s"
  by (simp add: is_protected_def)

lemma find_or_create_ok:
  assumes fc: "find_or_create pf usz isz fail w = Inr (f, e0, w')"
    and ok: "heap_ok pf w" and os: "os_ok pf"
    and isz: "psz pf dvd unat isz" "unat isz \<le> 2 ^ 30 + 2 ^ 20" "isz \<noteq> 0" "usz = 0 \<or> usz < isz"
  shows "list_open pf w" "prepared pf isz f w w'" "f < length (slots w)"
    "state (slots w ! f) = DUMAST_FREE \<or> state (slots w ! f) = DUMAST_EMPTY"
    "\<And>e. e0 = Some e \<Longrightarrow> e < length (slots w) \<and> state (slots w ! e) = DUMAST_EMPTY \<and>
        state (slots w' ! e) = DUMAST_EMPTY \<and> e \<noteq> f"
proof -
  obtain full e0' e1 where sc: "scan_slots isz (slots w) 0 (None, None, None) = (full, e0', e1)"
    by (metis prod_cases3)
  note b = scan_slots_correct [OF sc]
  have lo: "list_open pf w" using fc by (auto simp: find_or_create_def touch_list_def split: if_splits)
  have "prepared pf isz f w w' \<and> f < length (slots w) \<and>
      (state (slots w ! f) = DUMAST_FREE \<or> state (slots w ! f) = DUMAST_EMPTY) \<and>
      (\<forall>e. e0 = Some e \<longrightarrow> e < length (slots w) \<and> state (slots w ! e) = DUMAST_EMPTY \<and>
        state (slots w' ! e) = DUMAST_EMPTY \<and> e \<noteq> f)"
  proof (cases full)
    case (Some kn)
    then obtain k n where kn: "full = Some (k, n)" by (cases kn) auto
    with fc sc lo have eq: "f = k" "e0 = e0'" "w' = w"
      by (auto simp: find_or_create_def touch_list_def)
    from b(1) kn have fit: "k < length (slots w)" "fits isz (slots w ! k)" by (simp_all add: best_fit_def)
    have "prepared pf isz k w w" using ok fit by (simp add: prepared_def fits_def)
    with fit b(2) show ?thesis by (auto simp: eq fits_def empties_def)
  next
    case None
    with fc sc lo obtain e where e: "e0' = Some f" "e1 = Some e" "e0 = Some e"
      and cc: "create_chunk pf usz isz fail f w = Inr w'"
      by (auto simp: find_or_create_def touch_list_def and_then_Inr_iff split: option.splits)
    from b(2) e have em: "f < length (slots w)" "state (slots w ! f) = DUMAST_EMPTY"
      "e < length (slots w)" "state (slots w ! e) = DUMAST_EMPTY" "e \<noteq> f"
      by (auto simp: empties_def)
    have p: "prepared pf isz f w w'" by (rule create_chunk_ok [OF cc ok os em(1,2) isz])
    with em have "slots w' ! e = slots w ! e" by (simp add: prepared_def empty_not_protected)
    with p em e show ?thesis by simp
  qed
  with lo show "list_open pf w" "prepared pf isz f w w'" "f < length (slots w)"
    "state (slots w ! f) = DUMAST_FREE \<or> state (slots w ! f) = DUMAST_EMPTY"
    "\<And>e. e0 = Some e \<Longrightarrow> e < length (slots w) \<and> state (slots w ! e) = DUMAST_EMPTY \<and>
        state (slots w' ! e) = DUMAST_EMPTY \<and> e \<noteq> f"
    by simp_all
qed

section \<open>Splitting\<close>

lemma split_slot_ok:
  assumes sp: "split_slot isz f e0 w = Inr w'" and ok: "heap_ok pf w" and f: "f < length (slots w)"
    and st: "state (slots w ! f) = DUMAST_FREE" and sz: "isz \<le> internalSize (slots w ! f)"
    and isz: "psz pf dvd unat isz" "isz \<noteq> 0"
    and e: "\<And>e. e0 = Some e \<Longrightarrow> e < length (slots w) \<and> state (slots w ! e) = DUMAST_EMPTY \<and> e \<noteq> f"
  shows "heap_ok pf w' \<and> keeps pf {} w w' \<and> length (slots w') = length (slots w) \<and>
    slots w' ! f = (slots w ! f)\<lparr>internalSize := isz\<rparr> \<and>
    allocList w' = allocList w \<and> allocListSize w' = allocListSize w \<and> sem_view w' = sem_view w \<and> bytes w' = bytes w \<and> pages w' = pages w"
proof (cases "isz < internalSize (slots w ! f)")
  case False
  with sz have "internalSize (slots w ! f) = isz" by simp
  with sp ok show ?thesis by (auto simp: split_slot_def Let_def)
next
  case True
  let ?s = "slots w ! f"
  from sp True obtain e where e0: "e0 = Some e" by (auto simp: split_slot_def Let_def split: option.splits)
  from e [OF e0] have e': "e < length (slots w)" "state (slots w ! e) = DUMAST_EMPTY" "e \<noteq> f" by simp_all
  let ?a = "internalAddress ?s + isz" and ?n = "internalSize ?s - isz"
  define s where "s = ?s\<lparr>internalSize := isz\<rparr>"
  define t where "t = ?s\<lparr>internalAddress := ?a, internalSize := ?n, userAddress := ?a, userSize := ?n\<rparr>"
  from sp True e0 have w': "w' = set_slot f s (set_slot e t (w\<lparr>unUsedSlots := unUsedSlots w - 1\<rparr>))"
    by (simp add: split_slot_def Let_def s_def t_def)
  from ok have tab: "table_ok pf (pages w) (slots w)" and pok: "page_ok pf" by (simp_all add: heap_ok_def)
  from table_ok_nth [OF tab f] have so: "slot_ok pf (pages w) ?s" .
  then have sh: "internalAddress ?s \<noteq> 0" "psz pf dvd unat (internalAddress ?s)" "psz pf dvd unat (internalSize ?s)"
      "slot_end ?s < 2 ^ 64" "userAddress ?s = 0 \<or> userAddress ?s = internalAddress ?s" "allocator ?s = EFA_INT_ALLOC"
    using st by (simp_all add: slot_ok_def slot_shape_def)
  have le: "unat isz < unat (internalSize ?s)" using True by (simp add: word_less_nat_alt)
  have un: "unat ?a = unat (internalAddress ?s) + unat isz" "unat ?n = unat (internalSize ?s) - unat isz"
    using le sh(4) by (auto simp: slot_end_def unat_sub word_le_nat_alt intro!: unat_add_no_wrap)
  have split: "in_slot ?s x \<longleftrightarrow> in_slot s x \<or> in_slot t x" for x
    using in_rng_split [OF _ sz, of "internalAddress ?s" x] sh(4) by (simp add: in_slot_def s_def t_def slot_end_def)
  have shs: "slot_shape pf s"
    using sh st isz le by (simp add: s_def slot_shape_def slot_end_def)
  have "0 < unat (internalAddress ?s)" using sh(1) by (simp add: unat_gt_0)
  with un le have "0 < unat ?a" "0 < unat ?n" by linarith+
  then have a0: "?a \<noteq> 0" "?n \<noteq> 0" by auto
  have dv: "psz pf dvd unat ?a" "psz pf dvd unat ?n"
    using un sh isz by (simp_all add: dvd_diff_nat)
  have sht: "slot_shape pf t"
    using st sh a0 dv un le by (simp add: t_def slot_shape_def slot_end_def)
  have pm: "slot_perm_ok s x (pages w (unat x div psz pf))" if "in_slot ?s x" for x
    using so st that by (simp add: slot_ok_def slot_perm_ok_def s_def)
  have pmt: "slot_perm_ok t x (pages w (unat x div psz pf))" if "in_slot ?s x" for x
    using so st that by (simp add: slot_ok_def slot_perm_ok_def t_def)
  have tab': "table_ok pf (pages w) ((slots w)[e := t, f := s])"
  proof (rule table_ok_split [OF tab f e'(1,3)])
    show "slot_ok pf (pages w) s" using shs pm split by (simp add: slot_ok_def)
    show "slot_ok pf (pages w) t" using sht pmt split by (simp add: slot_ok_def)
    show "apart s t" using un by (auto simp: apart_def in_slot_def in_rng_def s_def t_def)
  qed (use split in auto)
  have h1: "heap_ok pf w'"
  proof -
    from ok obtain r where r: "r \<in> set (slots w)" "list_slot w r" by (auto simp: heap_ok_def)
    then obtain k where k: "k < length (slots w)" "slots w ! k = r" by (auto simp: in_set_conv_nth)
    with r(2) st e' have "k \<noteq> f" "k \<noteq> e" by (auto simp: list_slot_def)
    with k have "r \<in> set ((slots w)[e := t, f := s])" by (metis length_list_update nth_list_update_neq nth_mem)
    with r(2) tab' ok show ?thesis
      by (auto simp: w' heap_ok_def set_slot_def list_slot_def)
  qed
  have "\<not> live s" "\<not> live t" using st by (simp_all add: s_def t_def live_def)
  then have kp: "keeps pf {} w w'"
    using e' st by (auto simp: keeps_def w' set_slot_def perm_at_def nth_update_if live_def)
  from h1 kp show ?thesis
    using f e' by (simp add: w' s_def set_slot_def sem_view_def)
qed

section \<open>Placing\<close>

lemma place_block_ok:
  assumes pok: "page_ok pf" and sm: "small_request al usz"
    and below: "protectBelow \<and> usz \<noteq> 0 \<longrightarrow> unat al \<le> psz pf"
    and ia: "psz pf dvd unat ia" "unat ia + unat (internal_size pf al usz) < 2 ^ 64"
    and pl: "place_block pf al usz protectBelow (internal_size pf al usz) ia w = Inr (u, p, w')"
    and s: "internalAddress s = ia" "internalSize s = internal_size pf al usz"
      "userAddress s = u" "protAddress s = p" "userSize s = usz"
  shows "\<exists>pg c. w' = w\<lparr>pages := pg, clock := c\<rparr>"
    "\<And>x. \<not> in_slot s x \<Longrightarrow> perm_at pf w' x = perm_at pf w x"
    "\<And>x. in_slot s x \<Longrightarrow> perm_at pf w' x = live_perm s x"
    "in_slot s u" "user_layout pf s" "usz \<noteq> 0 \<Longrightarrow> unat al dvd unat u"
    "usz \<noteq> 0 \<Longrightarrow> protectBelow \<Longrightarrow> unat p + psz pf = unat u \<and> p = ia"
    "usz \<noteq> 0 \<Longrightarrow> \<not> protectBelow \<Longrightarrow> u < p \<and> unat p - (unat u + unat usz) < unat al"
proof -
  let ?P = "psz pf" and ?isz = "internal_size pf al usz"
  note P = page_okD [OF pok]
  note ib = internal_size_bounds [OF pok sm]
  have rg: "pg_range pf ia ?isz" using pok ia ib by (simp add: pg_range_def)
  have ins: "in_slot s x = in_rng ia ?isz x" for x using s by (simp add: in_slot_def)
  have e: "unat (ia + ?isz) = unat ia + unat ?isz" using ia(2) by (intro unat_add_no_wrap) simp
  have main: "(\<exists>pg c. w' = w\<lparr>pages := pg, clock := c\<rparr>) \<and>
    (\<forall>x. perm_at pf w' x = (if in_slot s x then live_perm s x else perm_at pf w x)) \<and>
    in_slot s u \<and> user_layout pf s \<and> (usz \<noteq> 0 \<longrightarrow> unat al dvd unat u) \<and>
    (usz \<noteq> 0 \<and> protectBelow \<longrightarrow> unat p + ?P = unat u \<and> p = ia) \<and>
    (usz \<noteq> 0 \<and> \<not> protectBelow \<longrightarrow> u < p \<and> unat p - (unat u + unat usz) < unat al)"
  proof (cases "usz = 0")
    case True
    have isz: "?isz = os_pagesize pf" using True by (simp add: internal_size_def P(1))
    from pl True have u: "u = ia + drop_bit 1 (os_pagesize pf)" and
      d: "Page_DenyAccess pf ia (ia + ?isz - ia) w = Inr w'"
      by (auto simp: place_block_def Let_def P(1) and_then_Inr_iff)
    from d have d': "Page_DenyAccess pf ia ?isz w = Inr w'" by simp
    have h: "unat (drop_bit (Suc 0) (os_pagesize pf)) = ?P div 2" by (simp add: drop_bit_eq_div unat_div)
    have "unat u = unat ia + ?P div 2" unfolding u
      using ia(2) by (subst unat_add_no_wrap) (simp_all add: h isz)
    then have "in_slot s u" using P(3) by (simp add: ins in_rng_def isz)
    moreover have "perm_at pf w' x = (if in_slot s x then live_perm s x else perm_at pf w x)" for x
      using pg.deny_perm [OF rg d', of x] True s by (simp add: ins live_perm_def)
    moreover have "user_layout pf s" using True s by (simp add: user_layout_def)
    moreover have "\<exists>pg c. w' = w\<lparr>pages := pg, clock := c\<rparr>" using d' by (auto simp: outcome_simps)
    ultimately show ?thesis using True by simp
  next
    case nz: False
    show ?thesis
    proof (cases protectBelow)
      case False
      from pl nz False obtain w1 where u: "u = above_user pf al ?isz usz ia" and p: "p = above_prot pf u usz"
        and a: "Page_AllowAccess pf ia (p - ia) w = Inr w1"
        and d: "Page_DenyAccess pf p (ia + ?isz - p) w1 = Inr w'"
        by (auto simp: place_block_def Let_def and_then_Inr_iff)
      note L = above_layout [OF pok sm nz ia, folded u p]
      have n: "0 < unat usz" using nz by (simp add: unat_gt_0)
      have un: "unat (p - ia) = unat p - unat ia" "unat (ia + ?isz - p) = unat ia + unat ?isz - unat p"
        using L e by (auto simp: unat_sub word_le_nat_alt)
      have r1: "pg_range pf ia (p - ia)" and r2: "pg_range pf p (ia + ?isz - p)"
        using pok ia L ib un by (simp_all add: pg_range_def dvd_diff_nat)
      have ad: "and_then (Page_AllowAccess pf ia (p - ia) w) (Page_DenyAccess pf p (ia + ?isz - p)) = Inr w'"
        using a d by simp
      have up: "u < p" using L(3) n by (simp add: word_less_nat_alt)
      have "perm_at pf w' x = (if in_slot s x then live_perm s x else perm_at pf w x)" for x
        using pg.allow_deny [OF r1 r2 ad, of x] up nz s L
        by (auto simp: ins live_perm_def in_rng_def un word_less_nat_alt)
      moreover have "\<exists>pg c. w' = w\<lparr>pages := pg, clock := c\<rparr>" using a d by (auto simp: outcome_simps)
      moreover have "in_slot s u" using L n by (simp add: ins in_rng_def)
      moreover have "user_layout pf s"
        using s L order_less_not_sym [OF up] nz by (simp add: user_layout_def slot_end_def)
      ultimately show ?thesis using False up L by simp
    next
      case True
      have al: "is_pow2 al" "unat al \<le> ?P" using sm nz below True by (simp_all add: small_request_def)
      have lim: "unat ia + 2 * ?P \<le> 2 ^ 64"
      proof -
        have "?P < unat ?isz" using ib(5) [OF nz] nz unat_gt_0 [of usz] by linarith
        from dvd_less_le [OF dvd_refl this ib(1)] ia(2) show ?thesis by simp
      qed
      note L = below_layout [OF pok al ia(1) lim]
      from pl nz True obtain w1 where u: "u = below_user pf al ia" and p: "p = ia"
        and a: "Page_AllowAccess pf u (?isz - (u - p)) w = Inr w1"
        and d: "Page_DenyAccess pf ia (u - ia) w1 = Inr w'"
        by (auto simp: place_block_def Let_def and_then_Inr_iff L(2))
      have uu: "unat u = unat ia + ?P" using L(1) u by simp
      have un: "unat (u - ia) = ?P" "unat (?isz - (u - p)) = unat ?isz - ?P"
        using uu ib p by (auto simp: unat_sub word_le_nat_alt)
      have r1: "pg_range pf u (?isz - (u - p))" and r2: "pg_range pf ia (u - ia)"
        using pok ia uu un ib by (simp_all add: pg_range_def dvd_diff_nat)
      have ad: "and_then (Page_AllowAccess pf u (?isz - (u - p)) w) (Page_DenyAccess pf ia (u - ia)) = Inr w'"
        using a d by simp
      have pu: "p < u" using uu P(3) p by (simp add: word_less_nat_alt)
      have n5: "unat usz + ?P \<le> unat ?isz" by (rule ib(5) [OF nz])
      have nn: "0 < unat usz" using nz by (simp add: unat_gt_0)
      have "perm_at pf w' x = (if in_slot s x then live_perm s x else perm_at pf w x)" for x
        using pg.allow_deny [OF r1 r2 ad, of x] pu nz s uu ib(2) n5
        by (auto simp: ins live_perm_def in_rng_def un word_less_nat_alt)
      moreover have "\<exists>pg c. w' = w\<lparr>pages := pg, clock := c\<rparr>" using a d by (auto simp: outcome_simps)
      moreover have "in_slot s u" using uu n5 nn by (simp add: ins in_rng_def)
      moreover have "user_layout pf s"
        using s uu pu nz p n5 ia(1) by (simp add: user_layout_def slot_end_def)
      moreover have "unat al dvd unat u"
        unfolding u below_user_def by (simp add: pow2_mask [OF al(1)])
      ultimately show ?thesis using True uu p by simp
    qed
  qed
  then show "\<exists>pg c. w' = w\<lparr>pages := pg, clock := c\<rparr>"
    "\<And>x. \<not> in_slot s x \<Longrightarrow> perm_at pf w' x = perm_at pf w x"
    "\<And>x. in_slot s x \<Longrightarrow> perm_at pf w' x = live_perm s x"
    "in_slot s u" "user_layout pf s" "usz \<noteq> 0 \<Longrightarrow> unat al dvd unat u"
    "usz \<noteq> 0 \<Longrightarrow> protectBelow \<Longrightarrow> unat p + psz pf = unat u \<and> p = ia"
    "usz \<noteq> 0 \<Longrightarrow> \<not> protectBelow \<Longrightarrow> u < p \<and> unat p - (unat u + unat usz) < unat al"
    by (simp_all, auto?)
qed

section \<open>Recording the block\<close>

lemma slack_in_slot:
  assumes "slack_byte s x" and "user_layout pf s" and "in_slot s (userAddress s)" and "slot_end s < 2 ^ 64"
  shows "in_slot s x"
proof -
  have e: "unat (internalAddress s + internalSize s) = slot_end s"
    using assms(4) unfolding slot_end_def by (intro unat_add_no_wrap) simp
  have nz: "userSize s \<noteq> 0" using assms(1) by (simp add: slack_byte_def)
  show ?thesis
  proof (cases "protAddress s < userAddress s")
    case True
    with assms(2) nz have l: "unat (userAddress s) + unat (userSize s) \<le> slot_end s"
      by (simp add: user_layout_def)
    then have "unat (userAddress s + userSize s) = unat (userAddress s) + unat (userSize s)"
      using assms(4) by (intro unat_add_no_wrap) simp
    with True assms(1,3) e l show ?thesis
      by (auto simp: slack_byte_def acc_area_def in_slot_def in_rng_def slot_end_def word_le_nat_alt word_less_nat_alt)
  next
    case False
    with assms(2) nz have l: "unat (userAddress s) + unat (userSize s) \<le> unat (protAddress s)"
      "unat (protAddress s) + psz pf \<le> slot_end s" by (simp_all add: user_layout_def)
    then have "unat (userAddress s + userSize s) = unat (userAddress s) + unat (userSize s)"
      using assms(4) by (intro unat_add_no_wrap) simp
    with False assms(1,3) e l show ?thesis
      by (auto simp: slack_byte_def acc_area_def in_slot_def in_rng_def slot_end_def word_le_nat_alt word_less_nat_alt)
  qed
qed

definition new_block ::
  "platform \<Rightarrow> u64 \<Rightarrow> u64 \<Rightarrow> bool \<Rightarrow> DUMA_Allocator \<Rightarrow> src_pos \<Rightarrow> u64 \<Rightarrow> world \<Rightarrow> DUMA_Slot \<Rightarrow> bool" where
  "new_block pf al usz below alloc pos u w s \<longleftrightarrow>
     internalSize s = internal_size pf al usz \<and> userAddress s = u \<and> userSize s = usz \<and> allocator s = alloc \<and> state s = DUMAST_IN_USE \<and>
     fileSource s = DUMAFS_ALLOCATION \<and> slot_pos s = pos \<and> in_slot s u \<and> user_layout pf s \<and>
     (\<forall>x. in_slot s x \<longrightarrow> perm_at pf w x = live_perm s x) \<and>
     (\<forall>x. slack_byte s x \<longrightarrow> bytes w x = ucast (SLACKFILL w)) \<and>
     (usz \<noteq> 0 \<longrightarrow> unat al dvd unat u) \<and>
     (usz \<noteq> 0 \<and> below \<longrightarrow> unat (protAddress s) + psz pf = unat u) \<and>
     (usz \<noteq> 0 \<and> \<not> below \<longrightarrow> u < protAddress s \<and> unat (protAddress s) - (unat u + unat usz) < unat al)"

text \<open>Everything \<open>_duma_allocate\<close> does to the table, once it has a slot.\<close>

definition stored :: "platform \<Rightarrow> nat \<Rightarrow> world \<Rightarrow> world \<Rightarrow> bool" where
  "stored pf f w w' \<longleftrightarrow> heap_ok pf w' \<and> keeps pf {f} w w' \<and> length (slots w') = length (slots w) \<and>
     allocList w' = allocList w \<and> allocListSize w' = allocListSize w \<and> sem_view w' = sem_view w \<and>
     (list_open pf w \<longrightarrow> list_open pf w')"

lemma list_not_in_slot:
  assumes ok: "heap_ok pf w" and f: "f < length (slots w)" "state (slots w ! f) \<noteq> DUMAST_IN_USE"
    and x: "in_rng (allocList w) (allocListSize w) x"
  shows "\<not> in_slot (slots w ! f) x"
proof -
  from ok obtain k where k: "k < length (slots w)" "list_slot w (slots w ! k)"
    and sub: "\<And>x. in_rng (allocList w) (allocListSize w) x \<Longrightarrow> in_slot (slots w ! k) x"
    by (rule heap_ok_list) blast
  from k(2) f(2) have "k \<noteq> f" by (auto simp: list_slot_def)
  with ok k(1) f(1) sub [OF x] show ?thesis by (auto simp: heap_ok_def dest: table_ok_apart)
qed

lemma heap_ok_rewrite_perm:
  assumes ok: "heap_ok pf w" and i: "i < length (slots w)" and nl: "\<not> list_slot w (slots w ! i)"
    and w1: "\<And>x. \<not> in_slot (slots w ! i) x \<Longrightarrow> perm_at pf w1 x = perm_at pf w x" "slots w1 = slots w"
      "allocList w1 = allocList w" "allocListSize w1 = allocListSize w"
    and s: "slot_ok pf (pages w1) s'" "\<And>x. in_slot s' x \<Longrightarrow> in_slot (slots w ! i) x"
  shows "heap_ok pf (set_slot i s' w1)"
proof (rule heap_ok_set_slot [OF ok i _ w1(2-4) nl])
  from ok have "table_ok pf (pages w) (slots w)" by (simp add: heap_ok_def)
  then show "table_ok pf (pages w1) ((slots w)[i := s'])"
    by (rule table_ok_rewrite [OF _ i s]) (use w1(1) in \<open>simp_all add: perm_at_def\<close>)
qed

lemma use_slot_ok:
  assumes us: "use_slot pf al usz below (internal_size pf al usz) alloc pos f e0 w = Inr (u, w')"
    and ok: "heap_ok pf w" and f: "f < length (slots w)" and sm: "small_request al usz"
    and b: "below \<and> usz \<noteq> 0 \<longrightarrow> unat al \<le> psz pf"
    and st: "state (slots w ! f) = DUMAST_EMPTY \<or>
        state (slots w ! f) = DUMAST_FREE \<and> internal_size pf al usz \<le> internalSize (slots w ! f)"
    and e: "\<And>e. e0 = Some e \<Longrightarrow> e < length (slots w) \<and> state (slots w ! e) = DUMAST_EMPTY \<and> e \<noteq> f"
  shows "stored pf f w w' \<and> (u = 0 \<and> w' = w \<and> state (slots w ! f) = DUMAST_EMPTY \<or>
    u \<noteq> 0 \<and> new_block pf al usz below alloc pos u w' (slots w' ! f))"
proof (cases "state (slots w ! f) = DUMAST_EMPTY")
  case True
  have "internalSize (slots w ! f) = 0"
    using ok f True by (auto simp: heap_ok_def slot_ok_def slot_shape_def dest!: table_ok_nth)
  with us ok True show ?thesis by (simp add: use_slot_def stored_def)
next
  case False
  let ?isz = "internal_size pf al usz"
  from False st have fr: "state (slots w ! f) = DUMAST_FREE" and sz: "?isz \<le> internalSize (slots w ! f)" by simp_all
  have pok: "page_ok pf" using ok by (simp add: heap_ok_def)
  note ib = internal_size_bounds [OF pok sm]
  have "internalSize (slots w ! f) \<noteq> 0" using sz ib(4) by auto
  with us obtain w1 p w2 where sp: "split_slot ?isz f e0 w = Inr w1"
    and pl: "place_block pf al usz below ?isz (internalAddress (slots w1 ! f)) w1 = Inr (u, p, w2)"
    and sk: "duma_init_slack pf (slots (record_block f u p usz alloc pos w2) ! f) (record_block f u p usz alloc pos w2) = Inr w'"
    by (auto simp: use_slot_def and_then_Inr_iff Let_def)
  from split_slot_ok [OF sp ok f fr sz ib(1,4) e] have ok1: "heap_ok pf w1" and k1: "keeps pf {} w w1"
    and l1: "length (slots w1) = length (slots w)" and s1: "slots w1 ! f = (slots w ! f)\<lparr>internalSize := ?isz\<rparr>"
    and r1: "allocList w1 = allocList w" "allocListSize w1 = allocListSize w" "sem_view w1 = sem_view w" "pages w1 = pages w"
    by simp_all
  have f1: "f < length (slots w1)" "state (slots w1 ! f) = DUMAST_FREE" using f l1 s1 fr by simp_all
  have so1: "slot_ok pf (pages w1) (slots w1 ! f)" using ok1 f1 by (simp add: heap_ok_def table_ok_nth)
  then have sh1: "internalAddress (slots w1 ! f) \<noteq> 0" "psz pf dvd unat (internalAddress (slots w1 ! f))"
    "unat (internalAddress (slots w1 ! f)) + unat ?isz < 2 ^ 64"
    using f1 s1 by (simp_all add: slot_ok_def slot_shape_def slot_end_def)
  define s where "s = (slots w1 ! f)\<lparr>userAddress := u, protAddress := p, userSize := usz,
       state := DUMAST_IN_USE, allocator := alloc, fileSource := DUMAFS_ALLOCATION,
       filename := fst pos, lineno := snd pos\<rparr>"
  have sv: "internalAddress s = internalAddress (slots w1 ! f)" "internalSize s = ?isz"
      "userAddress s = u" "protAddress s = p" "userSize s = usz" by (simp_all add: s_def s1)
  note L = place_block_ok [OF pok sm b sh1(2,3) pl sv]
  from L(1) obtain pg c where w2: "w2 = w1\<lparr>pages := pg, clock := c\<rparr>" by blast
  have rec: "record_block f u p usz alloc pos w2 = set_slot f s w2"
    by (simp add: record_block_def w2 s_def)
  have ins: "in_slot s x = in_slot (slots w1 ! f) x" for x by (simp add: in_slot_def sv s1)
  have "slot_end s < 2 ^ 64" using sh1(3) by (simp add: slot_end_def sv)
  then have "slot_shape pf s"
    using sh1 L(4,5) ib sv by (simp add: slot_shape_def s_def)
  then have so: "slot_ok pf (pages w2) s"
    using L(3) by (auto simp: slot_ok_def slot_perm_ok_def s_def perm_at_def)
  let ?w3 = "set_slot f s w2"
  have ok3: "heap_ok pf ?w3"
    by (rule heap_ok_rewrite_perm [OF ok1 f1(1) _ _ _ _ _ so])
      (use f1(2) L(2) ins in \<open>simp_all add: w2 list_slot_def\<close>)
  have nl: "\<not> live (slots w1 ! f)" using f1(2) by (simp add: live_def)
  from sk rec f1 have sk': "duma_init_slack pf s ?w3 = Inr w'" by (simp add: w2)
  from duma_init_slack_Inr [OF sk'] sh1(1) sv obtain b where w': "w' = ?w3\<lparr>bytes := b\<rparr>"
    and b: "\<forall>x. \<not> slack_byte s x \<longrightarrow> b x = bytes ?w3 x" "\<forall>x. slack_byte s x \<longrightarrow> b x = ucast (SLACKFILL ?w3)" by auto
  have slk: "in_slot s x" if "slack_byte s x" for x
    using slack_in_slot [OF that L(5)] L(4) sv \<open>slot_end s < _\<close> by simp
  have sl': "slots w' = (slots w1)[f := s]" by (simp add: w' w2)
  have "heap_ok pf w'" using ok3 heap_ok_cong [of w' ?w3 pf] by (simp add: w')
  moreover have "keeps pf {f} w w'"
  proof (rule keeps_trans [OF keeps_mono [OF k1]])
    show "keeps pf {f} w1 w'"
      using nl ok1 f1(1) b(1) slk L(2) by (intro keeps_inside [of pf w1 f])
        (auto simp: heap_ok_def w' w2 set_slot_def perm_at_def ins)
  qed simp
  moreover have "allocList w' = allocList w" "allocListSize w' = allocListSize w" "sem_view w' = sem_view w"
    using r1 by (simp_all add: w' w2 set_slot_def sem_view_def)
  moreover have "list_open pf w'" if lo: "list_open pf w"
  proof -
    have "perm_at pf w' x = ReadWrite" if x: "in_rng (allocList w) (allocListSize w) x" for x
    proof -
      have "\<not> in_slot s x" using list_not_in_slot [OF ok1 f1(1), of x] f1(2) x by (simp add: ins r1)
      with L(2) have "perm_at pf w' x = perm_at pf w1 x" by (simp add: w' w2 perm_at_def set_slot_def)
      with lo x list_open_iff [OF ok] show ?thesis by (simp add: perm_at_def r1)
    qed
    then show ?thesis using calculation list_open_iff by simp
  qed
  ultimately have "stored pf f w w'" using l1 by (simp add: stored_def sl')
  moreover have "u \<noteq> 0"
    using L(4) sh1(1) unat_gt_0 [of "internalAddress s"] sv by (auto simp: in_slot_def in_rng_def)
  moreover have "new_block pf al usz below alloc pos u w' s"
    unfolding new_block_def
    using L sv b(2) by (auto simp: s_def w' w2 perm_at_def set_slot_def)
  ultimately show ?thesis using f1(1) by (simp add: sl')
qed

section \<open>Growing the table\<close>

text \<open>From the search to the record: the core of an allocation.\<close>

lemma core_ok:
  assumes fc: "find_or_create pf usz (internal_size pf al usz) fail w = Inr (f, e0, w1)"
    and us: "use_slot pf al usz below (internal_size pf al usz) alloc pos f e0 w1 = Inr (u, w2)"
    and ok: "heap_ok pf w" and os: "os_ok pf" and sm: "small_request al usz"
    and b: "below \<and> usz \<noteq> 0 \<longrightarrow> unat al \<le> psz pf"
  shows "list_open pf w" "heap_ok pf w2" "keeps pf (if u = 0 then {} else {f}) w w2" "length (slots w2) = length (slots w)"
    "f < length (slots w)" "\<not> live (slots w ! f)" "state (slots w ! f) \<noteq> DUMAST_IN_USE"
    "allocList w2 = allocList w" "allocListSize w2 = allocListSize w" "sem_view w2 = sem_view w"
    "u \<noteq> 0 \<Longrightarrow> new_block pf al usz below alloc pos u w2 (slots w2 ! f)" "list_open pf w2"
    "u = 0 \<Longrightarrow> \<forall>j < length (slots w). state (slots w ! j) = DUMAST_EMPTY \<longrightarrow> state (slots w2 ! j) = DUMAST_EMPTY"
proof -
  have pok: "page_ok pf" using ok by (simp add: heap_ok_def)
  note ib = internal_size_bounds [OF pok sm]
  have lt: "usz = 0 \<or> usz < internal_size pf al usz"
    using ib(5) page_okD(3) [OF pok] by (cases "usz = 0") (simp_all add: word_less_nat_alt)
  note F = find_or_create_ok [OF fc ok os ib(1,3,4) lt]
  have ok1: "heap_ok pf w1" and len: "length (slots w1) = length (slots w)"
    and st: "state (slots w1 ! f) = DUMAST_EMPTY \<or>
        state (slots w1 ! f) = DUMAST_FREE \<and> internal_size pf al usz \<le> internalSize (slots w1 ! f)"
    and oth: "\<forall>j < length (slots w). j \<noteq> f \<and> \<not> is_protected (slots w ! j) \<longrightarrow> slots w1 ! j = slots w ! j"
    and ls1: "allocList w1 = allocList w" "allocListSize w1 = allocListSize w" "sem_view w1 = sem_view w"
    and k1: "keeps pf {} w w1"
    using F(2) by (simp_all add: prepared_def)
  have "stored pf f w1 w2 \<and> (u = 0 \<and> w2 = w1 \<and> state (slots w1 ! f) = DUMAST_EMPTY \<or>
      u \<noteq> 0 \<and> new_block pf al usz below alloc pos u w2 (slots w2 ! f))"
    by (rule use_slot_ok [OF us ok1 _ sm b st]) (use F len in auto)
  then have S: "stored pf f w1 w2" and nb: "u \<noteq> 0 \<Longrightarrow> new_block pf al usz below alloc pos u w2 (slots w2 ! f)"
    and z: "u = 0 \<Longrightarrow> w2 = w1 \<and> state (slots w1 ! f) = DUMAST_EMPTY" by auto
  show "list_open pf w" "f < length (slots w)" by (rule F)+
  show "\<not> live (slots w ! f)" "state (slots w ! f) \<noteq> DUMAST_IN_USE" using F(4) by (auto simp: live_def)
  show "heap_ok pf w2" "length (slots w2) = length (slots w)" "allocList w2 = allocList w"
    "allocListSize w2 = allocListSize w" "sem_view w2 = sem_view w"
    using S len ls1 by (simp_all add: stored_def)
  have "keeps pf {f} w w2" using S keeps_mono [OF k1] by (auto simp: stored_def intro: keeps_trans)
  with k1 z show "keeps pf (if u = 0 then {} else {f}) w w2" by simp
  show "u \<noteq> 0 \<Longrightarrow> new_block pf al usz below alloc pos u w2 (slots w2 ! f)" by (rule nb)
  show "list_open pf w2" using S F(1,2) by (simp add: stored_def prepared_def)
  show "\<forall>j < length (slots w). state (slots w ! j) = DUMAST_EMPTY \<longrightarrow> state (slots w2 ! j) = DUMAST_EMPTY" if "u = 0"
  proof (intro allI impI)
    fix j assume j: "j < length (slots w)" "state (slots w ! j) = DUMAST_EMPTY"
    with oth z [OF that] show "state (slots w2 ! j) = DUMAST_EMPTY"
      by (cases "j = f") (simp_all add: empty_not_protected)
  qed
qed

end
