(* ===== verification/Duma_Grow.thy ===== *)
theory Duma_Grow
  imports Duma_Block
begin

text \<open>
  A whole allocation, and the recursion between \<open>_duma_allocate\<close> and \<open>allocateMoreSlots\<close>: the
  former is verified once for every \<open>grow\<close> that keeps a contract (locale \<open>table_grower\<close>), the
  contract is proved for \<open>Inr\<close>, which gives the internal allocation inside the latter, and then
  for the latter.
\<close>

section \<open>Filling the block\<close>

lemma memset_eq:
  "memset pf n a c m = Inr m' \<Longrightarrow> unat a + n \<le> 2 ^ 64 \<Longrightarrow>
   m' = m\<lparr>bytes := (\<lambda>x. if unat a \<le> unat x \<and> unat x < unat a + n then c else bytes m x)\<rparr>"
proof (induction n arbitrary: a m)
  case 0
  have "(\<lambda>x. if unat a \<le> unat x \<and> unat x < unat a + 0 then c else bytes m x) = bytes m" by (auto simp: fun_eq_iff)
  with 0 show ?case by simp
next
  case (Suc n)
  from Suc.prems(1) obtain m1 where s: "store pf a c m = Inr m1" and r: "memset pf n (a + 1) c m1 = Inr m'"
    by (auto simp: and_then_Inr_iff)
  from s have m1: "m1 = m\<lparr>bytes := (bytes m)(a := c)\<rparr>" by (simp add: store_Inr)
  show ?case
  proof (cases "n = 0")
    case True
    have "(bytes m)(a := c) = (\<lambda>x. if unat a \<le> unat x \<and> unat x < unat a + Suc n then c else bytes m x)"
      using True by (auto simp: fun_eq_iff word_unat_eq_iff)
    with r m1 True show ?thesis by simp
  next
    case False
    have u: "unat (a + 1) = unat a + 1" using Suc.prems(2) False by (subst unat_add_no_wrap) simp_all
    have "m' = m1\<lparr>bytes := (\<lambda>x. if unat (a + 1) \<le> unat x \<and> unat x < unat (a + 1) + n then c else bytes m1 x)\<rparr>"
      by (rule Suc.IH [OF r]) (use u Suc.prems(2) in simp)
    moreover have "(\<lambda>x. if unat (a + 1) \<le> unat x \<and> unat x < unat (a + 1) + n then c else bytes m1 x) =
        (\<lambda>x. if unat a \<le> unat x \<and> unat x < unat a + Suc n then c else bytes m x)"
      unfolding u m1 by (auto simp: fun_eq_iff word_unat_eq_iff)
    ultimately show ?thesis by (simp add: m1)
  qed
qed

lemma slack_not_user:
  assumes "slack_byte s x" and "slot_end s < 2 ^ 64" and "user_layout pf s"
  shows "\<not> (unat (userAddress s) \<le> unat x \<and> unat x < unat (userAddress s) + unat (userSize s))"
proof -
  have "unat (userAddress s) + unat (userSize s) < 2 ^ 64"
    using assms by (auto simp: slack_byte_def user_layout_def split: if_splits)
  then have "unat (userAddress s + userSize s) = unat (userAddress s) + unat (userSize s)"
    by (intro unat_add_no_wrap) simp
  with assms(1) show ?thesis
    by (auto simp: slack_byte_def acc_area_def word_le_nat_alt word_less_nat_alt split: if_splits)
qed

lemma user_in_slot:
  assumes "slot_end s < 2 ^ 64" and "user_layout pf s" and "in_slot s (userAddress s)" and "userSize s \<noteq> 0"
    and "unat (userAddress s) \<le> unat x" "unat x < unat (userAddress s) + unat (userSize s)"
  shows "in_slot s x \<and> live_perm s x = ReadWrite"
  using assms
  by (auto simp: user_layout_def in_slot_def in_rng_def slot_end_def live_perm_def word_less_nat_alt split: if_splits)

section \<open>What an allocation promises\<close>

text \<open>Slot \<open>f\<close> holds the new block, its user bytes are filled when a fill byte is set, and no
  other live block has changed; or there is no memory and nothing has changed.\<close>

definition allocated ::
  "platform \<Rightarrow> u64 \<Rightarrow> u64 \<Rightarrow> bool \<Rightarrow> u32 \<Rightarrow> DUMA_Allocator \<Rightarrow> src_pos \<Rightarrow> nat \<Rightarrow> u64 \<Rightarrow> world \<Rightarrow> world \<Rightarrow> bool" where
  "allocated pf al usz below fb alloc pos f u w w' \<longleftrightarrow>
     heap_ok pf w' \<and> keeps pf (if u = 0 then {} else {f}) w w' \<and> f < length (slots w') \<and>
     length (slots w) \<le> length (slots w') \<and>
     (f < length (slots w) \<longrightarrow> \<not> live (slots w ! f)) \<and>
     (u \<noteq> 0 \<longrightarrow> new_block pf al usz below alloc pos u w' (slots w' ! f) \<and>
        (fb \<noteq> - 1 \<longrightarrow> (\<forall>x. unat u \<le> unat x \<and> unat x < unat u + unat usz \<longrightarrow> bytes w' x = ucast fb)))"

lemma open_list_same:
  assumes "open_list pf prot w = Inr w'"
  shows "allocListSize w' = allocListSize w" "allocList w' = allocList w"
proof -
  have "allocListSize w' = allocListSize w \<and> allocList w' = allocList w"
  proof (cases prot)
    case True
    then have "open_list pf True w = Inr w'" using assms by simp
    then show ?thesis by (rule open_list_frame) simp
  qed (use assms in \<open>simp add: open_list_def\<close>)
  then show "allocListSize w' = allocListSize w" "allocList w' = allocList w" by simp_all
qed

lemma close_list_bytes:
  assumes "close_list pf prot w = Inr w'"
  shows "bytes w' = bytes w" "SLACKFILL w' = SLACKFILL w"
proof -
  have "bytes w' = bytes w \<and> SLACKFILL w' = SLACKFILL w"
  proof (cases prot)
    case True
    then have "close_list pf True w = Inr w'" using assms by simp
    then show ?thesis by (rule close_list_frame) simp
  qed (use assms in \<open>simp add: close_list_def\<close>)
  then show "bytes w' = bytes w" "SLACKFILL w' = SLACKFILL w" by simp_all
qed

lemma new_block_close:
  assumes nb: "new_block pf al usz below alloc pos u w s" and cl: "close_list pf prot w = Inr w'"
    and ok: "heap_ok pf w" and f: "f < length (slots w)" and s: "s = slots w ! f" "live s \<or> \<not> prot"
  shows "new_block pf al usz below alloc pos u w' s"
proof -
  have "perm_at pf w' x = perm_at pf w x" if x: "in_slot s x" for x
  proof (cases prot)
    case True
    with s have "live s" by simp
    then show ?thesis
      using close_list_perm [OF cl ok, of x] live_not_list [OF ok f] x s by simp
  next
    case False
    with cl show ?thesis by (simp add: close_list_def)
  qed
  with nb close_list_bytes [OF cl] show ?thesis by (simp add: new_block_def)
qed

section \<open>The interface to growing the table\<close>

definition small_list :: "world \<Rightarrow> bool" where
  "small_list w \<longleftrightarrow> unat (allocListSize w) \<le> 2 ^ 28"

text \<open>
  \<open>_duma_allocate\<close> calls \<open>allocateMoreSlots\<close>, which calls it back for internal memory.  All the
  former needs from the latter is that it keeps the table valid, leaves the live blocks
  alone, and does not give slots away.
\<close>

locale table_grower =
  fixes pf :: platform and grow :: "world \<Rightarrow> stop + world"
  assumes grow_ok: "os_ok pf \<Longrightarrow> heap_ok pf w \<Longrightarrow> small_list w \<Longrightarrow> grow w = Inr w' \<Longrightarrow>
    heap_ok pf w' \<and> keeps pf {} w w' \<and> length (slots w) \<le> length (slots w') \<and> sem_view w' = sem_view w"
begin

text \<open>The part of an allocation between opening and closing the slot array.\<close>

lemma body_ok:
  assumes cf: "check_freq pf w = Inr w1"
    and g: "(if P \<and> unUsedSlots w1 < 7 then grow w1 else Inr w1) = Inr w2"
    and fc: "find_or_create pf usz (internal_size pf al usz) fail w2 = Inr (f, e0, w3)"
    and us: "use_slot pf al usz below (internal_size pf al usz) alloc pos f e0 w3 = Inr (u, w4)"
    and os: "os_ok pf" and ok: "heap_ok pf w" and sl: "small_list w"
    and sm: "small_request al usz" and b: "below \<and> usz \<noteq> 0 \<longrightarrow> unat al \<le> psz pf"
  shows "heap_ok pf w4 \<and> keeps pf (if u = 0 then {} else {f}) w w4 \<and> sem_view w4 = sem_view w \<and>
    f < length (slots w4) \<and> (f < length (slots w) \<longrightarrow> \<not> live (slots w ! f)) \<and>
    (u \<noteq> 0 \<longrightarrow> new_block pf al usz below alloc pos u w4 (slots w4 ! f)) \<and>
    length (slots w) \<le> length (slots w4) \<and> list_open pf w2 \<and> state (slots w2 ! f) \<noteq> DUMAST_IN_USE \<and>
    (\<not> P \<longrightarrow> slots w2 = slots w \<and> allocList w4 = allocList w \<and> allocListSize w4 = allocListSize w)"
proof -
  from cf obtain c where w1: "w1 = w\<lparr>checkFreqCounter := c\<rparr>" by (rule check_freq_frame)
  have ok1: "heap_ok pf w1" and sl1: "small_list w1" using ok sl by (simp_all add: w1 small_list_def)
  have G: "heap_ok pf w2 \<and> keeps pf {} w1 w2 \<and> length (slots w1) \<le> length (slots w2) \<and> sem_view w2 = sem_view w1"
    using g grow_ok [OF os ok1 sl1, of w2] ok1 by (auto split: if_splits)
  then have ok2: "heap_ok pf w2" by simp
  note C = core_ok [OF fc us ok2 os sm b]
  have s1: "sem_view w1 = sem_view w" "slots w1 = slots w" by (simp_all add: w1 sem_view_def)
  have k2: "keeps pf {} w w2" using G by (auto simp: w1 intro: keeps_trans [OF keeps_checkFreqCounter])
  have k4: "keeps pf (if u = 0 then {} else {f}) w w4"
    using keeps_mono [OF k2] C(3) by (blast intro: keeps_trans)
  have nl: "f < length (slots w) \<longrightarrow> \<not> live (slots w ! f)"
    using keepsD(2) [OF k2, of f] C(6) by auto
  from C(2,4-6,10,11) G k4 nl s1 g show ?thesis by (auto simp: w1 C(1,7-9))
qed

lemma allocate_block_ok:
  assumes ab: "allocate_block grow pf al0 usz below fb prot alloc fail pos w = Inr (u, w')"
    and os: "os_ok pf" and ok: "heap_ok pf w" and sl: "small_list w"
    and al: "al = (if usz = 0 then al0 else alloc_alignment al0 usz w)"
    and sm: "small_request al usz" and b: "below \<and> usz \<noteq> 0 \<longrightarrow> unat al \<le> psz pf"
    and ip: "alloc \<noteq> EFA_INT_ALLOC \<or> \<not> prot"
  shows "\<exists>f. allocated pf al usz below fb alloc pos f u w w'"
proof -
  from ab al obtain w0 w1 w2 f e0 w3 w4 w5 where o: "open_list pf prot w = Inr w0" and cf: "check_freq pf w0 = Inr w1"
    and g: "(if alloc_type alloc \<noteq> DUMAAT_INTERNAL \<and> unUsedSlots w1 < 7 then grow w1 else Inr w1) = Inr w2"
    and fc: "find_or_create pf usz (internal_size pf al usz) fail w2 = Inr (f, e0, w3)"
    and us: "use_slot pf al usz below (internal_size pf al usz) alloc pos f e0 w3 = Inr (u, w4)"
    and cl: "close_list pf prot w4 = Inr w5"
    and ms: "(if u \<noteq> 0 \<and> fb \<noteq> - 1 \<and> usz \<noteq> 0 then memset pf (unat usz) u (ucast fb) w5 else Inr w5) = Inr w'"
    unfolding allocate_block_def Let_def by (auto simp: and_then_Inr_iff split: if_splits)
  have ok0: "heap_ok pf w0" using open_list_ok [OF o ok] by simp
  have sl0: "small_list w0" using sl open_list_same [OF o] by (simp add: small_list_def)
  note B = body_ok [OF cf g fc us os ok0 sl0 sm b]
  then have ok4: "heap_ok pf w4" and f4: "f < length (slots w4)"
    and k4: "keeps pf (if u = 0 then {} else {f}) w0 w4"
    and nb4: "u \<noteq> 0 \<Longrightarrow> new_block pf al usz below alloc pos u w4 (slots w4 ! f)"
    and nl: "f < length (slots w) \<longrightarrow> \<not> live (slots w ! f)" and len: "length (slots w) \<le> length (slots w4)"
    using open_list_keeps(2) [OF o ok] by simp_all
  have ok5: "heap_ok pf w5" by (rule close_list_ok [OF cl ok4])
  have s5: "slots w5 = slots w4" by (rule close_list_keeps(2) [OF cl ok4])
  have k5: "keeps pf (if u = 0 then {} else {f}) w w5"
    using open_list_keeps(1) [OF o ok] k4 close_list_keeps(1) [OF cl ok4] by (blast intro: keeps_trans)
  show ?thesis
  proof (cases "u = 0")
    case True
    with ms have "w' = w5" by simp
    with True ok5 k5 f4 s5 nl len show ?thesis by (auto simp: allocated_def)
  next
    case u0: False
    let ?s = "slots w4 ! f"
    have nb5: "new_block pf al usz below alloc pos u w5 ?s"
      using nb4 [OF u0] ip by (intro new_block_close [OF _ cl ok4 f4]) (auto simp: live_def new_block_def)
    have se: "slot_end ?s < 2 ^ 64"
    proof (rule slot_ok_range(2))
      show "slot_ok pf (pages w5) ?s" "page_ok pf"
        using ok5 f4 by (simp_all add: heap_ok_def s5 table_ok_nth)
      show "state ?s \<noteq> DUMAST_EMPTY" using nb5 by (simp add: new_block_def)
    qed
    show ?thesis
    proof (cases "fb \<noteq> - 1 \<and> usz \<noteq> 0")
      case False
      with ms have "w' = w5" by auto
      with u0 ok5 k5 f4 s5 nl nb5 len False show ?thesis by (auto simp: allocated_def)
    next
      case True
      with ms u0 have m: "memset pf (unat usz) u (ucast fb) w5 = Inr w'" by simp
      have lim: "unat u + unat usz \<le> 2 ^ 64"
        using nb5 se True by (auto simp: new_block_def user_layout_def split: if_splits)
      from memset_eq [OF m lim] have w': "w' = w5\<lparr>bytes := (\<lambda>x. if unat u \<le> unat x \<and> unat x < unat u + unat usz
          then ucast fb else bytes w5 x)\<rparr>" .
      have uu: "userAddress ?s = u" "userSize ?s = usz" "user_layout pf ?s" "in_slot ?s u"
        using nb5 by (simp_all add: new_block_def)
      have ins: "in_slot ?s x" if "unat u \<le> unat x" "unat x < unat u + unat usz" for x
        using user_in_slot [OF se uu(3)] uu that True by simp
      have "keeps pf {f} w5 w'"
        using ok5 f4 s5 ins by (intro keeps_inside [of pf w5 f]) (auto simp: w' heap_ok_def perm_at_def)
      with k5 u0 have k': "keeps pf {f} w w'" by (auto intro: keeps_trans)
      have "heap_ok pf w'" using ok5 heap_ok_cong [of w' w5 pf] by (simp add: w')
      moreover have "new_block pf al usz below alloc pos u w' ?s"
        using nb5 slack_not_user [OF _ se uu(3)] uu unfolding new_block_def
        by (auto simp: w' perm_at_def)
      ultimately show ?thesis
        using u0 k' f4 s5 nl len True by (auto simp: allocated_def w')
    qed
  qed
qed

end

interpretation no_growth: table_grower pf Inr
  by unfold_locales (simp add: keeps_refl)

section \<open>\<open>allocateMoreSlots\<close> keeps its promise\<close>

lemma keeps_drop:
  assumes "keeps pf {f} w w'" and "f < length (slots w) \<Longrightarrow> \<not> live (slots w ! f)"
    and "f < length (slots w') \<Longrightarrow> \<not> live (slots w' ! f)"
  shows "keeps pf {} w w'"
  using assms unfolding keeps_def by (metis empty_iff singletonD)

lemma count_alloc_same:
  "pages (count_alloc n pos w) = pages w" "slots (count_alloc n pos w) = slots w"
  "bytes (count_alloc n pos w) = bytes w" "allocList (count_alloc n pos w) = allocList w"
  "allocListSize (count_alloc n pos w) = allocListSize w" "sem_view (count_alloc n pos w) = sem_view w"
  "null_addr (count_alloc n pos w) = null_addr w" "ALIGNMENT (count_alloc n pos w) = ALIGNMENT w"
  "small_list (count_alloc n pos w) = small_list w"
  by (simp_all add: count_alloc_def DUMA_Print_def sem_view_def Let_def small_list_def)

lemma count_alloc_ok:
  "heap_ok pf w \<Longrightarrow> heap_ok pf (count_alloc n pos w)" "keeps pf I w (count_alloc n pos w)"
  using heap_ok_cong [of "count_alloc n pos w" w pf]
  by (simp_all add: count_alloc_same keeps_def perm_at_def)

lemma table_ok_append:
  assumes "table_ok pf pg ss"
  shows "table_ok pf pg (ss @ replicate n zero_slot)"
proof -
  let ?ss = "ss @ replicate n zero_slot"
  have z: "\<not> in_slot zero_slot x" for x by (simp add: zero_slot_def)
  have nth: "?ss ! i = (if i < length ss then ss ! i else zero_slot)" if "i < length ?ss" for i
    using that by (simp add: nth_append)
  have "slot_ok pf pg s" if "s \<in> set ?ss" for s
    using that assms zero_slot_ok [of pf pg] by (auto simp: table_ok_def)
  moreover have "apart (?ss ! i) (?ss ! j)" if "i < length ?ss" "j < length ?ss" "i \<noteq> j" for i j
    unfolding nth [OF that(1)] nth [OF that(2)]
    using assms z that by (auto simp: table_ok_def) (auto simp: apart_def)
  ultimately show ?thesis unfolding table_ok_def by blast
qed

text \<open>The state between the allocation of the new array and the release of the old one.\<close>

definition larger_table :: "u64 \<Rightarrow> u64 \<Rightarrow> world \<Rightarrow> world" where
  "larger_table a n w = w\<lparr>allocList := a, allocListSize := n,
     slots := slots w @ replicate (unat (slotsPerPage w)) zero_slot, unUsedSlots := unUsedSlots w + slotsPerPage w\<rparr>"

abbreviation grow_pos :: src_pos where
  "grow_pos \<equiv> (Some ''src/duma.c'', 1233)"

lemma larger_table_simps [simp]:
  "allocList (larger_table a n w) = a" "allocListSize (larger_table a n w) = n" "pages (larger_table a n w) = pages w"
  "slots (larger_table a n w) = slots w @ replicate (unat (slotsPerPage w)) zero_slot"
  "bytes (larger_table a n w) = bytes w" "sem_view (larger_table a n w) = sem_view w"
  "null_addr (larger_table a n w) = null_addr w"
  by (simp_all add: larger_table_def sem_view_def)

lemma larger_size:
  assumes "heap_ok pf w" and "small_list w"
  defines "n \<equiv> allocListSize w + DUMA_PAGE_SIZE pf"
  shows "unat n = unat (allocListSize w) + psz pf" "unat n \<le> 2 ^ 29" "psz pf dvd unat n" "n \<noteq> 0" "small_request 1 n"
    "alloc_alignment 1 n v = 1"
proof -
  from assms(1) have pok: "page_ok pf" by (simp add: heap_ok_def)
  note P = page_okD [OF pok]
  show u: "unat n = unat (allocListSize w) + psz pf"
    unfolding n_def using assms(2) P by (subst unat_add_no_wrap) (simp_all add: small_list_def)
  show b: "unat n \<le> 2 ^ 29" "psz pf dvd unat n"
    unfolding u using assms(1,2) P by (simp_all add: small_list_def heap_ok_def)
  show "n \<noteq> 0" using u P(3) by auto
  have "is_pow2 (1 :: u64)" using is_pow2_exp [where 'a = 64, of 0] by simp
  with b show "small_request 1 n" by (simp add: small_request_def)
  show "alloc_alignment 1 n v = 1" by (simp add: alloc_alignment_def)
qed

lemma list_block_address:
  assumes nb: "new_block pf 1 n False EFA_INT_ALLOC pos a w s" and pok: "page_ok pf"
    and sm: "small_request 1 n" and n: "psz pf dvd unat n" "n \<noteq> 0"
  shows "internalAddress s = a" "protAddress s = a + n"
proof -
  note P = page_okD [OF pok]
  have e: "userSize s = n" "userAddress s = a" "\<not> protAddress s < a" "user_layout pf s" "in_slot s a"
    "unat (protAddress s) - (unat a + unat n) < 1" using nb n(2) by (auto simp: new_block_def)
  then have p: "unat (protAddress s) = unat a + unat n" using n(2) by (simp add: user_layout_def)
  then have "unat a + unat n < 2 ^ 64" using unat_u64 [of "protAddress s"] by simp
  then show "protAddress s = a + n" using p by (simp add: word_unat_eq_iff unat_add_no_wrap)
  have "unat (internal_size pf 1 n) = unat n + psz pf"
    unfolding internal_size_unat [OF pok sm n(2)] round_up_dvd_eq [OF P(3) n(1)] using P(4) by simp
  then have "unat (internalSize s) = unat n + psz pf" using nb by (simp add: new_block_def)
  then have "unat a \<le> unat (internalAddress s)" using e n(2) by (simp add: user_layout_def slot_end_def)
  moreover have "unat (internalAddress s) \<le> unat a" using e(5) by (auto simp: in_slot_def in_rng_def)
  ultimately show "internalAddress s = a" by (simp add: word_unat_eq_iff)
qed

lemma more_slots:
  assumes os: "os_ok pf" and ok: "heap_ok pf w" and sl: "small_list w"
    and ab: "allocate_with Inr pf 1 (allocListSize w + DUMA_PAGE_SIZE pf) False (- 1) False EFA_INT_ALLOC DUMA_FAIL_NULL grow_pos w
      = Inr (a, w1)"
  shows "heap_ok pf w1" "keeps pf {} w w1" "sem_view w1 = sem_view w" "length (slots w) \<le> length (slots w1)"
    "allocList w1 = allocList w" "allocListSize w1 = allocListSize w"
    "a \<noteq> 0 \<Longrightarrow> \<exists>f < length (slots w1). list_slot (larger_table a (allocListSize w + DUMA_PAGE_SIZE pf) w1) (slots w1 ! f) \<and>
       new_block pf 1 (allocListSize w + DUMA_PAGE_SIZE pf) False EFA_INT_ALLOC grow_pos a w1 (slots w1 ! f)"
    "list_open pf w1"
    "a = 0 \<Longrightarrow> \<forall>j < length (slots w). state (slots w ! j) = DUMAST_EMPTY \<longrightarrow> state (slots w1 ! j) = DUMAST_EMPTY"
proof -
  let ?n = "allocListSize w + DUMA_PAGE_SIZE pf"
  have pok: "page_ok pf" using ok by (simp add: heap_ok_def)
  note n = larger_size [OF ok sl]
  define w0 where "w0 = count_alloc ?n grow_pos w"
  note w0 = count_alloc_same [of ?n grow_pos w, folded w0_def]
  have ok0: "heap_ok pf w0" and sl0: "small_list w0" and k0: "keeps pf {} w w0"
    using ok sl w0 count_alloc_ok by (simp_all add: w0_def)
  from ab n(4) have "allocate_block Inr pf 1 ?n False (- 1) False EFA_INT_ALLOC DUMA_FAIL_NULL grow_pos w0 = Inr (a, w1)"
    unfolding allocate_with_def Let_def w0_def by (auto split: if_splits)
  with n(4) obtain w2 f e0 w3 where cf: "check_freq pf w0 = Inr w2"
    and fc: "find_or_create pf ?n (internal_size pf 1 ?n) DUMA_FAIL_NULL w2 = Inr (f, e0, w3)"
    and us: "use_slot pf 1 ?n False (internal_size pf 1 ?n) EFA_INT_ALLOC grow_pos f e0 w3 = Inr (a, w1)"
    unfolding allocate_block_def Let_def n(6)
    by (auto simp: and_then_Inr_iff open_list_def close_list_def split: if_splits)
  have B: "heap_ok pf w1" "keeps pf (if a = 0 then {} else {f}) w0 w1" "sem_view w1 = sem_view w0"
    "f < length (slots w1)" "f < length (slots w0) \<longrightarrow> \<not> live (slots w0 ! f)"
    "a \<noteq> 0 \<longrightarrow> new_block pf 1 ?n False EFA_INT_ALLOC grow_pos a w1 (slots w1 ! f)"
    "length (slots w0) \<le> length (slots w1)" "allocList w1 = allocList w0" "allocListSize w1 = allocListSize w0"
    using no_growth.body_ok [OF cf _ fc us os ok0 sl0 n(5), of False] by simp_all
  show "heap_ok pf w1" "sem_view w1 = sem_view w" "length (slots w) \<le> length (slots w1)" "allocList w1 = allocList w"
    "allocListSize w1 = allocListSize w" using B w0 by simp_all
  from cf obtain c where w2: "w2 = w0\<lparr>checkFreqCounter := c\<rparr>" by (rule check_freq_frame)
  with ok0 have "heap_ok pf w2" by simp
  from core_ok(12,13) [OF fc us this os n(5)] w0 show "list_open pf w1"
    "a = 0 \<Longrightarrow> \<forall>j < length (slots w). state (slots w ! j) = DUMAST_EMPTY \<longrightarrow> state (slots w1 ! j) = DUMAST_EMPTY"
    by (simp_all add: w2)
  show "keeps pf {} w w1"
  proof (cases "a = 0")
    case True
    with B(2) k0 show ?thesis by (auto intro: keeps_trans)
  next
    case False
    with B(6) have nls: "\<not> live (slots w1 ! f)" by (simp add: new_block_def live_def)
    show ?thesis
    proof (rule keeps_trans [OF k0 keeps_drop])
      show "keeps pf {f} w0 w1" using B(2) False by simp
    qed (use B(5) nls in auto)
  qed
  assume a: "a \<noteq> 0"
  with B(6) have nb: "new_block pf 1 ?n False EFA_INT_ALLOC grow_pos a w1 (slots w1 ! f)" by simp
  have "list_slot (larger_table a ?n w1) (slots w1 ! f)"
    using nb list_block_address [OF nb pok n(5,3,4)] internal_size_bounds(5) [OF pok n(5,4)]
    by (simp add: list_slot_def new_block_def word_le_nat_alt)
  with nb B(4) show "\<exists>f < length (slots w1). list_slot (larger_table a ?n w1) (slots w1 ! f) \<and>
       new_block pf 1 ?n False EFA_INT_ALLOC grow_pos a w1 (slots w1 ! f)" by blast
qed

lemma larger_table_ok:
  assumes ok: "heap_ok pf w1" and f: "f < length (slots w1)" "list_slot (larger_table a n w1) (slots w1 ! f)" and n: "psz pf dvd unat n"
  shows "heap_ok pf (larger_table a n w1)" "keeps pf {} w1 (larger_table a n w1)"
proof -
  have "table_ok pf (pages w1) (slots (larger_table a n w1))" using ok by (simp add: heap_ok_def table_ok_append)
  moreover have "slots w1 ! f \<in> set (slots (larger_table a n w1))" using f(1) by simp
  ultimately show "heap_ok pf (larger_table a n w1)" using ok f(2) n unfolding heap_ok_def by auto
  show "keeps pf {} w1 (larger_table a n w1)"
    by (auto simp: keeps_def nth_append perm_at_def live_def zero_slot_def)
qed

text \<open>The old array is still in a slot of its own, apart from the new one.\<close>

lemma old_list_slot:
  assumes ok: "heap_ok pf w1" and f: "f < length (slots w1)" "list_slot (larger_table a n w1) (slots w1 ! f)"
    and n: "allocListSize w1 \<noteq> n"
  obtains k where "k < length (slots w1)" "k \<noteq> f" "list_slot w1 (slots w1 ! k)" "in_slot (slots w1 ! k) (allocList w1)"
    "allocList w1 \<noteq> a"
proof -
  from ok obtain k where k: "k < length (slots w1)" "list_slot w1 (slots w1 ! k)" by (rule heap_ok_list)
  have pok: "page_ok pf" using ok by (simp add: heap_ok_def)
  have ins: "in_slot (slots w1 ! j) (userAddress (slots w1 ! j))" if "j < length (slots w1)" "state (slots w1 ! j) = DUMAST_IN_USE" for j
    using slot_ok_range(5) [OF table_ok_nth [OF _ that(1)] pok, of "pages w1"] ok that(2) by (simp add: heap_ok_def)
  have kf: "k \<noteq> f" using k(2) f(2) n by (auto simp: list_slot_def)
  moreover have "in_slot (slots w1 ! k) (allocList w1)" "in_slot (slots w1 ! f) a"
    using ins [OF k(1)] ins [OF f(1)] k(2) f(2) by (simp_all add: list_slot_def)
  moreover from this kf k(1) f(1) ok have "allocList w1 \<noteq> a" by (auto simp: heap_ok_def dest: table_ok_apart)
  ultimately show thesis using that k by blast
qed

lemma allocateMoreSlots_steps:
  assumes "allocateMoreSlots pf w = Inr w'"
  obtains a w1 where "allocate_with Inr pf 1 (allocListSize w + DUMA_PAGE_SIZE pf) False (- 1) False EFA_INT_ALLOC DUMA_FAIL_NULL grow_pos w
      = Inr (a, w1)"
    and "a = 0 \<and> w' = w1 \<or> a \<noteq> 0 \<and> duma_deallocate pf (allocList w) False EFA_INT_DEALLOC (Some ''src/duma.c'', 1259)
      (larger_table a (allocListSize w + DUMA_PAGE_SIZE pf) w1) = Inr w'"
  using assms unfolding allocateMoreSlots_def Let_def
  by (auto simp: and_then_Inr_iff touch_list_def larger_table_def split: if_splits)

lemma allocateMoreSlots_ok:
  assumes os: "os_ok pf" and ok: "heap_ok pf w" and sl: "small_list w"
    and am: "allocateMoreSlots pf w = Inr w'"
  shows "heap_ok pf w' \<and> keeps pf {} w w' \<and> length (slots w) \<le> length (slots w') \<and> sem_view w' = sem_view w"
proof -
  let ?n = "allocListSize w + DUMA_PAGE_SIZE pf"
  from am obtain a w1 where ab: "allocate_with Inr pf 1 ?n False (- 1) False EFA_INT_ALLOC DUMA_FAIL_NULL grow_pos w = Inr (a, w1)"
    and rest: "a = 0 \<and> w' = w1 \<or> a \<noteq> 0 \<and> duma_deallocate pf (allocList w) False EFA_INT_DEALLOC (Some ''src/duma.c'', 1259)
      (larger_table a ?n w1) = Inr w'" by (rule allocateMoreSlots_steps)
  note M = more_slots [OF os ok sl ab]
  note n = larger_size [OF ok sl]
  show ?thesis
  proof (cases "a = 0")
    case True
    with rest M show ?thesis by simp
  next
    case False
    let ?w4 = "larger_table a ?n w1"
    from M(7) [OF False] obtain f where f: "f < length (slots w1)" "list_slot ?w4 (slots w1 ! f)" by blast
    note L = larger_table_ok [OF M(1) f n(3)]
    have "0 < psz pf" using M(1) by (simp add: heap_ok_def page_okD)
    then have "unat (allocListSize w1) \<noteq> unat ?n" using n(1) M(6) by simp
    then have ne: "allocListSize w1 \<noteq> ?n" by auto
    obtain k where k: "k < length (slots w1)" "k \<noteq> f" "list_slot w1 (slots w1 ! k)" "in_slot (slots w1 ! k) (allocList w1)"
      "allocList w1 \<noteq> a" by (rule old_list_slot [OF M(1) f ne])
    have d: "duma_deallocate pf (allocList w) False EFA_INT_DEALLOC (Some ''src/duma.c'', 1259) ?w4 = Inr w'" using rest False by simp
    show ?thesis
    proof (cases "allocList w = 0 \<or> allocList w = null_addr ?w4")
      case True
      with d False have "w' = ?w4" by (auto simp: duma_deallocate_def)
      with L M(2-4) show ?thesis by (auto intro: keeps_trans)
    next
      case nz: False
      from d nz obtain c where fb: "free_block pf (allocList w) EFA_INT_DEALLOC (Some ''src/duma.c'', 1259) (?w4\<lparr>checkFreqCounter := c\<rparr>) = Inr w'"
        by (elim deallocate_unfold) (auto simp: open_list_def close_list_def)
      have ok4: "heap_ok pf (?w4\<lparr>checkFreqCounter := c\<rparr>)" and a4: "allocList w \<noteq> 0" "allocList w \<noteq> allocList (?w4\<lparr>checkFreqCounter := c\<rparr>)"
        using L(1) nz k(5) M(5) by simp_all
      show ?thesis
      proof (rule free_block_ok [OF ok4 a4(1) fb disjI2 [OF a4(2)]])
        fix i assume i: "slotForUserAddress pf (allocList w) (?w4\<lparr>checkFreqCounter := c\<rparr>) = Inr (Some i)" "i < length (slots (?w4\<lparr>checkFreqCounter := c\<rparr>))"
          and ok5: "heap_ok pf w'" and k5: "keeps pf {i} (?w4\<lparr>checkFreqCounter := c\<rparr>) w'"
          and l5: "length (slots w') = length (slots (?w4\<lparr>checkFreqCounter := c\<rparr>))"
          and st: "state (slots w' ! i) = DUMAST_ALL_PROTECTED \<or> state (slots w' ! i) = DUMAST_EMPTY"
          and sv: "sem_view w' = sem_view (?w4\<lparr>checkFreqCounter := c\<rparr>)"
        have ua: "userAddress (slots ?w4 ! i) = allocList w1" using slotForUserAddress_Some(3) [OF i(1)] M(5) by simp
        have "\<not> live (slots ?w4 ! i)"
        proof
          assume lv: "live (slots ?w4 ! i)"
          have k4: "k < length (slots ?w4)" "slots ?w4 ! k = slots w1 ! k" using k(1) by (simp_all add: nth_append)
          moreover from this lv k(3) have "k \<noteq> i" by (auto dest: list_slot_not_live)
          ultimately show False
            using table_ok_apart [of pf "pages ?w4" "slots ?w4" k i "allocList w1"] L(1) i(2) k(4)
              live_in_slot [OF L(1) _ lv] ua by (simp add: heap_ok_def)
        qed
        then have "keeps pf {} (?w4\<lparr>checkFreqCounter := c\<rparr>) w'"
          using st by (intro keeps_drop [OF k5]) (auto simp: live_def)
        then have "keeps pf {} w w'"
          using keeps_trans [OF keeps_trans [OF M(2) L(2)] keeps_checkFreqCounter [of pf "{}" ?w4 c]]
          by (blast intro: keeps_trans)
        moreover have "sem_view w' = sem_view w" using sv M(3) by (simp add: larger_table_def sem_view_def)
        ultimately show ?thesis using ok5 l5 M(4) by simp
      qed
    qed
  qed
qed

interpretation growth: table_grower pf "allocateMoreSlots pf"
  by unfold_locales (rule allocateMoreSlots_ok)

end
