(* ===== verification/Duma_Malloc.thy ===== *)
theory Duma_Malloc
  imports Duma_Grow
begin

text \<open>
  What a caller of \<open>_duma_allocate\<close> can rely on.
\<close>

section \<open>The contract of an allocation\<close>

abbreviation zero_strategy :: "DUMA_Allocator \<Rightarrow> world \<Rightarrow> int" where
  "zero_strategy alloc w \<equiv> (case alloc_std alloc of DUMAAS_C \<Rightarrow> MALLOC_0_STRATEGY w | DUMAAS_CPP \<Rightarrow> NEW_0_STRATEGY w)"

text \<open>The requests the general theorems are about, for the alignment that is used in the end.\<close>

definition request_ok :: "platform \<Rightarrow> u64 \<Rightarrow> u64 \<Rightarrow> bool \<Rightarrow> DUMA_Allocator \<Rightarrow> world \<Rightarrow> bool" where
  "request_ok pf al usz below alloc w \<longleftrightarrow>
     small_request al usz \<and> (below \<and> usz \<noteq> 0 \<longrightarrow> unat al \<le> psz pf) \<and>
     alloc \<noteq> EFA_INT_ALLOC \<and> (usz = 0 \<longrightarrow> zero_strategy alloc w = 3)"

definition effective_alignment :: "u64 \<Rightarrow> u64 \<Rightarrow> world \<Rightarrow> u64" where
  "effective_alignment al usz w = (if usz = 0 then al else alloc_alignment al usz w)"

lemma duma_allocate_allocated:
  assumes os: "os_ok pf" and ok: "heap_ok pf w" and sl: "small_list w"
    and rq: "request_ok pf (effective_alignment al usz w) usz below alloc w"
    and a: "duma_allocate pf al usz below fb prot alloc fail pos w = Inr (u, w')"
  shows "\<exists>f. allocated pf (effective_alignment al usz w) usz below fb alloc pos f u w w'"
proof -
  define w0 where "w0 = count_alloc usz pos w"
  note w0 = count_alloc_same [of usz pos w, folded w0_def]
  have al0: "alloc_alignment al usz w0 = alloc_alignment al usz w"
    by (simp add: alloc_alignment_def w0)
  from a rq have ab: "allocate_block (allocateMoreSlots pf) pf al usz below fb prot alloc fail pos w0 = Inr (u, w')"
    unfolding duma_allocate_def allocate_with_def Let_def w0_def
    by (auto simp: request_ok_def split: if_splits DUMA_AllocStd.splits)
  have "\<exists>f. allocated pf (effective_alignment al usz w) usz below fb alloc pos f u w0 w'"
    by (rule growth.allocate_block_ok [OF ab os])
      (use ok sl rq in \<open>simp_all add: w0_def count_alloc_same count_alloc_ok effective_alignment_def al0 [unfolded w0_def] request_ok_def\<close>)
  then obtain f where f: "allocated pf (effective_alignment al usz w) usz below fb alloc pos f u w0 w'" ..
  then have "keeps pf (if u = 0 then {} else {f}) w0 w'" unfolding allocated_def by blast
  then have "keeps pf (if u = 0 then {} else {f}) w w'"
    by (rule keeps_trans [rotated]) (simp add: w0_def count_alloc_ok)
  with f have "allocated pf (effective_alignment al usz w) usz below fb alloc pos f u w w'"
    unfolding allocated_def w0 by blast
  then show ?thesis ..
qed

section \<open>Where the accesses of the caller go\<close>

lemma allocated_facts:
  assumes al: "allocated pf al usz below fb alloc pos f u w w'" and u: "u \<noteq> 0" and ia: "alloc \<noteq> EFA_INT_ALLOC"
  shows "f < length (slots w')" "heap_ok pf w'" "keeps pf {f} w w'" "live (slots w' ! f)"
    "f < length (slots w) \<Longrightarrow> \<not> live (slots w ! f)"
    "userAddress (slots w' ! f) = u" "userSize (slots w' ! f) = usz" "allocator (slots w' ! f) = alloc"
    "slot_end (slots w' ! f) < 2 ^ 64" "user_layout pf (slots w' ! f)" "in_slot (slots w' ! f) u"
    "\<And>x. in_slot (slots w' ! f) x \<Longrightarrow> perm_at pf w' x = live_perm (slots w' ! f) x"
proof -
  from al u have nb: "new_block pf al usz below alloc pos u w' (slots w' ! f)" and ok: "heap_ok pf w'"
    and f: "f < length (slots w')" by (simp_all add: allocated_def)
  show "f < length (slots w')" "heap_ok pf w'" "keeps pf {f} w w'"
    "f < length (slots w) \<Longrightarrow> \<not> live (slots w ! f)"
    using al u by (simp_all add: allocated_def)
  show "live (slots w' ! f)" using nb ia by (simp add: new_block_def live_def)
  show "userAddress (slots w' ! f) = u" "userSize (slots w' ! f) = usz" "allocator (slots w' ! f) = alloc"
    "user_layout pf (slots w' ! f)" "in_slot (slots w' ! f) u"
    "\<And>x. in_slot (slots w' ! f) x \<Longrightarrow> perm_at pf w' x = live_perm (slots w' ! f) x"
    using nb by (simp_all add: new_block_def)
  have "slot_ok pf (pages w') (slots w' ! f)" "page_ok pf" using ok f by (simp_all add: heap_ok_def table_ok_nth)
  then show "slot_end (slots w' ! f) < 2 ^ 64"
    using nb by (intro slot_ok_range(2)) (auto simp: new_block_def)
qed

lemma allocated_accessible:
  assumes al: "allocated pf al usz below fb alloc pos f u w w'" and u: "u \<noteq> 0" and ia: "alloc \<noteq> EFA_INT_ALLOC"
    and x: "unat u \<le> unat x" "unat x < unat u + unat usz"
  shows "perm_at pf w' x = ReadWrite"
proof -
  note F = allocated_facts [OF al u ia]
  have "usz \<noteq> 0" using x by auto
  with user_in_slot [OF F(9,10)] F(6,7,11,12) x show ?thesis by simp
qed

text \<open>The dead page: after the block, or before it.\<close>

lemma allocated_guarded:
  assumes al: "allocated pf al usz below fb alloc pos f u w w'" and u: "u \<noteq> 0" and ia: "alloc \<noteq> EFA_INT_ALLOC"
    and nz: "usz \<noteq> 0"
  shows "below \<Longrightarrow> unat x < unat u \<Longrightarrow> unat u \<le> unat x + psz pf \<Longrightarrow> perm_at pf w' x = NoAccess"
    "\<not> below \<Longrightarrow> \<exists>gap < unat al. \<forall>x. unat u + unat usz + gap \<le> unat x \<and>
        unat x < unat u + unat usz + gap + psz pf \<longrightarrow> perm_at pf w' x = NoAccess"
proof -
  note F = allocated_facts [OF al u ia]
  let ?s = "slots w' ! f"
  have nb: "new_block pf al usz below alloc pos u w' ?s" using al u by (simp add: allocated_def)
  have pok: "page_ok pf" using F(2) by (simp add: heap_ok_def)
  show "perm_at pf w' x = NoAccess" if "below" "unat x < unat u" "unat u \<le> unat x + psz pf"
  proof -
    have p: "unat (protAddress ?s) + psz pf = unat u" using nb nz that(1) by (simp add: new_block_def)
    then have "protAddress ?s < userAddress ?s" using F(6) page_okD(3) [OF pok] by (simp add: word_less_nat_alt)
    with F(6,7,10,11) nz p that have "in_slot ?s x" "live_perm ?s x = NoAccess"
      by (auto simp: user_layout_def in_slot_def in_rng_def live_perm_def word_less_nat_alt)
    with F(12) show ?thesis by simp
  qed
  show "\<exists>gap < unat al. \<forall>x. unat u + unat usz + gap \<le> unat x \<and>
        unat x < unat u + unat usz + gap + psz pf \<longrightarrow> perm_at pf w' x = NoAccess" if "\<not> below"
  proof (intro exI conjI allI impI)
    from nb nz that have up: "u < protAddress ?s" and gap: "unat (protAddress ?s) - (unat u + unat usz) < unat al"
      by (simp_all add: new_block_def)
    show "unat (protAddress ?s) - (unat u + unat usz) < unat al" by (rule gap)
    fix x :: u64 assume x: "unat u + unat usz + (unat (protAddress ?s) - (unat u + unat usz)) \<le> unat x \<and>
        unat x < unat u + unat usz + (unat (protAddress ?s) - (unat u + unat usz)) + psz pf"
    have np: "\<not> protAddress ?s < userAddress ?s" using order_less_not_sym [OF up] F(6) by simp
    from F(6,7,10) nz np have l: "unat u + unat usz \<le> unat (protAddress ?s)"
      "unat (protAddress ?s) + psz pf \<le> slot_end ?s" by (simp_all add: user_layout_def)
    from F(6,11) have iu: "unat (internalAddress ?s) \<le> unat u" by (simp add: in_slot_def in_rng_def)
    from x l(1) have px: "unat (protAddress ?s) \<le> unat x" "unat x < unat (protAddress ?s) + psz pf" by simp_all
    have "in_slot ?s x" using px l iu by (simp add: in_slot_def in_rng_def slot_end_def)
    moreover have "live_perm ?s x = NoAccess"
      using px np F(7) nz by (simp add: live_perm_def word_less_nat_alt)
    ultimately have "in_slot ?s x" "live_perm ?s x = NoAccess" by simp_all
    with F(12) show "perm_at pf w' x = NoAccess" by simp
  qed
qed

section \<open>Properties\<close>

lemma sample_malloc:
  "\<exists>w'. duma_allocate sample_pf 0 4096 below (- 1) True EFA_MALLOC DUMA_FAIL_ENV (Some ''t.c'', 5) (sample_world NoAccess)
      = Inr (if below then 0x10011000 else 0x10010000, w')"
  by (cases below) (simp_all add: duma_defs Let_def upt_conv_Cons check_while_empty fill_while_empty)

lemma sample_alignment: "effective_alignment 0 4096 (sample_world lp) = 16"
  by (simp add: effective_alignment_def alloc_alignment_def sample_world_def initial_world_def)

lemma sample_request: "request_ok sample_pf 16 4096 below EFA_MALLOC w"
proof -
  have "is_pow2 (2 ^ 4 :: u64)" by (rule is_pow2_exp) simp
  then show ?thesis by (simp add: request_ok_def small_request_def)
qed

lemma sample_small_list: "small_list (sample_world lp)"
  by (simp add: small_list_def)


lemma request_facts: "request_ok pf al usz below alloc w \<Longrightarrow> alloc \<noteq> EFA_INT_ALLOC"
  by (simp add: request_ok_def)

lemmas sample_request_malloc =
  sample_os_ok sample_heap_ok [of NoAccess, simplified] sample_small_list [of NoAccess]
  sample_request [of _ "sample_world NoAccess", folded sample_alignment [of NoAccess]]



text \<open>C4: Overruns are caught: with the default placement there is a gap smaller than the alignment
  behind the block, and every access to the page after the gap faults.\<close>

theorem allocate_overrun_faults:
  assumes "os_ok pf" and "heap_ok pf w" and "small_list w"
    and "request_ok pf (effective_alignment al usz w) usz False alloc w"
    and "duma_allocate pf al usz False fb prot alloc fail pos w = Inr (u, w')" and "u \<noteq> 0" and "usz \<noteq> 0"
  shows "\<exists>gap < unat (effective_alignment al usz w).
    \<forall>x. unat u + unat usz + gap \<le> unat x \<and> unat x < unat u + unat usz + gap + psz pf \<longrightarrow>
      load pf x w' = Inl (Segv x) \<and> store pf x c w' = Inl (Segv x)"
proof -
  from duma_allocate_allocated [OF assms(1-5)] obtain f
    where "allocated pf (effective_alignment al usz w) usz False fb alloc pos f u w w'" ..
  from allocated_guarded(2) [OF this assms(6) request_facts [OF assms(4)] assms(7)]
  show ?thesis by (auto simp: load_def store_def)
qed

theorem allocate_overrun_faults_witness:
  "\<exists>w'. duma_allocate sample_pf 0 4096 False (- 1) True EFA_MALLOC DUMA_FAIL_ENV (Some ''t.c'', 5) (sample_world NoAccess)
      = Inr (0x10010000, w') \<and> load sample_pf 0x10011fff w' = Inl (Segv 0x10011fff)"
proof -
  obtain w' where w': "duma_allocate sample_pf 0 4096 False (- 1) True EFA_MALLOC DUMA_FAIL_ENV
      (Some ''t.c'', 5) (sample_world NoAccess) = Inr (0x10010000, w')"
    using sample_malloc [of False] by auto
  from allocate_overrun_faults [OF sample_request_malloc w', of 0] obtain gap where "gap < 16"
    "\<forall>x. 0x10010000 + 4096 + gap \<le> unat x \<and> unat x < 0x10010000 + 4096 + gap + 4096 \<longrightarrow>
      load sample_pf x w' = Inl (Segv x)"
    by (auto simp: sample_alignment)
  with w' show ?thesis by simp
qed

text \<open>C5: Underruns are caught when the block is placed the other way round: the page before the
  block faults, right up to its first byte.\<close>

theorem allocate_underrun_faults:
  assumes "os_ok pf" and "heap_ok pf w" and "small_list w"
    and "request_ok pf (effective_alignment al usz w) usz True alloc w"
    and "duma_allocate pf al usz True fb prot alloc fail pos w = Inr (u, w')" and "u \<noteq> 0" and "usz \<noteq> 0"
    and "unat x < unat u" and "unat u \<le> unat x + psz pf"
  shows "load pf x w' = Inl (Segv x) \<and> store pf x c w' = Inl (Segv x)"
proof -
  from duma_allocate_allocated [OF assms(1-5)] obtain f
    where "allocated pf (effective_alignment al usz w) usz True fb alloc pos f u w w'" ..
  from allocated_guarded(1) [OF this assms(6) request_facts [OF assms(4)] assms(7) TrueI assms(8,9)]
  show ?thesis by (simp add: load_def store_def)
qed

theorem allocate_underrun_faults_witness:
  "\<exists>w'. duma_allocate sample_pf 0 4096 True (- 1) True EFA_MALLOC DUMA_FAIL_ENV (Some ''t.c'', 5) (sample_world NoAccess)
      = Inr (0x10011000, w') \<and> load sample_pf 0x10010fff w' = Inl (Segv 0x10010fff)"
proof -
  obtain w' where w': "duma_allocate sample_pf 0 4096 True (- 1) True EFA_MALLOC DUMA_FAIL_ENV
      (Some ''t.c'', 5) (sample_world NoAccess) = Inr (0x10011000, w')"
    using sample_malloc [of True] by auto
  from allocate_underrun_faults [OF sample_request_malloc w', of "0x10010fff" 0] w' show ?thesis by simp
qed



text \<open>C16: An allocation that fails for lack of memory has no effect on the program: the table is
  valid, no live block has changed, and none has appeared.\<close>

theorem allocate_failure_harmless:
  assumes "os_ok pf" and "heap_ok pf w" and "small_list w"
    and "request_ok pf (effective_alignment al usz w) usz below alloc w"
    and "duma_allocate pf al usz below fb prot alloc fail pos w = Inr (0, w')"
  shows "heap_ok pf w' \<and> keeps pf {} w w'"
  using duma_allocate_allocated [OF assms] by (auto simp: allocated_def)

definition sample_no_retry :: world where
  "sample_no_retry = (sample_world NoAccess)\<lparr>PROTECT_FREE := 0\<rparr>"

theorem allocate_failure_harmless_witness:
  "\<exists>w'. duma_allocate sample_pf 0 0x200000 False (- 1) True EFA_MALLOC DUMA_FAIL_NULL (None, 5) sample_no_retry
      = Inr (0, w') \<and> heap_ok sample_pf w' \<and> keeps sample_pf {} sample_no_retry w'"
proof -
  have "\<exists>w'. duma_allocate sample_pf 0 0x200000 False (- 1) True EFA_MALLOC DUMA_FAIL_NULL (None, 5) sample_no_retry
      = Inr (0, w')"
    by (simp add: sample_no_retry_def duma_defs Let_def upt_conv_Cons check_while_empty fill_while_empty)
  then obtain w' where w': "duma_allocate sample_pf 0 0x200000 False (- 1) True EFA_MALLOC DUMA_FAIL_NULL (None, 5)
      sample_no_retry = Inr (0, w')" ..
  have ok: "heap_ok sample_pf sample_no_retry"
    using sample_heap_ok [of NoAccess] by (simp add: sample_no_retry_def heap_ok_def list_slot_def)
  have sl: "small_list sample_no_retry"
    using sample_small_list [of NoAccess] by (simp add: sample_no_retry_def small_list_def)
  have ea: "effective_alignment 0 0x200000 sample_no_retry = 16"
    by (simp add: sample_no_retry_def effective_alignment_def alloc_alignment_def sample_world_def initial_world_def)
  have "is_pow2 (2 ^ 4 :: u64)" by (rule is_pow2_exp) simp
  then have rq: "request_ok sample_pf (effective_alignment 0 0x200000 sample_no_retry) 0x200000 False EFA_MALLOC sample_no_retry"
    by (simp add: ea request_ok_def small_request_def)
  from allocate_failure_harmless [OF sample_os_ok ok sl rq w'] w' show ?thesis by blast
qed

text \<open>C17: Requests for zero bytes follow the strategy: abort, return a null pointer, return the address
  of the block reserved for this, or make a block of one inaccessible page.\<close>

theorem allocate_zero:
  assumes "allocList w \<noteq> 0"
  shows "(zero_strategy alloc w = 0 \<longrightarrow>
      duma_allocate pf al 0 below fb prot alloc fail pos w = Inl (Aborted (Alloc_0_bytes pos))) \<and>
    (zero_strategy alloc w = 1 \<longrightarrow>
      duma_allocate pf al 0 below fb prot alloc fail pos w = Inr (0, count_alloc 0 pos w)) \<and>
    (zero_strategy alloc w \<notin> {0, 1, 3} \<longrightarrow>
      duma_allocate pf al 0 below fb prot alloc fail pos w = Inr (null_addr w, count_alloc 0 pos w)) \<and>
    (\<forall>u w'. zero_strategy alloc w = 3 \<and> os_ok pf \<and> heap_ok pf w \<and> small_list w \<and> alloc \<noteq> EFA_INT_ALLOC \<and>
        duma_allocate pf al 0 below fb prot alloc fail pos w = Inr (u, w') \<and> u \<noteq> 0 \<longrightarrow>
      (\<exists>f < length (slots w'). userAddress (slots w' ! f) = u \<and> live (slots w' ! f) \<and>
        (\<forall>x. in_slot (slots w' ! f) x \<longrightarrow> load pf x w' = Inl (Segv x))))"
proof (intro conjI allI impI)
  fix u w'
  assume a: "zero_strategy alloc w = 3 \<and> os_ok pf \<and> heap_ok pf w \<and> small_list w \<and> alloc \<noteq> EFA_INT_ALLOC \<and>
        duma_allocate pf al 0 below fb prot alloc fail pos w = Inr (u, w') \<and> u \<noteq> 0"
  then have "request_ok pf (effective_alignment al 0 w) 0 below alloc w"
    by (simp add: request_ok_def small_request_def)
  with a duma_allocate_allocated obtain f
    where "allocated pf (effective_alignment al 0 w) 0 below fb alloc pos f u w w'" by blast
  note F = allocated_facts [OF this]
  from a F have "f < length (slots w')" "userAddress (slots w' ! f) = u" "live (slots w' ! f)"
    "\<And>x. in_slot (slots w' ! f) x \<Longrightarrow> perm_at pf w' x = NoAccess"
    by (simp_all add: live_perm_def)
  then show "\<exists>f < length (slots w'). userAddress (slots w' ! f) = u \<and> live (slots w' ! f) \<and>
        (\<forall>x. in_slot (slots w' ! f) x \<longrightarrow> load pf x w' = Inl (Segv x))"
    by (auto simp: load_def)
qed (use assms in \<open>auto simp: duma_allocate_def allocate_with_def Let_def count_alloc_same\<close>)

theorem allocate_zero_witness:
  "duma_allocate sample_pf 0 0 False (- 1) True EFA_MALLOC DUMA_FAIL_ENV (None, 7)
     ((sample_world NoAccess)\<lparr>MALLOC_0_STRATEGY := 0\<rparr>) = Inl (Aborted (Alloc_0_bytes (None, 7)))"
proof -
  have "allocList ((sample_world NoAccess)\<lparr>MALLOC_0_STRATEGY := 0\<rparr>) \<noteq> 0" by simp
  from allocate_zero [OF this] show ?thesis by simp
qed

text \<open>C18: The search is best fit: it returns a free slot of at least the size asked for, no larger than
  any other such slot, and returns none only when there is none.\<close>

theorem scan_is_best_fit:
  "case scan_slots sz ss 0 (None, None, None) of
     (None, e0, e1) \<Rightarrow> \<forall>s \<in> set ss. \<not> (state s = DUMAST_FREE \<and> sz \<le> internalSize s)
   | (Some (k, n), e0, e1) \<Rightarrow> k < length ss \<and> state (ss ! k) = DUMAST_FREE \<and> internalSize (ss ! k) = n \<and> sz \<le> n \<and>
       (\<forall>s \<in> set ss. state s = DUMAST_FREE \<and> sz \<le> internalSize s \<longrightarrow> n \<le> internalSize s)"
  using scan_slots_correct [of sz ss] by (auto simp: best_fit_def fits_def split: prod.splits option.splits)

theorem scan_is_best_fit_witness:
  "scan_slots 0x2000 [zero_slot, sample_free_slot\<lparr>internalSize := 0x8000\<rparr>, sample_block, sample_free_slot] 0
     (None, None, None) = (Some (3, 0x4000), Some 0, None) \<and> state sample_free_slot = DUMAST_FREE"
proof -
  have "scan_slots 0x2000 [zero_slot, sample_free_slot\<lparr>internalSize := 0x8000\<rparr>, sample_block, sample_free_slot] 0
     (None, None, None) = (Some (3, 0x4000), Some 0, None)"
    by (simp add: zero_slot_def sample_block_def sample_free_slot_def)
  with scan_is_best_fit [where sz = "0x2000" and ss = "[zero_slot, sample_free_slot\<lparr>internalSize := 0x8000\<rparr>, sample_block, sample_free_slot]"]
  show ?thesis by simp
qed

text \<open>The default alignment: for blocks smaller than \<open>DUMA_ALIGNMENT\<close> the largest power of two that
  is not above the size, which is always accepted by the check that follows.\<close>

theorem default_alignment:
  assumes "usz \<noteq> 0" and "usz < scast (ALIGNMENT w)"
  shows "is_pow2 (alloc_alignment 0 usz w) \<and> alloc_alignment 0 usz w \<le> usz \<and>
    unat usz < 2 * unat (alloc_alignment 0 usz w)"
  using assms lower_pow2_correct [of usz] by (simp add: alloc_alignment_def Let_def)

theorem default_alignment_witness:
  "is_pow2 (alloc_alignment 0 11 (sample_world NoAccess)) \<and> alloc_alignment 0 11 (sample_world NoAccess) \<le> 11"
proof -
  have "(11 :: u64) < scast (ALIGNMENT (sample_world NoAccess))"
    by (simp add: sample_world_def initial_world_def)
  with default_alignment [of 11 "sample_world NoAccess"] show ?thesis by simp
qed

end
