(* ===== verification/Duma_Frame.thy ===== *)
theory Duma_Frame
  imports Duma_Malloc
begin

text \<open>
  What \<open>_duma_allocate\<close> and \<open>_duma_deallocate\<close> leave alone: every setting and every address
  fixed at start-up, and, between taking and releasing it, the lock.  \<open>fixed\<close> and \<open>steady\<close> blank
  out exactly what they may change.
\<close>

definition fixed :: "world \<Rightarrow> world" where
  "fixed w = w\<lparr>pages := (\<lambda>_. Unmapped), bytes := (\<lambda>_. 0), startAddr := 0, clock := 0, out := [],
     slots := [], unUsedSlots := 0, sumAllocatedMem := 0, sumTotalAllocatedMem := 0,
     sumProtectedMem := 0, numAllocs := 0, checkFreqCounter := 0\<rparr>"

text \<open>A deallocation counts itself; only the growth of the slot array moves the slot array.\<close>

definition counted :: "world \<Rightarrow> world" where
  "counted w = (fixed w)\<lparr>numDeallocs := 0\<rparr>"

definition steady :: "world \<Rightarrow> world" where
  "steady w = (counted w)\<lparr>allocList := 0, allocListSize := 0\<rparr>"

definition config :: "world \<Rightarrow> world" where
  "config w = (steady w)\<lparr>mutex_owner := None, mutextid := 0, locknr := 0, semInited := True, semDepth := 0\<rparr>"

lemmas mask_defs = config_def steady_def counted_def fixed_def

lemma counted_fixed: "fixed w' = fixed w \<Longrightarrow> counted w' = counted w"
  by (simp add: counted_def)

lemma steady_counted: "counted w' = counted w \<Longrightarrow> steady w' = steady w"
  by (simp add: steady_def)

lemma steady_fixed: "fixed w' = fixed w \<Longrightarrow> steady w' = steady w"
  by (simp add: steady_def counted_def)

lemma config_fixed: "fixed w' = fixed w \<Longrightarrow> config w' = config w"
  by (simp add: config_def steady_def counted_def)

lemma allocListSize_counted: "counted w' = counted w \<Longrightarrow> allocListSize w' = allocListSize w"
proof -
  have "allocListSize (counted v) = allocListSize v" for v by (simp add: mask_defs)
  then show "counted w' = counted w \<Longrightarrow> allocListSize w' = allocListSize w" by metis
qed

lemma allocListSize_fixed: "fixed w' = fixed w \<Longrightarrow> allocListSize w' = allocListSize w \<and> numDeallocs w' = numDeallocs w"
proof -
  have "allocListSize (fixed v) = allocListSize v" "numDeallocs (fixed v) = numDeallocs v" for v by (simp_all add: fixed_def)
  then show "fixed w' = fixed w \<Longrightarrow> allocListSize w' = allocListSize w \<and> numDeallocs w' = numDeallocs w" by metis
qed

lemma config_steady: "steady w' = steady w \<Longrightarrow> config w' = config w"
  by (simp add: config_def)

lemma config_fields:
  assumes "config w' = config w"
  shows "CHECK_FREQ w' = CHECK_FREQ w" "slotsPerPage w' = slotsPerPage w" "SLACKFILL w' = SLACKFILL w"
proof -
  have "CHECK_FREQ (config v) = CHECK_FREQ v" "slotsPerPage (config v) = slotsPerPage v" "SLACKFILL (config v) = SLACKFILL v" for v
    by (simp_all add: mask_defs)
  then show "CHECK_FREQ w' = CHECK_FREQ w" "slotsPerPage w' = slotsPerPage w" "SLACKFILL w' = SLACKFILL w"
    using assms by metis+
qed

lemma sem_view_steady: "steady w' = steady w \<Longrightarrow> sem_view w' = sem_view w"
proof -
  have "sem_view (steady v) = sem_view v" for v by (simp add: mask_defs sem_view_def)
  then show "steady w' = steady w \<Longrightarrow> sem_view w' = sem_view w" by metis
qed

lemma null_addr_config: "config w' = config w \<Longrightarrow> null_addr w' = null_addr w"
proof -
  have "null_addr (config v) = null_addr v" for v by (simp add: mask_defs)
  then show "config w' = config w \<Longrightarrow> null_addr w' = null_addr w" by metis
qed

section \<open>The steps\<close>

lemma fixed_access:
  "Page_AllowAccess pf a n w = Inr w' \<Longrightarrow> fixed w' = fixed w"
  "Page_DenyAccess pf a n w = Inr w' \<Longrightarrow> fixed w' = fixed w"
  by (auto simp: outcome_simps fixed_def)

lemma fixed_delete: "Page_Delete pf a n w = Inr w' \<Longrightarrow> fixed w' = fixed w"
  by (erule Page_Delete_Inr) (auto simp: fixed_def)

lemma fixed_create: "Page_Create pf n ex pr w = Inr (a, w') \<Longrightarrow> fixed w' = fixed w"
  by (auto simp: Page_Create_def Let_def DUMA_Print_def fixed_def split: option.splits if_splits)

lemma fixed_set_slot [simp]: "fixed (set_slot i s w) = fixed w"
  by (simp add: fixed_def set_slot_def)

lemma fixed_account [simp]: "fixed (account_reduced acc w) = fixed w"
  by (simp add: fixed_def account_reduced_def)

lemma fixed_touch: "touch_list pf w = Inr w' \<Longrightarrow> fixed w' = fixed w"
  by (simp add: touch_list_def split: if_splits)

lemma fixed_pass1: "reduce_pass1 pf red is acc w = Inr (d, acc', w') \<Longrightarrow> fixed w' = fixed w"
proof (induction pf red "is" acc w rule: reduce_pass1.induct)
  case (2 pf red i "is" acc w)
  then show ?case
    by (fastforce simp: Let_def outcome_simps split: if_splits dest: fixed_delete)
qed simp

lemma fixed_pass2: "reduce_pass2 pf red is acc w = Inr (d, acc', w') \<Longrightarrow> fixed w' = fixed w"
proof (induction pf red "is" acc w rule: reduce_pass2.induct)
  case (2 pf red i "is" acc w)
  then show ?case
    by (fastforce simp: Let_def outcome_simps split: if_splits dest: fixed_delete)
qed simp

lemma fixed_reduce: "reduceProtectedMemory pf red w = Inr (r, w') \<Longrightarrow> fixed w' = fixed w"
  by (auto simp: reduceProtectedMemory_def outcome_simps split: if_splits
      dest!: fixed_touch fixed_pass1 fixed_pass2)

lemma fixed_bytes: "fixed (w\<lparr>bytes := b\<rparr>) = fixed w"
  by (simp add: fixed_def)

lemma fixed_fill: "fill_while pf b e c w = Inr w' \<Longrightarrow> fixed w' = fixed w"
  by (drule fill_while_Inr) (simp add: fixed_bytes)

lemma fixed_memset: "memset pf n a c w = Inr w' \<Longrightarrow> fixed w' = fixed w"
  by (drule memset_Inr) (auto simp: fixed_bytes)

lemma fixed_init_slack: "duma_init_slack pf s w = Inr w' \<Longrightarrow> fixed w' = fixed w"
  by (auto simp: duma_init_slack_def outcome_simps split: if_splits prod.splits dest!: fixed_fill)

section \<open>Allocation\<close>

lemma fixed_retry: "chunk_retry pf red len w = Inr (a, w') \<Longrightarrow> fixed w' = fixed w"
proof (induction pf red len w rule: chunk_retry.induct)
  case (1 pf red len w)
  from "1.prems" obtain more w1 b w2 where r: "reduceProtectedMemory pf red w = Inr (more, w1)"
    and c: "Page_Create pf len False False w1 = Inr (b, w2)"
    and n: "(if more \<and> b = 0 then chunk_retry pf red len w2 else Inr (b, w2)) = Inr (a, w')"
    by (subst (asm) chunk_retry.simps) (auto simp: outcome_simps)
  have "fixed w2 = fixed w" using fixed_reduce [OF r] fixed_create [OF c] by simp
  moreover have "fixed w' = fixed w2"
    using n "1.IH" [OF r refl c refl] by (auto split: if_splits)
  ultimately show ?case by simp
qed

lemma fixed_create_chunk: "create_chunk pf usz isz fail f w = Inr w' \<Longrightarrow> fixed w' = fixed w"
proof -
  have res: "fixed v' = fixed v" if "chunk_reserve pf k v = Inr v'" for k v v'
    using that by (auto simp: chunk_reserve_def outcome_simps split: if_splits dest!: fixed_reduce)
  have adr: "fixed v' = fixed v" if "chunk_address pf fail red len over v = Inr (a, v')" for red len over v a v'
    using that by (auto simp: chunk_address_def outcome_simps split: if_splits dest!: fixed_create fixed_retry)
  have ins: "fixed (install_chunk f a len k v) = fixed v" for a len k v
    by (simp add: install_chunk_def Let_def) (simp add: fixed_def)
  assume "create_chunk pf usz isz fail f w = Inr w'"
  then show ?thesis
    by (auto simp: create_chunk_def Let_def outcome_simps ins split: if_splits dest!: res adr)
qed

lemma fixed_find: "find_or_create pf usz isz fail w = Inr (f, e, w') \<Longrightarrow> fixed w' = fixed w"
  by (cases "scan_slots isz (slots w) 0 (None, None, None)" rule: prod_cases3)
    (auto simp: find_or_create_def outcome_simps touch_list_def split: option.splits if_splits
      dest!: fixed_create_chunk)

lemma fixed_use: "use_slot pf al usz below isz alloc pos f e w = Inr (u, w') \<Longrightarrow> fixed w' = fixed w"
proof -
  have spl: "fixed v' = fixed v" if "split_slot isz f e v = Inr v'" for v v'
    using that by (auto simp: split_slot_def Let_def fixed_def set_slot_def split: if_splits option.splits)
  have plc: "fixed v' = fixed v" if "place_block pf al usz below isz a v = Inr (u, p, v')" for a v u p v'
    using that by (auto simp: place_block_def Let_def and_then_Inr_iff split: if_splits dest!: fixed_access)
  assume "use_slot pf al usz below isz alloc pos f e w = Inr (u, w')"
  then show ?thesis
    by (auto simp: use_slot_def Let_def outcome_simps record_block_def split: if_splits
        dest!: spl plc fixed_init_slack)
qed

section \<open>Deallocation\<close>

lemma fixed_check_freq: "check_freq pf w = Inr w' \<Longrightarrow> fixed w' = fixed w"
  by (erule check_freq_frame) (simp add: fixed_def)

lemma fixed_count: "counted (count_free s pos w) = counted w" "fixed (count_alloc usz pos w) = fixed w"
  by (simp_all add: count_free_def count_alloc_def Let_def DUMA_Print_def mask_defs)

lemma counted_free_block: "free_block pf a d pos w = Inr w' \<Longrightarrow> counted w' = counted w"
proof -
  have room: "fixed v' = fixed v" if "free_make_room pf k v = Inr v'" for k v v'
    using that by (auto simp: free_make_room_def outcome_simps split: if_splits dest!: fixed_reduce)
  have ret: "fixed v' = fixed v" if "free_retire pf i k pos v = Inr v'" for i k v v'
  proof -
    have "fixed (v\<lparr>sumProtectedMem := x\<rparr>) = fixed v" "fixed (v\<lparr>sumAllocatedMem := x, unUsedSlots := y\<rparr>) = fixed v" for v x y
      by (simp_all add: fixed_def)
    with that show ?thesis
      by (auto simp: free_retire_def Let_def and_then_Inr_iff split: if_splits dest!: fixed_access fixed_delete)
  qed
  assume "free_block pf a d pos w = Inr w'"
  then show ?thesis
    by (auto simp: free_block_def Let_def outcome_simps fixed_count split: if_splits
        dest!: counted_fixed [OF room] counted_fixed [OF ret] free_access_Inr)
qed

lemma steady_deallocate: "duma_deallocate pf a False d pos w = Inr w' \<Longrightarrow> steady w' = steady w"
  by (auto simp: duma_deallocate_def open_list_def close_list_def outcome_simps split: if_splits
      dest!: steady_fixed [OF fixed_check_freq] steady_counted [OF counted_free_block])

lemma config_open: "open_list pf prot w = Inr w' \<Longrightarrow> config w' = config w"
  by (cases prot) (auto simp: open_list_def mask_defs outcome_simps elim!: DUMA_get_sem_frame)

lemma config_close: "close_list pf prot w = Inr w' \<Longrightarrow> config w' = config w"
  by (cases prot) (auto simp: close_list_def mask_defs outcome_simps elim!: DUMA_rel_sem_frame)

lemma config_deallocate: "duma_deallocate pf a prot d pos w = Inr w' \<Longrightarrow> config w' = config w"
  by (auto simp: duma_deallocate_def and_then_Inr_iff split: if_splits
      dest!: config_open config_close config_fixed [OF fixed_check_freq] config_steady [OF steady_counted [OF counted_free_block]])

lemma open_list_size:
  assumes "open_list pf prot w = Inr w'"
  shows "allocListSize w' = allocListSize w" "unUsedSlots w' = unUsedSlots w" "numDeallocs w' = numDeallocs w"
  using assms by (cases prot; auto simp: open_list_def elim!: open_list_frame [unfolded open_list_def if_True])+

lemma close_list_size: "close_list pf prot w = Inr w' \<Longrightarrow> allocListSize w' = allocListSize w \<and> numDeallocs w' = numDeallocs w"
  by (cases prot) (auto simp: close_list_def elim!: close_list_frame [unfolded close_list_def if_True])

lemma deallocate_size: "duma_deallocate pf a prot d pos w = Inr w' \<Longrightarrow> allocListSize w' = allocListSize w"
  by (auto simp: duma_deallocate_def and_then_Inr_iff split: if_splits
      dest!: open_list_size(1) close_list_size allocListSize_counted [OF counted_fixed [OF fixed_check_freq]]
        allocListSize_counted [OF counted_free_block])

section \<open>The whole of \<open>_duma_allocate\<close>\<close>

text \<open>The states on the way through an allocation.\<close>

lemma allocate_block_steps:
  assumes a: "allocate_block grow pf al usz below fb prot alloc fail pos w = Inr (u, w')"
    and g: "\<And>v v'. grow v = Inr v' \<Longrightarrow> steady v' = steady v"
  obtains w1 w2 w3 where "open_list pf prot w = Inr w1" "steady w2 = steady w1"
    "7 \<le> unUsedSlots w \<Longrightarrow> fixed w2 = fixed w1" "close_list pf prot w2 = Inr w3" "fixed w' = fixed w3"
proof -
  let ?al = "if usz = 0 then al else alloc_alignment al usz w"
  from a obtain w1 c g1 f e w2 u2 w4 w3
    where o: "open_list pf prot w = Inr w1" and cf: "check_freq pf w1 = Inr c"
      and gr: "(if alloc_type alloc \<noteq> DUMAAT_INTERNAL \<and> unUsedSlots c < 7 then grow c else Inr c) = Inr g1"
      and fo: "find_or_create pf usz (internal_size pf ?al usz) fail g1 = Inr (f, e, w2)"
      and us: "use_slot pf ?al usz below (internal_size pf ?al usz) alloc pos f e w2 = Inr (u2, w4)"
      and cl: "close_list pf prot w4 = Inr w3"
      and fl: "(if u2 \<noteq> 0 \<and> fb \<noteq> - 1 \<and> usz \<noteq> 0 then memset pf (unat usz) u2 (ucast fb) w3 else Inr w3) = Inr w'"
    by (auto simp: allocate_block_def Let_def and_then_Inr_iff split: if_splits)
  have "steady g1 = steady c" using gr g by (auto split: if_splits)
  moreover have w4: "fixed w4 = fixed g1" using fixed_find [OF fo] fixed_use [OF us] by simp
  ultimately have "steady w4 = steady w1"
    using fixed_check_freq [OF cf] by (simp add: steady_def counted_def)
  moreover have "fixed w4 = fixed w1" if "7 \<le> unUsedSlots w"
  proof -
    have "unUsedSlots c = unUsedSlots w1" using cf by (rule check_freq_frame) simp
    with open_list_size(2) [OF o] that gr have "g1 = c" by (auto simp: not_less [symmetric] split: if_splits)
    with w4 fixed_check_freq [OF cf] show ?thesis by simp
  qed
  moreover have "fixed w' = fixed w3" using fl by (auto split: if_splits dest!: fixed_memset)
  ultimately show thesis using that o cl by blast
qed

lemma allocate_with_block:
  assumes "allocate_with grow pf al usz below fb prot alloc fail pos w = Inr (u, w')"
  shows "allocList w \<noteq> 0" "w' = count_alloc usz pos w \<or>
    allocate_block grow pf al usz below fb prot alloc fail pos (count_alloc usz pos w) = Inr (u, w')"
  using assms by (auto simp: allocate_with_def Let_def split: if_splits DUMA_AllocStd.splits)

lemma steady_allocate_with:
  assumes "allocate_with grow pf al usz below fb False alloc fail pos w = Inr (u, w')"
    and "\<And>v v'. grow v = Inr v' \<Longrightarrow> steady v' = steady v"
  shows "steady w' = steady w"
  using allocate_with_block(2) [OF assms(1)]
proof
  assume "allocate_block grow pf al usz below fb False alloc fail pos (count_alloc usz pos w) = Inr (u, w')"
  then show ?thesis
    by (rule allocate_block_steps [OF _ assms(2)]) (auto simp: open_list_def close_list_def steady_def counted_def fixed_count)
qed (simp add: steady_def counted_def fixed_count)

lemma steady_grow: "allocateMoreSlots pf w = Inr w' \<Longrightarrow> steady w' = steady w"
proof -
  have upd: "steady (v\<lparr>allocList := a, allocListSize := n, slots := ss, unUsedSlots := k\<rparr>) = steady v" for v a n ss k
    by (simp add: mask_defs)
  assume "allocateMoreSlots pf w = Inr w'"
  then show ?thesis
    by (auto simp: allocateMoreSlots_def Let_def outcome_simps upd split: if_splits
        dest!: steady_allocate_with steady_fixed [OF fixed_touch] steady_deallocate)
qed

lemma duma_allocate_config:
  assumes a: "duma_allocate pf al usz below fb prot alloc fail pos w = Inr (u, w')"
  shows "config w' = config w" and "\<not> prot \<Longrightarrow> steady w' = steady w"
    and "sem_inv pf (sem_view w) \<Longrightarrow> sem_view w' = sem_view w"
proof -
  show st: "\<not> prot \<Longrightarrow> steady w' = steady w"
    using a steady_allocate_with steady_grow by (simp add: duma_allocate_def)
  have c: "config (count_alloc usz pos w) = config w" "sem_view (count_alloc usz pos w) = sem_view w"
    by (rule config_fixed sem_view_steady [OF steady_fixed], rule fixed_count)+
  from allocate_with_block(2) [OF a [unfolded duma_allocate_def]]
  have "config w' = config w \<and> (sem_inv pf (sem_view w) \<longrightarrow> sem_view w' = sem_view w)"
  proof
    assume b: "allocate_block (allocateMoreSlots pf) pf al usz below fb prot alloc fail pos (count_alloc usz pos w) = Inr (u, w')"
    show ?thesis
    proof (rule allocate_block_steps [OF b steady_grow])
      fix w1 w2 w3 assume o: "open_list pf prot (count_alloc usz pos w) = Inr w1" and s: "steady w2 = steady w1"
        and cl: "close_list pf prot w2 = Inr w3" and s3: "fixed w' = fixed w3"
      have "config w' = config w"
        using c(1) config_open [OF o] config_steady [OF s] config_close [OF cl] config_fixed [OF s3] by simp
      moreover have "sem_view w' = sem_view w" if inv: "sem_inv pf (sem_view w)"
      proof (cases prot)
        case False
        with st show ?thesis by (intro sem_view_steady) simp
      next
        case True
        let ?body = "\<lambda>v. if v = w1 then Inr w2 else Inl Blocked"
        from o cl True have "and_then (open_list pf True (count_alloc usz pos w)) (\<lambda>v. and_then (?body v) (close_list pf True)) = Inr w3" by simp
        then have "sem_view w3 = sem_view (count_alloc usz pos w)"
        proof (rule bracket_sem_view)
          show "sem_inv pf (sem_view (count_alloc usz pos w))" using inv by (simp only: c(2))
          fix v v' assume "?body v = Inr v'"
          then have "v = w1" "v' = w2" by (simp_all split: if_splits)
          with sem_view_steady [OF s] show "sem_view v' = sem_view v" by simp
        qed
        with c(2) sem_view_steady [OF steady_fixed [OF s3]] show ?thesis by simp
      qed
      ultimately show ?thesis by blast
    qed
  qed (use c in simp)
  then show "config w' = config w" "sem_inv pf (sem_view w) \<Longrightarrow> sem_view w' = sem_view w" by simp_all
qed

text \<open>As long as there are enough empty slots, the slot array does not grow, and nothing is freed.\<close>

lemma duma_allocate_no_growth:
  assumes a: "duma_allocate pf al usz below fb prot alloc fail pos w = Inr (u, w')" and n: "7 \<le> unUsedSlots w"
  shows "allocListSize w' = allocListSize w \<and> numDeallocs w' = numDeallocs w"
proof -
  have c: "allocListSize (count_alloc usz pos w) = allocListSize w" "unUsedSlots (count_alloc usz pos w) = unUsedSlots w"
    "numDeallocs (count_alloc usz pos w) = numDeallocs w"
    by (simp_all add: count_alloc_def Let_def DUMA_Print_def)
  from allocate_with_block(2) [OF a [unfolded duma_allocate_def]] show ?thesis
  proof
    assume b: "allocate_block (allocateMoreSlots pf) pf al usz below fb prot alloc fail pos (count_alloc usz pos w) = Inr (u, w')"
    show ?thesis
    proof (rule allocate_block_steps [OF b steady_grow])
      fix w1 w2 w3 assume "open_list pf prot (count_alloc usz pos w) = Inr w1"
        and "7 \<le> unUsedSlots (count_alloc usz pos w) \<Longrightarrow> fixed w2 = fixed w1"
        and "close_list pf prot w2 = Inr w3" and "fixed w' = fixed w3"
      with n c show ?thesis
        using allocListSize_fixed open_list_size(1,3) close_list_size by metis
    qed
  qed (simp add: c)
qed

text \<open>An allocation changes none of the settings and none of the addresses fixed at start-up, and it
  leaves the lock as it found it.\<close>

theorem allocate_frame:
  assumes "duma_allocate pf al usz below fb prot alloc fail pos w = Inr (u, w')" and "sem_inv pf (sem_view w)"
  shows "config w' = config w \<and> sem_view w' = sem_view w"
  using duma_allocate_config [OF assms(1)] assms(2) by simp

theorem allocate_frame_witness:
  "\<exists>w'. duma_allocate sample_pf 0 4096 False (- 1) True EFA_MALLOC DUMA_FAIL_ENV (Some ''t.c'', 5) (sample_world NoAccess)
      = Inr (0x10010000, w') \<and> sem_view w' = sem_view (sample_world NoAccess)"
proof -
  obtain w' where w': "duma_allocate sample_pf 0 4096 False (- 1) True EFA_MALLOC DUMA_FAIL_ENV
      (Some ''t.c'', 5) (sample_world NoAccess) = Inr (0x10010000, w')"
    using sample_malloc [of False] by auto
  from allocate_frame [OF w' sample_sem] w' show ?thesis by simp
qed

end
