(* ===== verification/Duma_String.thy ===== *)
theory Duma_String
  imports Duma_Sample
begin

text \<open>
  The string functions of \<open>src/duma.c\<close>: \<open>_duma_memcpy\<close>, \<open>_duma_memmove\<close>, \<open>_duma_strnlen\<close>,
  \<open>_duma_strcpy\<close>, \<open>_duma_strncpy\<close>, \<open>_duma_strcat\<close> and \<open>_duma_strncat\<close>.

  Several copying loops count with an \<open>unsigned\<close> index up to a \<open>size_t\<close> bound, so they need
  not end; these are partial functions whose value is \<open>None\<close> when they do not.  The other
  loops have termination proofs.
\<close>

section \<open>Loops\<close>

text \<open>The value of a loop that may run forever.\<close>

fun run :: "(stop + 'b) option \<Rightarrow> stop + 'b" where
  "run None = Inl Diverges"
| "run (Some r) = r"

text \<open>\<open>while (str[n]) ++n;\<close>, which is also what \<open>strlen\<close> of the C library does.\<close>

partial_function (option) scan_len :: "platform \<Rightarrow> u64 \<Rightarrow> u64 \<Rightarrow> 'a machine_scheme \<Rightarrow> (stop + u64) option" where
  "scan_len pf str n m =
     (case load pf (str + n) m of
        Inl e \<Rightarrow> Some (Inl e)
      | Inr c \<Rightarrow> if c = 0 then Some (Inr n) else scan_len pf str (n + 1) m)"

definition strlen :: "platform \<Rightarrow> u64 \<Rightarrow> 'a machine_scheme \<Rightarrow> stop + u64" where
  "strlen pf str m = run (scan_len pf str 0 m)"

text \<open>\<open>for (; cond(i); ++i) d[i] = s[i];\<close> with an index of any width.\<close>

partial_function (option) copy_up ::
  "platform \<Rightarrow> (u64 \<Rightarrow> bool) \<Rightarrow> u64 \<Rightarrow> u64 \<Rightarrow> 'i::len word \<Rightarrow> 'a machine_scheme \<Rightarrow> (stop + 'a machine_scheme) option"
where
  "copy_up pf P d s i m =
     (if P (ucast i) then
        case load pf (s + ucast i) m of
          Inl e \<Rightarrow> Some (Inl e)
        | Inr c \<Rightarrow> (case store pf (d + ucast i) c m of
              Inl e \<Rightarrow> Some (Inl e)
            | Inr m \<Rightarrow> copy_up pf P d s (i + 1) m)
      else Some (Inr m))"

text \<open>\<open>while (s < end) *d++ = *s++;\<close> and \<open>while (s > src) *--d = *--s;\<close>\<close>

function move_up :: "platform \<Rightarrow> u64 \<Rightarrow> u64 \<Rightarrow> u64 \<Rightarrow> 'a machine_scheme \<Rightarrow> stop + 'a machine_scheme" where
  "move_up pf d s e m =
     (if s < e then and_then (load pf s m) (\<lambda>c. and_then (store pf d c m) (move_up pf (d + 1) (s + 1) e))
      else Inr m)"
  by pat_completeness auto
termination
  by (relation "measure (\<lambda>(pf, d, s, e, m). unat e - unat s)") (auto simp: succ_unat word_less_nat_alt)

function move_down :: "platform \<Rightarrow> u64 \<Rightarrow> u64 \<Rightarrow> u64 \<Rightarrow> 'a machine_scheme \<Rightarrow> stop + 'a machine_scheme" where
  "move_down pf d s b m =
     (if b < s then
        and_then (load pf (s - 1) m) (\<lambda>c. and_then (store pf (d - 1) c m) (move_down pf (d - 1) (s - 1) b))
      else Inr m)"
  by pat_completeness auto
termination
proof (relation "measure (\<lambda>(pf, d, s, b, m). unat s)")
  fix s b :: u64
  assume "b < s"
  then have "s \<noteq> 0" by auto
  then have "unat (s - 1) < unat s" by (simp add: unat_minus_one unat_gt_0)
  then show "\<And>pf d m c x. ((pf, d - 1, s - 1, b, x), (pf, d, s, b, m)) \<in> measure (\<lambda>(pf, d, s, b, m). unat s)"
    by simp
qed simp

function strnlen_from :: "platform \<Rightarrow> u64 \<Rightarrow> u64 \<Rightarrow> u64 \<Rightarrow> 'a machine_scheme \<Rightarrow> stop + u64" where
  "strnlen_from pf src sz len m =
     (if len < sz then and_then (load pf (src + len) m) (\<lambda>c. if c = 0 then Inr len else strnlen_from pf src sz (len + 1) m)
      else Inr len)"
  by pat_completeness auto
termination
  by (relation "measure (\<lambda>(pf, src, sz, len, m). unat sz - unat len)") (auto simp: succ_unat word_less_nat_alt)

text \<open>\<open>for (i = 0; i < size && src[i]; ++i) dest[i] = src[i];\<close> returns the final \<open>i\<close>.\<close>

function strncpy_from ::
  "platform \<Rightarrow> u64 \<Rightarrow> u64 \<Rightarrow> u64 \<Rightarrow> u64 \<Rightarrow> 'a machine_scheme \<Rightarrow> stop + u64 \<times> 'a machine_scheme" where
  "strncpy_from pf d s sz i m =
     (if i < sz then and_then (load pf (s + i) m) (\<lambda>c.
        if c = 0 then Inr (i, m)
        else and_then (store pf (d + i) c m) (strncpy_from pf d s sz (i + 1)))
      else Inr (i, m))"
  by pat_completeness auto
termination
  by (relation "measure (\<lambda>(pf, d, s, sz, i, m). unat sz - unat i)") (auto simp: succ_unat word_less_nat_alt)

text \<open>\<open>for (; i < size; ++i) dest[i] = 0;\<close>\<close>

function zero_from :: "platform \<Rightarrow> u64 \<Rightarrow> u64 \<Rightarrow> u64 \<Rightarrow> 'a machine_scheme \<Rightarrow> stop + 'a machine_scheme" where
  "zero_from pf d sz i m =
     (if i < sz then and_then (store pf (d + i) 0 m) (zero_from pf d sz (i + 1)) else Inr m)"
  by pat_completeness auto
termination
  by (relation "measure (\<lambda>(pf, d, sz, i, m). unat sz - unat i)") (auto simp: succ_unat word_less_nat_alt)

declare move_up.simps [simp del] move_down.simps [simp del] strnlen_from.simps [simp del]
  strncpy_from.simps [simp del] zero_from.simps [simp del]

section \<open>The functions\<close>

definition duma_memcpy :: "platform \<Rightarrow> u64 \<Rightarrow> u64 \<Rightarrow> u64 \<Rightarrow> src_pos \<Rightarrow> world \<Rightarrow> stop + u64 \<times> world" where
  "duma_memcpy pf d s sz pos w =
     (if s < d \<and> d < s + sz \<or> d < s \<and> s < d + sz \<and> \<not> MEMCPY_OVERLAP w
      then Inl (Aborted (Memcpy_overlap d s sz pos))
      else and_then (run (copy_up pf (\<lambda>i. i < sz) d s (0 :: u32) w)) (\<lambda>w. Inr (d, w)))"

definition duma_memmove :: "platform \<Rightarrow> u64 \<Rightarrow> u64 \<Rightarrow> u64 \<Rightarrow> world \<Rightarrow> stop + u64 \<times> world" where
  "duma_memmove pf d s sz w =
     and_then (if d < s then move_up pf d s (s + sz) w else move_down pf (d + sz) (s + sz) s w)
       (\<lambda>w. Inr (d, w))"

definition duma_strnlen :: "platform \<Rightarrow> u64 \<Rightarrow> u64 \<Rightarrow> world \<Rightarrow> stop + u64" where
  "duma_strnlen pf src sz w = strnlen_from pf src sz 0 w"

definition duma_strcpy :: "platform \<Rightarrow> u64 \<Rightarrow> u64 \<Rightarrow> src_pos \<Rightarrow> world \<Rightarrow> stop + u64 \<times> world" where
  "duma_strcpy pf d s pos w =
     and_then (strlen pf s w) (\<lambda>len.
     let sz = len + 1 in
     if s < d \<and> d < s + sz then Inl (Aborted (Strcpy_overlap d s pos))
     else and_then (run (copy_up pf (\<lambda>i. i < sz) d s (0 :: u64) w)) (\<lambda>w. Inr (d, w)))"

definition duma_strncpy :: "platform \<Rightarrow> u64 \<Rightarrow> u64 \<Rightarrow> u64 \<Rightarrow> src_pos \<Rightarrow> world \<Rightarrow> stop + u64 \<times> world" where
  "duma_strncpy pf d s sz pos w =
     and_then (duma_strnlen pf s sz w) (\<lambda>srclen.
     if sz > 0 \<and> (s < d \<and> d < s + srclen \<or> d < s \<and> s < d + sz)
     then Inl (Aborted (Strncpy_overlap d s sz pos))
     else and_then (strncpy_from pf d s sz 0 w) (\<lambda>(i, w).
          and_then (zero_from pf d sz i w) (\<lambda>w. Inr (d, w))))"

definition duma_strcat :: "platform \<Rightarrow> u64 \<Rightarrow> u64 \<Rightarrow> src_pos \<Rightarrow> world \<Rightarrow> stop + u64 \<times> world" where
  "duma_strcat pf d s pos w =
     and_then (strlen pf d w) (\<lambda>destlen.
     and_then (strlen pf s w) (\<lambda>len.
     let srcsize = len + 1 in
     if s < d + destlen \<and> d + destlen < s + srcsize then Inl (Aborted (Strcat_overlap d s pos))
     else and_then (run (copy_up pf (\<lambda>i. i < srcsize) (d + destlen) s (0 :: u32) w)) (\<lambda>w. Inr (d, w))))"

definition duma_strncat :: "platform \<Rightarrow> u64 \<Rightarrow> u64 \<Rightarrow> u64 \<Rightarrow> src_pos \<Rightarrow> world \<Rightarrow> stop + u64 \<times> world" where
  "duma_strncat pf d s sz pos w =
     (if sz \<le> 0 then Inr (d, w) else
      and_then (strlen pf d w) (\<lambda>destlen.
      and_then (duma_strnlen pf s sz w) (\<lambda>srclen.
      if s < d + destlen \<and> d + destlen < s + srclen + 1 then Inl (Aborted (Strncat_overlap d s sz pos))
      else and_then (run (copy_up pf (\<lambda>i. i < srclen) (d + destlen) s (0 :: u32) w)) (\<lambda>w.
           and_then (store pf (d + destlen + srclen) 0 w) (\<lambda>w. Inr (d, w))))))"

section \<open>Ranges of memory\<close>

definition accessible :: "platform \<Rightarrow> 'a machine_scheme \<Rightarrow> u64 \<Rightarrow> nat \<Rightarrow> bool" where
  "accessible pf m a n \<longleftrightarrow> unat a + n < 2 ^ 64 \<and> (\<forall>i < n. perm_at pf m (a + word_of_nat i) = ReadWrite)"

text \<open>The memory after the bytes of \<open>[s, s + n)\<close>, as they were, have been put at \<open>d\<close>, from
  offset \<open>k\<close> on.\<close>

definition moved_bytes :: "nat \<Rightarrow> u64 \<Rightarrow> u64 \<Rightarrow> nat \<Rightarrow> (u64 \<Rightarrow> u8) \<Rightarrow> u64 \<Rightarrow> u8" where
  "moved_bytes k d s n b x = (if unat d + k \<le> unat x \<and> unat x < unat d + n then b (s + (x - d)) else b x)"

definition copied_from :: "nat \<Rightarrow> u64 \<Rightarrow> u64 \<Rightarrow> nat \<Rightarrow> 'a machine_scheme \<Rightarrow> 'a machine_scheme" where
  "copied_from k d s n m = m\<lparr>bytes := moved_bytes k d s n (bytes m)\<rparr>"

abbreviation copied :: "u64 \<Rightarrow> u64 \<Rightarrow> nat \<Rightarrow> 'a machine_scheme \<Rightarrow> 'a machine_scheme" where
  "copied \<equiv> copied_from 0"

lemma unat_offset: "unat (a :: u64) + i < 2 ^ 64 \<Longrightarrow> unat (a + word_of_nat i) = unat a + i"
  by (subst unat_add_no_wrap) (simp_all add: unat_word_of_nat)

lemma accessible_load: "accessible pf m a n \<Longrightarrow> i < n \<Longrightarrow> load pf (a + word_of_nat i) m = Inr (bytes m (a + word_of_nat i))"
  by (simp add: accessible_def load_def)

lemma accessible_store:
  "accessible pf m a n \<Longrightarrow> i < n \<Longrightarrow>
   store pf (a + word_of_nat i) c m = Inr (m\<lparr>bytes := (bytes m)(a + word_of_nat i := c)\<rparr>)"
  by (simp add: accessible_def store_def)

lemma accessible_bytes [frame_simps]: "accessible pf (m\<lparr>bytes := b\<rparr>) a n = accessible pf m a n"
  by (simp add: accessible_def frame_simps)

lemma accessible_mono: "accessible pf m a n \<Longrightarrow> k \<le> n \<Longrightarrow> accessible pf m a k"
  by (auto simp: accessible_def)

lemma accessible_shift: "accessible pf m a (k + n) \<Longrightarrow> accessible pf m (a + word_of_nat k) n"
  by (auto simp: accessible_def unat_offset ac_simps of_nat_add [symmetric] simp del: of_nat_add)

lemma copied_from_done: "n \<le> k \<Longrightarrow> copied_from k d s n m = m"
proof -
  assume "n \<le> k"
  then have "moved_bytes k d s n (bytes m) = bytes m" by (intro ext) (auto simp: moved_bytes_def)
  then show ?thesis by (simp add: copied_from_def)
qed

text \<open>One step of a forward copy that is safe: what it overwrites is not read later.\<close>

lemma moved_bytes_step:
  assumes k: "k < n" and d: "unat d + n < 2 ^ 64" and s: "unat s + n < 2 ^ 64"
    and safe: "unat d \<le> unat s \<or> unat s + n \<le> unat d"
  shows "moved_bytes (Suc k) d s n (b(d + word_of_nat k := b (s + word_of_nat k))) = moved_bytes k d s n b"
proof
  fix x
  let ?b = "b(d + word_of_nat k := b (s + word_of_nat k))"
  have uk: "unat (d + word_of_nat k) = unat d + k" "unat (s + word_of_nat k) = unat s + k"
    using k d s by (simp_all add: unat_offset)
  show "moved_bytes (Suc k) d s n ?b x = moved_bytes k d s n b x"
  proof (cases "x = d + word_of_nat k")
    case True
    with uk k show ?thesis by (simp add: moved_bytes_def)
  next
    case False
    then have "unat x \<noteq> unat d + k" using uk(1) by (metis word_unat_eq_iff)
    then have eq: "unat d + Suc k \<le> unat x \<longleftrightarrow> unat d + k \<le> unat x" by arith
    have "s + (x - d) \<noteq> d + word_of_nat k" if x: "unat d + Suc k \<le> unat x" "unat x < unat d + n"
    proof -
      have "unat (x - d) = unat x - unat d" using x by (simp add: unat_sub word_le_nat_alt)
      then have "unat (s + (x - d)) = unat s + (unat x - unat d)"
        using x s by (subst unat_add_no_wrap) simp_all
      then have "unat (s + (x - d)) \<noteq> unat d + k" using x k safe by auto
      with uk(1) show ?thesis by metis
    qed
    with False eq show ?thesis by (auto simp only: moved_bytes_def fun_upd_apply split: if_splits)
  qed
qed

lemma copied_from_step:
  assumes "k < n" and "unat d + n < 2 ^ 64" and "unat s + n < 2 ^ 64"
    and "unat d \<le> unat s \<or> unat s + n \<le> unat d"
  shows "copied_from (Suc k) d s n (m\<lparr>bytes := (bytes m)(d + word_of_nat k := bytes m (s + word_of_nat k))\<rparr>)
    = copied_from k d s n m"
  using moved_bytes_step [OF assms, of "bytes m"] by (simp add: copied_from_def del: fun_upd_apply)

text \<open>The copying loop.\<close>

lemma copy_up_from:
  fixes i :: "'i::len word"
  assumes "accessible pf m s n" and "accessible pf m d n"
    and "unat d \<le> unat s \<or> unat s + n \<le> unat d"
    and "n < 2 ^ LENGTH('i)" and "unat i \<le> n"
  shows "copy_up pf (\<lambda>j. j < word_of_nat n) d s i m = Some (Inr (copied_from (unat i) d s n m))"
  using assms
proof (induction "n - unat i" arbitrary: i m)
  case (0 i m)
  then have i: "unat i = n" by simp
  have "n < 2 ^ 64" using 0(2) by (simp add: accessible_def)
  with i have "\<not> ucast i < (word_of_nat n :: u64)" by (simp add: unsigned_ucast_eq word_less_nat_alt unat_word_of_nat take_bit_nat_eq_self)
  with i show ?case by (subst copy_up.simps) (simp add: copied_from_done)
next
  case (Suc k i m)
  let ?i = "unat i"
  have n: "n < 2 ^ 64" using Suc.prems(1) by (simp add: accessible_def)
  from Suc.hyps(2) have lt: "?i < n" by simp
  have uc: "ucast i = (word_of_nat ?i :: u64)" by simp
  have c: "(ucast i :: u64) < word_of_nat n"
    using lt n by (simp add: unsigned_ucast_eq word_less_nat_alt unat_word_of_nat take_bit_nat_eq_self)
  let ?m1 = "m\<lparr>bytes := (bytes m)(d + word_of_nat ?i := bytes m (s + word_of_nat ?i))\<rparr>"
  have si: "unat (i + 1) = Suc ?i" using lt Suc.prems(4) by (subst unat_add_no_wrap) simp_all
  have "copy_up pf (\<lambda>j. j < word_of_nat n) d s (i + 1) ?m1 = Some (Inr (copied_from (unat (i + 1)) d s n ?m1))"
    using Suc.prems Suc.hyps(2) lt by (intro Suc.hyps(1)) (simp_all add: si frame_simps)
  also have "copied_from (unat (i + 1)) d s n ?m1 = copied_from ?i d s n m"
    unfolding si using Suc.prems lt by (intro copied_from_step) (simp_all add: accessible_def)
  finally have "copy_up pf (\<lambda>j. j < word_of_nat n) d s (i + 1) ?m1 = Some (Inr (copied_from ?i d s n m))" .
  moreover have "copy_up pf (\<lambda>j. j < word_of_nat n) d s i m = copy_up pf (\<lambda>j. j < word_of_nat n) d s (i + 1) ?m1"
    using c accessible_load [OF Suc.prems(1) lt] accessible_store [OF Suc.prems(2) lt]
    by (subst copy_up.simps) (simp only: uc if_True sum.case)
  ultimately show ?case by (simp only:)
qed

text \<open>With an index that never reaches the bound the loop does not return.\<close>

lemma copy_up_stuck:
  assumes "copy_up pf P d s (i :: 'i::len word) m = Some r" and "\<And>j :: 'i word. P (ucast j)"
  shows "\<exists>e. r = Inl e"
proof -
  let ?Q = "\<lambda>(((((pf, P), d), s), i), m) r. (\<forall>j :: 'i word. P (ucast j)) \<longrightarrow> (\<exists>e. r = Inl e)"
  have "?Q (((((pf, P), d), s), i), m) r"
  proof (rule copy_up.raw_induct [OF _ assms(1)])
    fix cu pf P d s m r and i :: "'i word"
    assume IH: "\<And>pf P d s (i :: 'i word) m r. cu pf P d s i m = Some r \<Longrightarrow> ?Q (((((pf, P), d), s), i), m) r"
      and step: "(if P (ucast i) then
        case load pf (s + ucast i) m of
          Inl e \<Rightarrow> Some (Inl e)
        | Inr c \<Rightarrow> (case store pf (d + ucast i) c m of
              Inl e \<Rightarrow> Some (Inl e)
            | Inr m \<Rightarrow> cu pf P d s (i + 1) m)
      else Some (Inr m)) = Some r"
    show "?Q (((((pf, P), d), s), i), m) r"
    proof (simp only: prod.case, rule impI)
      assume all: "\<forall>j :: 'i word. P (ucast j)"
      show "\<exists>e. r = Inl e"
      proof (cases "load pf (s + ucast i) m")
        case (Inr c)
        show ?thesis
        proof (cases "store pf (d + ucast i) c m")
          case (Inr m')
          with step all \<open>load pf (s + ucast i) m = Inr c\<close> have "cu pf P d s (i + 1) m' = Some r" by simp
          from IH [OF this] all show ?thesis by simp
        next
          case (Inl e)
          with step all \<open>load pf (s + ucast i) m = Inr c\<close> show ?thesis by simp blast
        qed
      next
        case (Inl e)
        with step all show ?thesis by simp blast
      qed
    qed
  qed
  with assms(2) show ?thesis by simp
qed

section \<open>Moving\<close>

lemma move_up_from:
  assumes "accessible pf m s n" and "accessible pf m d n" and "unat d \<le> unat s" and "k \<le> n"
  shows "move_up pf (d + word_of_nat k) (s + word_of_nat k) (s + word_of_nat n) m = Inr (copied_from k d s n m)"
  using assms
proof (induction "n - k" arbitrary: k m)
  case (0 k m)
  then have "k = n" by simp
  then show ?case by (subst move_up.simps) (simp add: copied_from_done)
next
  case (Suc l k m)
  then have k: "k < n" by simp
  let ?m1 = "m\<lparr>bytes := (bytes m)(d + word_of_nat k := bytes m (s + word_of_nat k))\<rparr>"
  have "move_up pf (d + word_of_nat (Suc k)) (s + word_of_nat (Suc k)) (s + word_of_nat n) ?m1
      = Inr (copied_from (Suc k) d s n ?m1)"
    using Suc.prems Suc.hyps(2) k by (intro Suc.hyps(1)) (simp_all add: frame_simps)
  also have "copied_from (Suc k) d s n ?m1 = copied_from k d s n m"
    using Suc.prems k by (intro copied_from_step) (simp_all add: accessible_def)
  finally have r: "move_up pf (d + word_of_nat k + 1) (s + word_of_nat k + 1) (s + word_of_nat n) ?m1
      = Inr (copied_from k d s n m)" by (simp add: ac_simps del: fun_upd_apply)
  have "s + word_of_nat k < s + word_of_nat n"
    using k Suc.prems(1) by (simp add: accessible_def word_less_nat_alt unat_offset)
  then have "move_up pf (d + word_of_nat k) (s + word_of_nat k) (s + word_of_nat n) m =
      move_up pf (d + word_of_nat k + 1) (s + word_of_nat k + 1) (s + word_of_nat n) ?m1"
    using accessible_load [OF Suc.prems(1) k] accessible_store [OF Suc.prems(2) k]
    by (subst move_up.simps) (simp only: if_True and_then.simps)
  with r show ?case by (simp only:)
qed

lemma moved_bytes_down:
  assumes d: "unat d + Suc k < 2 ^ 64" and s: "unat s + Suc k < 2 ^ 64" and safe: "unat s \<le> unat d"
  shows "moved_bytes 0 d s k (b(d + word_of_nat k := b (s + word_of_nat k))) = moved_bytes 0 d s (Suc k) b"
proof
  fix x
  have uk: "unat (d + word_of_nat k) = unat d + k" using d by (simp add: unat_offset)
  show "moved_bytes 0 d s k (b(d + word_of_nat k := b (s + word_of_nat k))) x = moved_bytes 0 d s (Suc k) b x"
  proof (cases "x = d + word_of_nat k")
    case True
    with uk show ?thesis by (simp add: moved_bytes_def)
  next
    case False
    then have "unat x \<noteq> unat d + k" using uk by (metis word_unat_eq_iff)
    then have eq: "unat x < unat d + Suc k \<longleftrightarrow> unat x < unat d + k" by arith
    have "s + (x - d) \<noteq> d + word_of_nat k" if x: "unat d \<le> unat x" "unat x < unat d + k"
    proof -
      have "unat (x - d) = unat x - unat d" using x by (simp add: unat_sub word_le_nat_alt)
      then have "unat (s + (x - d)) = unat s + (unat x - unat d)"
        using x s by (subst unat_add_no_wrap) simp_all
      then have "unat (s + (x - d)) \<noteq> unat d + k" using x safe by arith
      with uk show ?thesis by metis
    qed
    with False eq show ?thesis by (auto simp only: moved_bytes_def fun_upd_apply add_0_right split: if_splits)
  qed
qed

lemma move_down_from:
  assumes "accessible pf m s k" and "accessible pf m d k" and "unat s \<le> unat d"
  shows "move_down pf (d + word_of_nat k) (s + word_of_nat k) s m = Inr (copied d s k m)"
  using assms
proof (induction k arbitrary: m)
  case 0
  then show ?case by (subst move_down.simps) (simp add: copied_from_done)
next
  case (Suc k m)
  let ?m1 = "m\<lparr>bytes := (bytes m)(d + word_of_nat k := bytes m (s + word_of_nat k))\<rparr>"
  have "move_down pf (d + word_of_nat k) (s + word_of_nat k) s ?m1 = Inr (copied d s k ?m1)"
    using Suc.prems accessible_mono [of pf m _ "Suc k" k] by (intro Suc.IH) (simp_all add: frame_simps)
  also have "copied d s k ?m1 = copied d s (Suc k) m"
    using Suc.prems moved_bytes_down [of d k s "bytes m"] by (simp add: copied_from_def accessible_def del: fun_upd_apply)
  finally have r: "move_down pf (d + word_of_nat k) (s + word_of_nat k) s ?m1 = Inr (copied d s (Suc k) m)" .
  have "s < s + word_of_nat (Suc k)"
    using Suc.prems(1) unat_offset [of s "Suc k"] by (simp add: accessible_def word_less_nat_alt)
  moreover have "x + word_of_nat (Suc k) - 1 = x + word_of_nat k" for x :: u64 by simp
  ultimately have "move_down pf (d + word_of_nat (Suc k)) (s + word_of_nat (Suc k)) s m =
      move_down pf (d + word_of_nat k) (s + word_of_nat k) s ?m1"
    using accessible_load [OF Suc.prems(1), of k] accessible_store [OF Suc.prems(2), of k]
    by (subst move_down.simps) (simp only: if_True and_then.simps lessI)
  with r show ?case by (simp only:)
qed

section \<open>Strings\<close>

text \<open>The first bytes at \<open>a\<close>, at most \<open>n\<close>, up to a null byte, are \<open>cs\<close>.\<close>

definition string_upto :: "'a machine_scheme \<Rightarrow> u64 \<Rightarrow> nat \<Rightarrow> u8 list \<Rightarrow> bool" where
  "string_upto m a n cs \<longleftrightarrow> length cs \<le> n \<and> 0 \<notin> set cs \<and>
     (\<forall>i < length cs. bytes m (a + word_of_nat i) = cs ! i) \<and>
     (length cs < n \<longrightarrow> bytes m (a + word_of_nat (length cs)) = 0)"

abbreviation string_at :: "'a machine_scheme \<Rightarrow> u64 \<Rightarrow> u8 list \<Rightarrow> bool" where
  "string_at m a cs \<equiv> string_upto m a (Suc (length cs)) cs"

lemma string_nth:
  assumes "string_upto m a n cs" and "k < length cs"
  shows "bytes m (a + word_of_nat k) = cs ! k" "bytes m (a + word_of_nat k) \<noteq> 0" "k < n"
proof -
  show "bytes m (a + word_of_nat k) = cs ! k" "k < n" using assms by (auto simp: string_upto_def)
  moreover have "cs ! k \<in> set cs" "0 \<notin> set cs" using assms by (simp_all add: string_upto_def)
  ultimately show "bytes m (a + word_of_nat k) \<noteq> 0" by metis
qed

lemma copied_at: "unat d + n < 2 ^ 64 \<Longrightarrow> i < n \<Longrightarrow> bytes (copied d s n m) (d + word_of_nat i) = bytes m (s + word_of_nat i)"
  by (simp add: copied_from_def moved_bytes_def unat_offset)

lemma copied_outside: "\<not> (unat d \<le> unat x \<and> unat x < unat d + n) \<Longrightarrow> bytes (copied d s n m) x = bytes m x"
  by (auto simp: copied_from_def moved_bytes_def)

lemma offset_less: "i < n \<Longrightarrow> n < 2 ^ 64 \<Longrightarrow> (word_of_nat i :: u64) < word_of_nat n"
  by (simp add: word_less_nat_alt unat_word_of_nat)

lemma scan_len_ok:
  assumes "string_at m a cs" and "accessible pf m a (Suc (length cs))" and "k \<le> length cs"
  shows "scan_len pf a (word_of_nat k) m = Some (Inr (word_of_nat (length cs)))"
  using assms(3)
proof (induction "length cs - k" arbitrary: k)
  case 0
  then have "k = length cs" by simp
  with assms(1) accessible_load [OF assms(2), of k] show ?case
    by (subst scan_len.simps) (simp add: string_upto_def)
next
  case (Suc l k)
  then have k: "k < length cs" by simp
  from string_nth(2) [OF assms(1) k] have "scan_len pf a (word_of_nat k) m = scan_len pf a (word_of_nat (Suc k)) m"
    using accessible_load [OF assms(2), of k] k by (subst scan_len.simps) (simp add: ac_simps)
  with Suc.hyps(1) [of "Suc k"] Suc.hyps(2) k show ?case by simp
qed

lemma strlen_ok:
  "string_at m a cs \<Longrightarrow> accessible pf m a (Suc (length cs)) \<Longrightarrow> strlen pf a m = Inr (word_of_nat (length cs))"
  using scan_len_ok [of m a cs pf 0] by (simp add: strlen_def)

lemma strnlen_from_ok:
  assumes "string_upto m a n cs" and "accessible pf m a (min n (Suc (length cs)))" and "n < 2 ^ 64"
    and "k \<le> length cs"
  shows "strnlen_from pf a (word_of_nat n) (word_of_nat k) m = Inr (word_of_nat (length cs))"
  using assms(4)
proof (induction "length cs - k" arbitrary: k)
  case 0
  then have k: "k = length cs" by simp
  show ?case
  proof (cases "length cs < n")
    case True
    with assms(1,3) k accessible_load [OF assms(2), of k] offset_less [of k n] show ?thesis
      by (subst strnlen_from.simps) (simp add: string_upto_def)
  next
    case False
    with assms(1) k have "k = n" by (simp add: string_upto_def)
    with k show ?thesis by (subst strnlen_from.simps) simp
  qed
next
  case (Suc l k)
  then have k: "k < length cs" by simp
  from string_nth(2,3) [OF assms(1) k] have "strnlen_from pf a (word_of_nat n) (word_of_nat k) m = strnlen_from pf a (word_of_nat n) (word_of_nat (Suc k)) m"
    using accessible_load [OF assms(2), of k] k assms(3) offset_less [of k n]
    by (subst strnlen_from.simps) (simp add: ac_simps)
  with Suc.hyps(1) [of "Suc k"] Suc.hyps(2) k show ?case by simp
qed

lemma strnlen_ok:
  "string_upto w a (unat n) cs \<Longrightarrow> accessible pf w a (min (unat n) (Suc (length cs))) \<Longrightarrow>
   duma_strnlen pf a n w = Inr (word_of_nat (length cs))"
  using strnlen_from_ok [of w a "unat n" cs pf 0] unat_u64 [of n] by (simp add: duma_strnlen_def)

lemma string_append:
  assumes "string_upto w d n ds" and "0 \<notin> set cs"
    and "\<And>i. i < length ds \<Longrightarrow> bytes w' (d + word_of_nat i) = bytes w (d + word_of_nat i)"
    and "\<And>j. j < length cs \<Longrightarrow> bytes w' (d + word_of_nat (length ds) + word_of_nat j) = cs ! j"
    and "bytes w' (d + word_of_nat (length ds) + word_of_nat (length cs)) = 0"
  shows "string_at w' d (ds @ cs)"
  unfolding string_upto_def
proof (intro conjI allI impI)
  fix i assume i: "i < length (ds @ cs)"
  show "bytes w' (d + word_of_nat i) = (ds @ cs) ! i"
  proof (cases "i < length ds")
    case True
    with assms(3) string_nth(1) [OF assms(1) True] show ?thesis by (simp add: nth_append)
  next
    case False
    then obtain j where "i = length ds + j" "j < length cs" using i by (auto simp: not_less le_iff_add)
    with assms(4) show ?thesis by (simp add: nth_append ac_simps)
  qed
qed (use assms(1,2,5) in \<open>auto simp: string_upto_def ac_simps\<close>)

text \<open>The loops of \<open>strncpy\<close>.\<close>

definition no_overlap :: "u64 \<Rightarrow> nat \<Rightarrow> u64 \<Rightarrow> nat \<Rightarrow> bool" where
  "no_overlap a n b k \<longleftrightarrow> unat a + n \<le> unat b \<or> unat b + k \<le> unat a"

lemma string_upto_update:
  assumes "string_upto m a n cs" and "\<And>i. i < min n (Suc (length cs)) \<Longrightarrow> y \<noteq> a + word_of_nat i"
  shows "string_upto (m\<lparr>bytes := (bytes m)(y := c)\<rparr>) a n cs"
proof -
  have "a + word_of_nat i \<noteq> y" if "i < min n (Suc (length cs))" for i
    using assms(2) [OF that] by metis
  with assms(1) show ?thesis by (simp add: string_upto_def)
qed

lemma strncpy_from_ok:
  assumes "string_upto m s n cs" and "accessible pf m s (min n (Suc (length cs)))" and "accessible pf m d n"
    and "no_overlap s (min n (Suc (length cs))) d n" and "k \<le> length cs"
  shows "strncpy_from pf d s (word_of_nat n) (word_of_nat k) m
    = Inr (word_of_nat (length cs), copied_from k d s (length cs) m)"
  using assms
proof (induction "length cs - k" arbitrary: k m)
  case (0 k m)
  then have k: "k = length cs" by simp
  have n: "n < 2 ^ 64" using 0(4) by (simp add: accessible_def)
  show ?case
  proof (cases "length cs < n")
    case True
    with 0(2) k n accessible_load [OF 0(3), of k] offset_less [of k n] show ?thesis
      by (subst strncpy_from.simps) (simp add: string_upto_def copied_from_done)
  next
    case False
    with 0(2) k have "k = n" by (simp add: string_upto_def)
    with k show ?thesis by (subst strncpy_from.simps) (simp add: copied_from_done)
  qed
next
  case (Suc l k m)
  then have k: "k < length cs" by simp
  have n: "n < 2 ^ 64" using Suc.prems(3) by (simp add: accessible_def)
  note nz = string_nth(2) [OF Suc.prems(1) k] and kn = string_nth(3) [OF Suc.prems(1) k]
  have cs: "length cs \<le> n" using Suc.prems(1) by (simp add: string_upto_def)
  have kl: "k < min n (Suc (length cs))" using k kn by simp
  let ?m1 = "m\<lparr>bytes := (bytes m)(d + word_of_nat k := bytes m (s + word_of_nat k))\<rparr>"
  have "string_upto ?m1 s n cs"
  proof (rule string_upto_update [OF Suc.prems(1)])
    fix i assume i: "i < min n (Suc (length cs))"
    have "unat (s + word_of_nat i) = unat s + i" "unat (d + word_of_nat k) = unat d + k"
      using Suc.prems(2,3) i kn by (auto simp: accessible_def unat_offset)
    with Suc.prems(4) i kn show "d + word_of_nat k \<noteq> s + word_of_nat i"
      by (auto simp: no_overlap_def)
  qed
  then have "strncpy_from pf d s (word_of_nat n) (word_of_nat (Suc k)) ?m1
      = Inr (word_of_nat (length cs), copied_from (Suc k) d s (length cs) ?m1)"
    using Suc.prems Suc.hyps(2) k by (intro Suc.hyps(1)) (simp_all add: frame_simps)
  also have "copied_from (Suc k) d s (length cs) ?m1 = copied_from k d s (length cs) m"
    using Suc.prems k cs by (intro copied_from_step) (auto simp: accessible_def no_overlap_def)
  finally have r: "strncpy_from pf d s (word_of_nat n) (word_of_nat k + 1) ?m1
      = Inr (word_of_nat (length cs), copied_from k d s (length cs) m)" by (simp add: ac_simps del: fun_upd_apply)
  have "strncpy_from pf d s (word_of_nat n) (word_of_nat k) m = strncpy_from pf d s (word_of_nat n) (word_of_nat k + 1) ?m1"
    using accessible_load [OF Suc.prems(2) kl] accessible_store [OF Suc.prems(3) kn] nz offset_less [OF kn n]
    by (subst strncpy_from.simps) (simp only: if_True if_False and_then.simps)
  with r show ?case by (simp only:)
qed

lemma zero_from_ok:
  assumes "accessible pf m d n" and "k \<le> n"
  shows "zero_from pf d (word_of_nat n) (word_of_nat k) m =
    Inr (m\<lparr>bytes := (\<lambda>x. if unat d + k \<le> unat x \<and> unat x < unat d + n then 0 else bytes m x)\<rparr>)"
  using assms
proof (induction "n - k" arbitrary: k m)
  case (0 k m)
  then have "k = n" by simp
  moreover have "(\<lambda>x. if unat d + n \<le> unat x \<and> unat x < unat d + n then 0 else bytes m x) = bytes m"
    by (intro ext) auto
  ultimately show ?case by (subst zero_from.simps) simp
next
  case (Suc l k m)
  then have k: "k < n" by simp
  have n: "n < 2 ^ 64" and u: "unat (d + word_of_nat k) = unat d + k"
    using Suc.prems k by (simp_all add: accessible_def unat_offset)
  let ?m1 = "m\<lparr>bytes := (bytes m)(d + word_of_nat k := 0)\<rparr>"
  have r: "zero_from pf d (word_of_nat n) (word_of_nat (Suc k)) ?m1 =
      Inr (?m1\<lparr>bytes := (\<lambda>x. if unat d + Suc k \<le> unat x \<and> unat x < unat d + n then 0 else bytes ?m1 x)\<rparr>)"
    using Suc.prems Suc.hyps(2) k by (intro Suc.hyps(1)) (simp_all add: frame_simps)
  have "(\<lambda>x. if unat d + Suc k \<le> unat x \<and> unat x < unat d + n then 0 else bytes ?m1 x)
      = (\<lambda>x. if unat d + k \<le> unat x \<and> unat x < unat d + n then 0 else bytes m x)"
  proof
    fix x
    have "x = d + word_of_nat k \<longleftrightarrow> unat x = unat d + k" using u by (metis word_unat_eq_iff)
    then show "(if unat d + Suc k \<le> unat x \<and> unat x < unat d + n then 0 else bytes ?m1 x)
        = (if unat d + k \<le> unat x \<and> unat x < unat d + n then 0 else bytes m x)" using k by auto
  qed
  with r have "zero_from pf d (word_of_nat n) (word_of_nat k + 1) ?m1 =
      Inr (m\<lparr>bytes := (\<lambda>x. if unat d + k \<le> unat x \<and> unat x < unat d + n then 0 else bytes m x)\<rparr>)"
    by (simp add: ac_simps del: fun_upd_apply)
  then show ?case using accessible_store [OF Suc.prems(1) k] offset_less [OF k n]
    by (subst zero_from.simps) (simp only: if_True and_then.simps)
qed

section \<open>Properties\<close>

definition overlapping :: "u64 \<Rightarrow> u64 \<Rightarrow> nat \<Rightarrow> bool \<Rightarrow> bool" where
  "overlapping d s n forward_ok \<longleftrightarrow>
     unat s < unat d \<and> unat d < unat s + n \<or> unat d < unat s \<and> unat s < unat d + n \<and> \<not> forward_ok"

lemma overlap_iff: "unat a + unat n < 2 ^ 64 \<Longrightarrow> b < a + n \<longleftrightarrow> unat b < unat a + unat n" for a b n :: u64
  by (simp add: word_less_nat_alt unat_add_no_wrap)

lemma overlap_offset_iff: "unat (a :: u64) + n < 2 ^ 64 \<Longrightarrow> b < a + word_of_nat n \<longleftrightarrow> unat b < unat a + n"
  by (simp add: word_less_nat_alt unat_offset)

text \<open>C27: \<open>memcpy\<close> of less than four gigabytes stops the program exactly when the regions overlap (in the
  harmless direction only while \<open>DUMA_MEMCPY_OVERLAP\<close> is off), and otherwise copies every
  byte as it was before the call and changes nothing else.\<close>

theorem memcpy_correct:
  assumes "accessible pf w s (unat n)" and "accessible pf w d (unat n)" and "unat n < 2 ^ 32"
  shows "duma_memcpy pf d s n pos w =
    (if overlapping d s (unat n) (MEMCPY_OVERLAP w) then Inl (Aborted (Memcpy_overlap d s n pos))
     else Inr (d, copied d s (unat n) w))"
proof -
  have nw: "unat s + unat n < 2 ^ 64" "unat d + unat n < 2 ^ 64" using assms by (simp_all add: accessible_def)
  have c: "s < d \<and> d < s + n \<or> d < s \<and> s < d + n \<and> \<not> MEMCPY_OVERLAP w \<longleftrightarrow> overlapping d s (unat n) (MEMCPY_OVERLAP w)"
    unfolding overlapping_def overlap_iff [OF nw(1)] overlap_iff [OF nw(2)] unfolding word_less_nat_alt by (rule refl)
  have "copy_up pf (\<lambda>i. i < n) d s (0 :: u32) w = Some (Inr (copied d s (unat n) w))"
    if "\<not> overlapping d s (unat n) (MEMCPY_OVERLAP w)"
  proof -
    have "unat d \<le> unat s \<or> unat s + unat n \<le> unat d" using that by (auto simp: overlapping_def)
    from copy_up_from [OF assms(1,2) this, of "0 :: u32"] assms(3) show ?thesis by simp
  qed
  with c show ?thesis by (simp add: duma_memcpy_def)
qed

text \<open>C29: \<open>memcpy\<close> of four gigabytes or more never returns: its loop counts with an \<open>unsigned\<close>.\<close>

theorem memcpy_large_never_returns:
  assumes "2 ^ 32 \<le> unat n"
  shows "duma_memcpy pf d s n pos w \<noteq> Inr r"
proof
  assume a: "duma_memcpy pf d s n pos w = Inr r"
  then obtain w' where "run (copy_up pf (\<lambda>i. i < n) d s (0 :: u32) w) = Inr w'"
    by (auto simp: duma_memcpy_def outcome_simps split: if_splits)
  then have c: "copy_up pf (\<lambda>i. i < n) d s (0 :: u32) w = Some (Inr w')"
    by (cases "copy_up pf (\<lambda>i. i < n) d s (0 :: u32) w") simp_all
  have "ucast j < n" for j :: u32
  proof -
    have "unat j < 2 ^ 32" using unsigned_less [of j] by simp
    then show ?thesis using assms by (simp add: word_less_nat_alt unsigned_ucast_eq take_bit_nat_eq_self)
  qed
  from copy_up_stuck [OF c this] show False by simp
qed

text \<open>C28: \<open>memmove\<close> moves the bytes as they were before the call, however the regions overlap.\<close>

theorem memmove_correct:
  assumes "accessible pf w s (unat n)" and "accessible pf w d (unat n)"
  shows "duma_memmove pf d s n w = Inr (d, copied d s (unat n) w)"
proof (cases "d < s")
  case True
  then have "unat d \<le> unat s" by (simp add: word_less_nat_alt)
  from move_up_from [OF assms this, of 0] True show ?thesis by (simp add: duma_memmove_def)
next
  case False
  then have "unat s \<le> unat d" by (simp add: word_less_nat_alt)
  from move_down_from [OF assms this] False show ?thesis by (simp add: duma_memmove_def)
qed

text \<open>\<open>strcpy\<close> stops the program when the destination starts inside the source; otherwise the
  destination holds the string afterwards and nothing outside it has changed.\<close>

theorem strcpy_correct:
  assumes "string_at w s cs" and "accessible pf w s (Suc (length cs))" and "accessible pf w d (Suc (length cs))"
  shows "if unat s < unat d \<and> unat d \<le> unat s + length cs
    then duma_strcpy pf d s pos w = Inl (Aborted (Strcpy_overlap d s pos))
    else \<exists>w'. duma_strcpy pf d s pos w = Inr (d, w') \<and> string_at w' d cs \<and>
      (\<forall>x. \<not> (unat d \<le> unat x \<and> unat x \<le> unat d + length cs) \<longrightarrow> bytes w' x = bytes w x)"
proof -
  let ?n = "Suc (length cs)"
  have n: "?n < 2 ^ 64" "unat s + ?n < 2 ^ 64" "unat d + ?n < 2 ^ 64" using assms(2,3) by (simp_all add: accessible_def)
  have len: "strlen pf s w = Inr (word_of_nat (length cs))" by (rule strlen_ok [OF assms(1,2)])
  have sz: "word_of_nat (length cs) + 1 = (word_of_nat ?n :: u64)" by (simp add: ac_simps)
  have ov: "s < d \<and> d < s + word_of_nat ?n \<longleftrightarrow> unat s < unat d \<and> unat d \<le> unat s + length cs"
    unfolding overlap_offset_iff [OF n(2)] unfolding word_less_nat_alt by auto
  show ?thesis
  proof (cases "unat s < unat d \<and> unat d \<le> unat s + length cs")
    case True
    with ov show ?thesis by (simp add: duma_strcpy_def len Let_def sz del: of_nat_Suc)
  next
    case False
    then have "unat d \<le> unat s \<or> unat s + ?n \<le> unat d" by auto
    from copy_up_from [OF assms(2,3) this, of "0 :: u64"] n(1)
    have "copy_up pf (\<lambda>j. j < word_of_nat ?n) d s (0 :: u64) w = Some (Inr (copied d s ?n w))" by simp
    with False ov have "duma_strcpy pf d s pos w = Inr (d, copied d s ?n w)"
      by (simp add: duma_strcpy_def len Let_def sz del: of_nat_Suc)
    moreover have "string_at (copied d s ?n w) d cs"
      using assms(1) n copied_at [of d ?n _ s w] by (simp add: string_upto_def less_Suc_eq)
    ultimately show ?thesis using False copied_outside [of d _ ?n s w] by (auto simp: less_Suc_eq_le)
  qed
qed

text \<open>\<open>strncpy\<close> between regions that do not overlap copies at most \<open>n\<close> characters and fills the rest of
  the \<open>n\<close> bytes with null bytes.\<close>

theorem strncpy_correct:
  assumes "string_upto w s (unat n) cs" and "accessible pf w s (min (unat n) (Suc (length cs)))"
    and "accessible pf w d (unat n)" and "no_overlap s (min (unat n) (Suc (length cs))) d (unat n)"
  shows "\<exists>w'. duma_strncpy pf d s n pos w = Inr (d, w') \<and>
    (\<forall>i < unat n. bytes w' (d + word_of_nat i) = (if i < length cs then cs ! i else 0)) \<and>
    (\<forall>x. \<not> (unat d \<le> unat x \<and> unat x < unat d + unat n) \<longrightarrow> bytes w' x = bytes w x)"
proof -
  let ?l = "length cs"
  have l: "?l \<le> unat n" using assms(1) by (simp add: string_upto_def)
  then have l64: "?l < 2 ^ 64" using unat_u64 [of n] by (rule order_le_less_trans)
  have d: "unat d + unat n < 2 ^ 64" using assms(3) by (simp add: accessible_def)
  have nl: "duma_strnlen pf s n w = Inr (word_of_nat ?l)" by (rule strnlen_ok [OF assms(1,2)])
  have nov: "\<not> (n > 0 \<and> (s < d \<and> d < s + word_of_nat ?l \<or> d < s \<and> s < d + n))"
  proof -
    have "unat s + ?l < 2 ^ 64" using assms(2) l by (auto simp: accessible_def min_def split: if_splits)
    then have "d < s + word_of_nat ?l \<longleftrightarrow> unat d < unat s + ?l" "s < d + n \<longleftrightarrow> unat s < unat d + unat n"
      using d by (simp_all add: overlap_offset_iff overlap_iff)
    with assms(4) l show ?thesis by (auto simp: no_overlap_def word_less_nat_alt min_def split: if_splits)
  qed
  let ?w1 = "copied d s ?l w"
  have c: "strncpy_from pf d s n 0 w = Inr (word_of_nat ?l, ?w1)"
    using strncpy_from_ok [OF assms, of 0] by simp
  have "accessible pf ?w1 d (unat n)" using assms(3) by (simp add: copied_from_def frame_simps)
  from zero_from_ok [OF this l] have z: "zero_from pf d n (word_of_nat ?l) ?w1 =
      Inr (?w1\<lparr>bytes := (\<lambda>x. if unat d + ?l \<le> unat x \<and> unat x < unat d + unat n then 0 else bytes ?w1 x)\<rparr>)"
    (is "_ = Inr ?w2") by simp
  from nov have "duma_strncpy pf d s n pos w = Inr (d, ?w2)"
    unfolding duma_strncpy_def by (simp only: nl and_then.simps if_False c prod.case z)
  moreover have "bytes ?w2 (d + word_of_nat i) = (if i < ?l then cs ! i else 0)" if i: "i < unat n" for i
  proof -
    have "unat (d + word_of_nat i) = unat d + i" using i d by (simp add: unat_offset)
    with i l d copied_at [of d ?l i s w] string_nth(1) [OF assms(1), of i] show ?thesis by simp
  qed
  moreover have "bytes ?w2 x = bytes w x" if "\<not> (unat d \<le> unat x \<and> unat x < unat d + unat n)" for x
    using that l copied_outside [of d x ?l s w] by auto
  ultimately show ?thesis by blast
qed

text \<open>\<open>strcat\<close>: unless the end of the destination lies inside the source, the destination holds the
  concatenation afterwards.\<close>

theorem strcat_correct:
  assumes "string_at w d ds" and "string_at w s cs" and "length cs < 2 ^ 32 - 1"
    and "accessible pf w s (Suc (length cs))" and "accessible pf w d (Suc (length ds + length cs))"
  shows "if unat s < unat d + length ds \<and> unat d + length ds \<le> unat s + length cs
    then duma_strcat pf d s pos w = Inl (Aborted (Strcat_overlap d s pos))
    else \<exists>w'. duma_strcat pf d s pos w = Inr (d, w') \<and> string_at w' d (ds @ cs) \<and>
      (\<forall>x. \<not> (unat d + length ds \<le> unat x \<and> unat x \<le> unat d + length ds + length cs) \<longrightarrow> bytes w' x = bytes w x)"
proof -
  let ?n = "Suc (length cs)" and ?e = "d + word_of_nat (length ds)"
  have n: "?n < 2 ^ 64" "unat s + ?n < 2 ^ 64" "unat d + length ds + ?n < 2 ^ 64"
    using assms(4,5) by (simp_all add: accessible_def)
  have e: "unat ?e = unat d + length ds" using n(3) by (simp add: unat_offset)
  have acc: "accessible pf w d (Suc (length ds))" "accessible pf w ?e ?n"
    using assms(5) accessible_mono [of pf w d "Suc (length ds + length cs)" "Suc (length ds)"]
      accessible_shift [of pf w d "length ds" ?n] by simp_all
  have len: "strlen pf d w = Inr (word_of_nat (length ds))" "strlen pf s w = Inr (word_of_nat (length cs))"
    by (rule strlen_ok [OF assms(1) acc(1)], rule strlen_ok [OF assms(2,4)])
  have sz: "word_of_nat (length cs) + 1 = (word_of_nat ?n :: u64)" by (simp add: ac_simps)
  have ov: "s < ?e \<and> ?e < s + word_of_nat ?n \<longleftrightarrow> unat s < unat d + length ds \<and> unat d + length ds \<le> unat s + length cs"
    unfolding overlap_offset_iff [OF n(2)] unfolding word_less_nat_alt e by auto
  show ?thesis
  proof (cases "unat s < unat d + length ds \<and> unat d + length ds \<le> unat s + length cs")
    case True
    with ov show ?thesis by (simp add: duma_strcat_def len Let_def sz del: of_nat_Suc)
  next
    case False
    then have "unat ?e \<le> unat s \<or> unat s + ?n \<le> unat ?e" using e by auto
    from copy_up_from [OF assms(4) acc(2) this, of "0 :: u32"] assms(3)
    have "copy_up pf (\<lambda>j. j < word_of_nat ?n) ?e s (0 :: u32) w = Some (Inr (copied ?e s ?n w))" by simp
    with False ov have r: "duma_strcat pf d s pos w = Inr (d, copied ?e s ?n w)"
      by (simp add: duma_strcat_def len Let_def sz del: of_nat_Suc)
    have out: "bytes (copied ?e s ?n w) x = bytes w x"
      if "\<not> (unat d + length ds \<le> unat x \<and> unat x \<le> unat d + length ds + length cs)" for x
      using that e by (intro copied_outside) auto
    have "string_at (copied ?e s ?n w) d (ds @ cs)"
    proof (rule string_append [OF assms(1)])
      show "0 \<notin> set cs" using assms(2) by (simp add: string_upto_def)
      show "bytes (copied ?e s ?n w) (d + word_of_nat i) = bytes w (d + word_of_nat i)" if "i < length ds" for i
        using that n(3) by (intro out) (simp add: unat_offset)
      show "bytes (copied ?e s ?n w) (?e + word_of_nat j) = cs ! j" if "j < length cs" for j
        using copied_at [of ?e ?n j s w] that e n(3) string_nth(1) [OF assms(2) that] by simp
      show "bytes (copied ?e s ?n w) (?e + word_of_nat (length cs)) = 0"
        using copied_at [of ?e ?n "length cs" s w] e n(3) assms(2) by (simp add: string_upto_def)
    qed
    with False r out show ?thesis by auto
  qed
qed

text \<open>\<open>strncat\<close> appends at most \<open>n\<close> characters and always a null byte.\<close>

theorem strncat_correct:
  assumes "string_at w d ds" and "string_upto w s (unat n) cs" and "length cs < 2 ^ 32" and "n \<noteq> 0"
    and "accessible pf w s (min (unat n) (Suc (length cs)))" and "unat s + length cs + 1 < 2 ^ 64"
    and "accessible pf w d (Suc (length ds + length cs))"
  shows "if unat s < unat d + length ds \<and> unat d + length ds \<le> unat s + length cs
    then duma_strncat pf d s n pos w = Inl (Aborted (Strncat_overlap d s n pos))
    else \<exists>w'. duma_strncat pf d s n pos w = Inr (d, w') \<and> string_at w' d (ds @ cs) \<and>
      (\<forall>x. \<not> (unat d + length ds \<le> unat x \<and> unat x \<le> unat d + length ds + length cs) \<longrightarrow> bytes w' x = bytes w x)"
proof -
  let ?k = "length cs" and ?e = "d + word_of_nat (length ds)"
  have n: "unat s + Suc ?k < 2 ^ 64" "unat d + length ds + Suc ?k < 2 ^ 64"
    using assms(6,7) by (simp_all add: accessible_def)
  have k: "?k \<le> unat n" using assms(2) by (simp add: string_upto_def)
  have e: "unat ?e = unat d + length ds" using n(2) by (simp add: unat_offset)
  have acc: "accessible pf w d (Suc (length ds))" "accessible pf w ?e (Suc ?k)" "accessible pf w ?e ?k" "accessible pf w s ?k"
    using assms(5,7) k accessible_mono [of pf w d "Suc (length ds + ?k)" "Suc (length ds)"]
      accessible_mono [of pf w ?e "Suc ?k" ?k] accessible_mono [of pf w s "min (unat n) (Suc ?k)" ?k]
      accessible_shift [of pf w d "length ds" "Suc ?k"] by simp_all
  have len: "strlen pf d w = Inr (word_of_nat (length ds))" "duma_strnlen pf s n w = Inr (word_of_nat ?k)"
    by (rule strlen_ok [OF assms(1) acc(1)], rule strnlen_ok [OF assms(2,5)])
  have sz: "s + word_of_nat ?k + 1 = s + (word_of_nat (Suc ?k) :: u64)" by (simp add: ac_simps)
  have ov: "s < ?e \<and> ?e < s + word_of_nat (Suc ?k) \<longleftrightarrow> unat s < unat d + length ds \<and> unat d + length ds \<le> unat s + ?k"
    unfolding overlap_offset_iff [OF n(1)] unfolding word_less_nat_alt e by auto
  have n0: "\<not> n \<le> 0" using assms(4) by simp
  show ?thesis
  proof (cases "unat s < unat d + length ds \<and> unat d + length ds \<le> unat s + ?k")
    case True
    with ov n0 show ?thesis by (simp add: duma_strncat_def len sz del: of_nat_Suc)
  next
    case False
    then have "unat ?e \<le> unat s \<or> unat s + ?k \<le> unat ?e" using e by auto
    from copy_up_from [OF acc(4,3) this, of "0 :: u32"] assms(3)
    have c: "copy_up pf (\<lambda>j. j < word_of_nat ?k) ?e s (0 :: u32) w = Some (Inr (copied ?e s ?k w))" by simp
    let ?w1 = "copied ?e s ?k w"
    let ?w2 = "?w1\<lparr>bytes := (bytes ?w1)(?e + word_of_nat ?k := 0)\<rparr>"
    have "accessible pf ?w1 ?e (Suc ?k)" using acc(2) by (simp add: copied_from_def frame_simps)
    from accessible_store [OF this lessI] have st: "store pf (?e + word_of_nat ?k) 0 ?w1 = Inr ?w2" .
    from False ov n0 have r: "duma_strncat pf d s n pos w = Inr (d, ?w2)"
      unfolding duma_strncat_def by (simp only: if_False len and_then.simps sz c run.simps st)
    have ek: "unat (?e + word_of_nat ?k) = unat d + length ds + ?k" using e n(2) by (subst unat_offset) simp_all
    have out: "bytes ?w2 x = bytes w x"
      if "\<not> (unat d + length ds \<le> unat x \<and> unat x \<le> unat d + length ds + ?k)" for x
    proof -
      have "x \<noteq> ?e + word_of_nat ?k" using that ek by auto
      moreover have "bytes ?w1 x = bytes w x" using that e by (intro copied_outside) auto
      ultimately show ?thesis by simp
    qed
    have "string_at ?w2 d (ds @ cs)"
    proof (rule string_append [OF assms(1)])
      show "0 \<notin> set cs" using assms(2) by (simp add: string_upto_def)
      show "bytes ?w2 (d + word_of_nat i) = bytes w (d + word_of_nat i)" if "i < length ds" for i
        using that n(2) by (intro out) (simp add: unat_offset)
      show "bytes ?w2 (?e + word_of_nat j) = cs ! j" if "j < ?k" for j
      proof -
        have "unat (?e + word_of_nat j) = unat ?e + j" using that e n(2) by (intro unat_offset) simp
        with ek e that have "?e + word_of_nat j \<noteq> ?e + word_of_nat ?k" by (metis add_left_cancel less_irrefl)
        with copied_at [of ?e ?k j s w] that e n(2) string_nth(1) [OF assms(2) that] show ?thesis by simp
      qed
      show "bytes ?w2 (?e + word_of_nat ?k) = 0" by simp
    qed
    with False r out show ?thesis by auto
  qed
qed

section \<open>Concrete runs\<close>

definition sample_text :: world where
  "sample_text = (sample_world NoAccess)\<lparr>bytes := (\<lambda>_. 0)(0x10002000 := 97, 0x10002001 := 98)\<rparr>"

lemma sample_accessible:
  assumes "0x10002000 \<le> unat a" and "unat a + n \<le> 0x10003000"
  shows "accessible sample_pf sample_text a n"
proof -
  have "perm_at sample_pf sample_text (a + word_of_nat i) = ReadWrite" if i: "i < n" for i
  proof -
    have "unat (a + word_of_nat i) = unat a + i" using i assms(2) by (intro unat_offset) simp
    then have "unat (a + word_of_nat i) div 4096 = 65538" using assms i by (simp add: page_of)
    then show ?thesis by (simp add: perm_at_def sample_text_def sample_pages_def)
  qed
  with assms show ?thesis by (simp add: accessible_def)
qed

lemma sample_string: "string_at sample_text 0x10002000 [97, 98]"
  by (auto simp: string_upto_def sample_text_def less_Suc_eq)

lemma sample_empty_string: "string_at sample_text 0x10002100 []"
  by (simp add: string_upto_def sample_text_def)

theorem memcpy_correct_witness:
  "duma_memcpy sample_pf 0x10002100 0x10002000 2 (None, 1) sample_text = Inr (0x10002100, copied 0x10002100 0x10002000 2 sample_text)"
  using memcpy_correct [of sample_pf sample_text "0x10002000" 2 "0x10002100" "(None, 1)"]
  by (simp add: sample_accessible overlapping_def)

theorem memcpy_large_never_returns_witness:
  "duma_memcpy sample_pf 0x10002100 0x10002000 0x100000000 (None, 1) sample_text \<noteq> Inr (0x10002100, sample_text)"
proof -
  have "2 ^ 32 \<le> unat (0x100000000 :: u64)" by simp
  then show ?thesis by (rule memcpy_large_never_returns)
qed

theorem memmove_correct_witness:
  "duma_memmove sample_pf 0x10002001 0x10002000 2 sample_text = Inr (0x10002001, copied 0x10002001 0x10002000 2 sample_text)"
  using memmove_correct [of sample_pf sample_text "0x10002000" 2 "0x10002001"] by (simp add: sample_accessible)

theorem strcpy_correct_witness:
  "\<exists>w'. duma_strcpy sample_pf 0x10002100 0x10002000 (None, 1) sample_text = Inr (0x10002100, w') \<and>
     string_at w' 0x10002100 [97, 98]"
proof -
  have "accessible sample_pf sample_text 0x10002000 (Suc (length [97, 98 :: u8]))"
    "accessible sample_pf sample_text 0x10002100 (Suc (length [97, 98 :: u8]))"
    by (simp_all add: sample_accessible)
  from strcpy_correct [OF sample_string this, of "(None, 1)"] show ?thesis by auto
qed

theorem strncpy_correct_witness:
  "\<exists>w'. duma_strncpy sample_pf 0x10002100 0x10002000 5 (None, 1) sample_text = Inr (0x10002100, w') \<and>
     bytes w' 0x10002101 = 98 \<and> bytes w' 0x10002104 = 0"
proof -
  have "string_upto sample_text 0x10002000 (unat (5 :: u64)) [97, 98]"
    using sample_string by (simp add: string_upto_def)
  from strncpy_correct [OF this, of sample_pf "0x10002100" "(None, 1)"] obtain w'
    where "duma_strncpy sample_pf 0x10002100 0x10002000 5 (None, 1) sample_text = Inr (0x10002100, w')"
      and b: "\<And>i. i < 5 \<Longrightarrow> bytes w' (0x10002100 + word_of_nat i) = (if i < 2 then [97, 98] ! i else 0)"
    by (auto simp: sample_accessible no_overlap_def)
  with b [of 1] b [of 4] show ?thesis by auto
qed

theorem strcat_correct_witness:
  "\<exists>w'. duma_strcat sample_pf 0x10002100 0x10002000 (None, 1) sample_text = Inr (0x10002100, w') \<and>
     string_at w' 0x10002100 [97, 98]"
proof -
  have "accessible sample_pf sample_text 0x10002000 (Suc (length [97, 98 :: u8]))"
    "accessible sample_pf sample_text 0x10002100 (Suc (length ([] :: u8 list) + length [97, 98 :: u8]))"
    by (simp_all add: sample_accessible)
  from strcat_correct [OF sample_empty_string sample_string _ this, of "(None, 1)"] show ?thesis by auto
qed

theorem strncat_correct_witness:
  "\<exists>w'. duma_strncat sample_pf 0x10002100 0x10002000 1 (None, 1) sample_text = Inr (0x10002100, w') \<and>
     string_at w' 0x10002100 [97]"
proof -
  have "string_upto sample_text 0x10002000 (unat (1 :: u64)) [97]"
    by (simp add: string_upto_def sample_text_def)
  from strncat_correct [OF sample_empty_string this, of sample_pf "(None, 1)"] show ?thesis
    by (auto simp: sample_accessible)
qed

text \<open>\<open>strncpy\<close> to the terminator of its own source is an overlap that the check does not see, and it
  does not produce the copy: the terminator is overwritten before it is read.\<close>

theorem strncpy_undetected_overlap:
  "\<exists>w'. duma_strncpy sample_pf 0x10002002 0x10002000 4 (None, 1) sample_text = Inr (0x10002002, w') \<and>
     map (bytes w') [0x10002002, 0x10002003, 0x10002004, 0x10002005] = [97, 98, 97, 98]"
  by (simp add: duma_strncpy_def duma_strnlen_def strnlen_from.simps strncpy_from.simps zero_from.simps
      load_def store_def perm_at_def sample_text_def sample_pages_def)

end
