(* ===== verification/Duma_Api.thy ===== *)
theory Duma_Api
  imports Duma_Frame Duma_String
begin

text \<open>
  The functions of \<open>src/duma.c\<close> a program calls: \<open>_duma_malloc\<close>, \<open>_duma_calloc\<close>, \<open>_duma_free\<close>,
  \<open>_duma_memalign\<close>, \<open>_duma_posix_memalign\<close>, \<open>_duma_realloc\<close>, \<open>_duma_valloc\<close>,
  \<open>_duma_malloc_usable_size\<close> and \<open>_duma_strdup\<close>.

  Each starts with \<open>if (_duma_g.allocList == 0) _duma_init();\<close>.  The constructor calls some of
  these functions itself, so it is an argument here; \<open>Duma_Init\<close> ties the knot.
\<close>

section \<open>The functions\<close>

text \<open>\<open>unknown_file\<close>, passed by the wrappers that replace the C library's functions.\<close>

definition unknown_pos :: src_pos where
  "unknown_pos = (Some (''UNKNOWN (use #include '' @ [CHR 0x22] @ ''duma.h'' @ [CHR 0x22] @ '')''), 0)"

definition ensure_init :: "(world \<Rightarrow> stop + world) \<Rightarrow> world \<Rightarrow> stop + world" where
  "ensure_init init w = (if allocList w = 0 then init w else Inr w)"

definition malloc_with :: "(world \<Rightarrow> stop + world) \<Rightarrow> platform \<Rightarrow> u64 \<Rightarrow> src_pos \<Rightarrow> world \<Rightarrow> stop + u64 \<times> world" where
  "malloc_with init pf sz pos w =
     and_then (ensure_init init w) (\<lambda>w.
       duma_allocate pf 0 sz (PROTECT_BELOW w) (FILL w) True EFA_MALLOC DUMA_FAIL_ENV pos w)"

definition calloc_with ::
  "(world \<Rightarrow> stop + world) \<Rightarrow> platform \<Rightarrow> u64 \<Rightarrow> u64 \<Rightarrow> src_pos \<Rightarrow> world \<Rightarrow> stop + u64 \<times> world" where
  "calloc_with init pf nelem elsize pos w =
     and_then (ensure_init init w) (\<lambda>w.
       duma_allocate pf 0 (nelem * elsize) (PROTECT_BELOW w) 0 True EFA_CALLOC DUMA_FAIL_ENV pos w)"

definition free_with :: "(world \<Rightarrow> stop + world) \<Rightarrow> platform \<Rightarrow> u64 \<Rightarrow> src_pos \<Rightarrow> world \<Rightarrow> stop + world" where
  "free_with init pf baseAdr pos w =
     and_then (ensure_init init w) (\<lambda>w. duma_deallocate pf baseAdr True EFA_FREE pos w)"

definition memalign_with ::
  "(world \<Rightarrow> stop + world) \<Rightarrow> platform \<Rightarrow> u64 \<Rightarrow> u64 \<Rightarrow> src_pos \<Rightarrow> world \<Rightarrow> stop + u64 \<times> world" where
  "memalign_with init pf alignment sz pos w =
     and_then (ensure_init init w) (\<lambda>w.
       duma_allocate pf alignment sz (PROTECT_BELOW w) (FILL w) True EFA_MEMALIGN DUMA_FAIL_ENV pos w)"

definition EINVAL :: u32 where "EINVAL = 22"
definition ENOMEM :: u32 where "ENOMEM = 12"

text \<open>A pointer written through a pointer: eight bytes, the lowest first.\<close>

fun store_bytes :: "platform \<Rightarrow> u64 \<Rightarrow> u8 list \<Rightarrow> world \<Rightarrow> stop + world" where
  "store_bytes pf a [] w = Inr w"
| "store_bytes pf a (c # cs) w = and_then (store pf a c w) (store_bytes pf (a + 1) cs)"

definition store_ptr :: "platform \<Rightarrow> u64 \<Rightarrow> u64 \<Rightarrow> world \<Rightarrow> stop + world" where
  "store_ptr pf a p = store_bytes pf a (map (\<lambda>i. ucast (drop_bit (8 * i) p)) [0 ..< 8])"

definition posix_memalign_with ::
  "(world \<Rightarrow> stop + world) \<Rightarrow> platform \<Rightarrow> u64 \<Rightarrow> u64 \<Rightarrow> u64 \<Rightarrow> src_pos \<Rightarrow> world \<Rightarrow> stop + u32 \<times> world" where
  "posix_memalign_with init pf memptr alignment sz pos w =
     (if alignment AND (alignment - 1) \<noteq> 0 \<or> alignment < 8 then Inr (EINVAL, w)
      else
        and_then (ensure_init init w) (\<lambda>w.
        and_then (duma_allocate pf alignment sz (PROTECT_BELOW w) (FILL w) True EFA_POSIX_MEMALIGN DUMA_FAIL_ENV pos w)
          (\<lambda>(retptr, w).
        if retptr \<noteq> 0 then and_then (store_ptr pf memptr retptr w) (\<lambda>w. Inr (0, w))
        else and_then (store_ptr pf memptr 0 w) (\<lambda>w. Inr (ENOMEM, w)))))"

text \<open>The part of \<open>realloc\<close> that moves the contents; \<open>memcpy\<close> is the library's own.\<close>

definition realloc_move :: "platform \<Rightarrow> u64 \<Rightarrow> u64 \<Rightarrow> u64 \<Rightarrow> src_pos \<Rightarrow> world \<Rightarrow> stop + world" where
  "realloc_move pf oldBuffer ptr newSize pos w =
     and_then (slotForUserAddress pf oldBuffer w) (\<lambda>r. case r of
         None \<Rightarrow> Inl (Aborted (Realloc_not_from_malloc oldBuffer newSize))
       | Some i \<Rightarrow>
           let old = userSize (slots w ! i) in
           and_then (if newSize > old
                     then and_then (duma_memcpy pf ptr oldBuffer old unknown_pos w) (\<lambda>(_, w).
                            memset pf (unat (newSize - old)) (ptr + old) 0 w)
                     else and_then (duma_memcpy pf ptr oldBuffer newSize unknown_pos w) (\<lambda>(_, w). Inr w))
             (\<lambda>w. duma_deallocate pf oldBuffer False EFA_REALLOC pos w))"

definition realloc_body :: "platform \<Rightarrow> u64 \<Rightarrow> u64 \<Rightarrow> src_pos \<Rightarrow> world \<Rightarrow> stop + u64 \<times> world" where
  "realloc_body pf oldBuffer newSize pos w =
     (if oldBuffer = 0
      then duma_allocate pf 0 newSize (PROTECT_BELOW w) (FILL w) False EFA_REALLOC DUMA_FAIL_ENV pos w
      else if newSize \<le> 0
      then and_then (duma_deallocate pf oldBuffer False EFA_REALLOC pos w) (\<lambda>w. Inr (0, w))
      else
        and_then (duma_allocate pf 0 newSize (PROTECT_BELOW w) (- 1) False EFA_REALLOC DUMA_FAIL_ENV pos w)
          (\<lambda>(ptr, w).
        if ptr \<noteq> 0 then and_then (realloc_move pf oldBuffer ptr newSize pos w) (\<lambda>w. Inr (ptr, w))
        else Inr (ptr, w)))"

definition realloc_with ::
  "(world \<Rightarrow> stop + world) \<Rightarrow> platform \<Rightarrow> u64 \<Rightarrow> u64 \<Rightarrow> src_pos \<Rightarrow> world \<Rightarrow> stop + u64 \<times> world" where
  "realloc_with init pf oldBuffer newSize pos w =
     and_then (ensure_init init w) (\<lambda>w.
     and_then (open_list pf True w) (\<lambda>w.
     and_then (realloc_body pf oldBuffer newSize pos w) (\<lambda>(ptr, w).
     and_then (close_list pf True w) (\<lambda>w. Inr (ptr, w)))))"

definition valloc_with :: "(world \<Rightarrow> stop + world) \<Rightarrow> platform \<Rightarrow> u64 \<Rightarrow> src_pos \<Rightarrow> world \<Rightarrow> stop + u64 \<times> world" where
  "valloc_with init pf sz pos w =
     and_then (ensure_init init w) (\<lambda>w.
       duma_allocate pf (DUMA_PAGE_SIZE pf) sz (PROTECT_BELOW w) (FILL w) True EFA_VALLOC DUMA_FAIL_ENV pos w)"

definition duma_malloc_usable_size :: "platform \<Rightarrow> u64 \<Rightarrow> world \<Rightarrow> stop + u64 \<times> world" where
  "duma_malloc_usable_size pf ptr w =
     (if ptr = 0 \<or> null_addr w = ptr then Inr (0, w)
      else if allocList w = 0 then Inl (Aborted Usable_size_before_malloc)
      else
        and_then (Page_AllowAccess pf (allocList w) (allocListSize w) w) (\<lambda>w.
        and_then (slotForUserAddress pf ptr w) (\<lambda>r. case r of
            None \<Rightarrow> Inl (Aborted (Usable_size_not_from_malloc ptr))
          | Some i \<Rightarrow>
              let sz = userSize (slots w ! i) in
              and_then (Page_DenyAccess pf (allocList w) (allocListSize w) w) (\<lambda>w. Inr (sz, w)))))"

definition strdup_with :: "(world \<Rightarrow> stop + world) \<Rightarrow> platform \<Rightarrow> u64 \<Rightarrow> src_pos \<Rightarrow> world \<Rightarrow> stop + u64 \<times> world" where
  "strdup_with init pf str pos w =
     and_then (ensure_init init w) (\<lambda>w.
     and_then (strlen pf str w) (\<lambda>sz.
     and_then (duma_allocate pf 0 (sz + 1) (PROTECT_BELOW w) (- 1) True EFA_STRDUP DUMA_FAIL_ENV pos w)
       (\<lambda>(dup, w).
     if dup \<noteq> 0 then and_then (run (copy_up pf (\<lambda>i. i \<le> sz) dup str (0 :: u32) w)) (\<lambda>w. Inr (dup, w))
     else Inr (dup, w))))"

declare
  unknown_pos_def [duma_defs]
  ensure_init_def [duma_defs]
  malloc_with_def [duma_defs]
  calloc_with_def [duma_defs]
  free_with_def [duma_defs]
  memalign_with_def [duma_defs]
  posix_memalign_with_def [duma_defs]
  realloc_move_def [duma_defs]
  realloc_body_def [duma_defs]
  realloc_with_def [duma_defs]
  valloc_with_def [duma_defs]
  duma_malloc_usable_size_def [duma_defs]
  strdup_with_def [duma_defs]

section \<open>Writing into a block\<close>

text \<open>The slot a user address belongs to is unique.\<close>

lemma slot_address_unique:
  assumes ok: "heap_ok pf w" and i: "i < length (slots w)" "in_slot (slots w ! i) a"
    and a: "a \<noteq> 0" and j: "j < length (slots w)" "userAddress (slots w ! j) = a"
  shows "j = i"
proof (rule ccontr)
  assume ne: "j \<noteq> i"
  have "slot_shape pf (slots w ! j)" using ok j by (auto simp: heap_ok_def slot_ok_def dest!: table_ok_nth)
  with a j(2) have "in_slot (slots w ! j) a"
    by (auto simp: slot_shape_def in_slot_def in_rng_def unat_gt_0 split: if_splits)
  with i(2) show False using ok i(1) j(1) ne by (auto simp: heap_ok_def dest: table_ok_apart)
qed

lemma user_address_unique:
  assumes ok: "heap_ok pf w" and i: "i < length (slots w)" "live (slots w ! i)" "userAddress (slots w ! i) = a"
    and a: "a \<noteq> 0" and j: "j < length (slots w)" "userAddress (slots w ! j) = a"
  shows "j = i"
  using slot_address_unique [OF ok i(1) _ a j] live_in_slot [OF ok i(1,2)] i(3) by simp

lemma slotForUserAddress_live:
  assumes "heap_ok pf w" and "i < length (slots w)" "live (slots w ! i)" "userAddress (slots w ! i) = a" and "a \<noteq> 0"
    and "slotForUserAddress pf a w = Inr r"
  shows "r = Some i"
proof (cases r)
  case None
  with assms(2,4,6) show ?thesis by (auto simp: slotForUserAddress_None)
next
  case (Some j)
  with assms(6) slotForUserAddress_Some(2,3) user_address_unique [OF assms(1-5)] show ?thesis by auto
qed

text \<open>The user's bytes of a live block are accessible.\<close>

lemma live_facts:
  assumes "heap_ok pf w" and "i < length (slots w)" and "live (slots w ! i)"
  shows "slot_end (slots w ! i) < 2 ^ 64" "user_layout pf (slots w ! i)"
    "\<And>x. in_slot (slots w ! i) x \<Longrightarrow> perm_at pf w x = live_perm (slots w ! i) x"
  using assms
  by (auto simp: heap_ok_def live_def slot_ok_def slot_shape_def slot_perm_ok_def perm_at_def dest!: table_ok_nth)

lemma live_user_range:
  assumes ok: "heap_ok pf w" and i: "i < length (slots w)" "live (slots w ! i)"
    and x: "unat (userAddress (slots w ! i)) \<le> unat x"
      "unat x < unat (userAddress (slots w ! i)) + unat (userSize (slots w ! i))"
  shows "in_slot (slots w ! i) x" "perm_at pf w x = ReadWrite"
proof -
  have "userSize (slots w ! i) \<noteq> 0" using x by auto
  from user_in_slot [OF live_facts(1,2) [OF ok i] live_in_slot [OF ok i] this x] live_facts(3) [OF ok i]
  show "in_slot (slots w ! i) x" "perm_at pf w x = ReadWrite" by auto
qed

lemma live_end:
  assumes ok: "heap_ok pf w" and i: "i < length (slots w)" "live (slots w ! i)"
  shows "unat (userAddress (slots w ! i)) + unat (userSize (slots w ! i)) < 2 ^ 64"
  using live_facts(1,2) [OF ok i] live_in_slot [OF ok i]
  by (cases "userSize (slots w ! i) = 0")
    (auto simp: user_layout_def in_slot_def in_rng_def slot_end_def split: if_splits)

lemma live_accessible:
  assumes ok: "heap_ok pf w" and i: "i < length (slots w)" "live (slots w ! i)"
    and n: "n \<le> unat (userSize (slots w ! i))"
  shows "accessible pf w (userAddress (slots w ! i)) n"
proof -
  have e: "unat (userAddress (slots w ! i)) + n < 2 ^ 64" using live_end [OF ok i] n by simp
  moreover have "perm_at pf w (userAddress (slots w ! i) + word_of_nat k) = ReadWrite" if "k < n" for k
    using that e n by (intro live_user_range(2) [OF ok i]) (simp_all add: unat_offset)
  ultimately show ?thesis by (simp add: accessible_def)
qed

lemma user_bytes_frame:
  assumes ok: "heap_ok pf w" and i: "i < length (slots w)" "live (slots w ! i)"
    and b: "\<And>x. \<not> (unat (userAddress (slots w ! i)) \<le> unat x \<and>
      unat x < unat (userAddress (slots w ! i)) + unat (userSize (slots w ! i))) \<Longrightarrow> b x = bytes w x"
  shows "heap_ok pf (w\<lparr>bytes := b\<rparr>)" "keeps pf {i} w (w\<lparr>bytes := b\<rparr>)"
proof -
  show "heap_ok pf (w\<lparr>bytes := b\<rparr>)" using ok by (subst heap_ok_cong) simp_all
  show "keeps pf {i} w (w\<lparr>bytes := b\<rparr>)"
  proof (rule keeps_inside [OF _ i(1)])
    show "table_ok pf (pages w) (slots w)" using ok by (simp add: heap_ok_def)
    fix x assume "\<not> in_slot (slots w ! i) x"
    then have "b x = bytes w x" using live_user_range(1) [OF ok i] b by blast
    then show "perm_at pf (w\<lparr>bytes := b\<rparr>) x = perm_at pf w x \<and> bytes (w\<lparr>bytes := b\<rparr>) x = bytes w x"
      by (simp add: frame_simps)
  qed simp_all
qed

section \<open>\<open>realloc\<close>\<close>

lemma copied_eq: "copied d s n w = w\<lparr>bytes := moved_bytes 0 d s n (bytes w)\<rparr>"
  by (simp add: copied_from_def)

text \<open>The new contents of the block at \<open>ptr\<close>: what fits of the old block, then null bytes.\<close>

definition resized_bytes :: "u64 \<Rightarrow> nat \<Rightarrow> u64 \<Rightarrow> nat \<Rightarrow> (u64 \<Rightarrow> u8) \<Rightarrow> u64 \<Rightarrow> u8" where
  "resized_bytes old n ptr sz b x =
     (if unat ptr \<le> unat x \<and> unat x < unat ptr + sz
      then if unat x - unat ptr < n then b (old + (x - ptr)) else 0 else b x)"

lemma two_live_apart:
  fixes x :: u64
  assumes "heap_ok pf w" and "i < length (slots w)" "live (slots w ! i)" and "f < length (slots w)" "live (slots w ! f)" and "i \<noteq> f"
    and "unat (userAddress (slots w ! i)) \<le> unat x" "unat x < unat (userAddress (slots w ! i)) + unat (userSize (slots w ! i))"
    and "unat (userAddress (slots w ! f)) \<le> unat x" "unat x < unat (userAddress (slots w ! f)) + unat (userSize (slots w ! f))"
  shows False
  using live_user_range(1) [OF assms(1-3,7,8)] live_user_range(1) [OF assms(1,4,5,9,10)] assms(1,2,4,6)
  by (auto simp: heap_ok_def dest: table_ok_apart)

text \<open>Copying between two live blocks of the program.\<close>

lemma memcpy_blocks:
  assumes ok: "heap_ok pf w" and i: "i < length (slots w)" "live (slots w ! i)" "userAddress (slots w ! i) = s"
    and f: "f < length (slots w)" "live (slots w ! f)" "userAddress (slots w ! f) = d" and ne: "i \<noteq> f"
    and n: "unat n \<le> unat (userSize (slots w ! i))" "unat n \<le> unat (userSize (slots w ! f))" "unat n < 2 ^ 32"
  shows "duma_memcpy pf d s n pos w = Inr (d, copied d s (unat n) w)"
proof -
  have "\<not> overlapping d s (unat n) b" for b
  proof
    assume "overlapping d s (unat n) b"
    then have "unat s < unat d \<and> unat d < unat s + unat n \<or> unat d < unat s \<and> unat s < unat d + unat n"
      by (auto simp: overlapping_def)
    moreover have "0 < unat (userSize (slots w ! i))" "0 < unat (userSize (slots w ! f))"
      using calculation n by linarith+
    ultimately show False
      using two_live_apart [OF ok i(1,2) f(1,2) ne, of d] two_live_apart [OF ok i(1,2) f(1,2) ne, of s] i(3) f(3) n
      by auto
  qed
  with memcpy_correct [of pf w s n d pos] live_accessible [OF ok i(1,2) n(1)] live_accessible [OF ok f(1,2) n(2)] i(3) f(3) n(3)
  show ?thesis by simp
qed

lemma config_bytes: "config (w\<lparr>bytes := b\<rparr>) = config w"
  by (rule config_fixed) (simp add: fixed_bytes)

lemma live_accessible_sub:
  assumes ok: "heap_ok pf w" and i: "i < length (slots w)" "live (slots w ! i)"
    and a: "unat (userAddress (slots w ! i)) \<le> unat a" "unat a + n \<le> unat (userAddress (slots w ! i)) + unat (userSize (slots w ! i))"
  shows "accessible pf w a n"
proof -
  have e: "unat a + n < 2 ^ 64" using live_end [OF ok i] a(2) by simp
  moreover have "perm_at pf w (a + word_of_nat k) = ReadWrite" if "k < n" for k
    using that e a by (intro live_user_range(2) [OF ok i]) (simp_all add: unat_offset)
  ultimately show ?thesis by (simp add: accessible_def)
qed

lemma memset_filled:
  assumes "accessible pf w a n"
  shows "memset pf n a c w = Inr (w\<lparr>bytes := (\<lambda>x. if unat a \<le> unat x \<and> unat x < unat a + n then c else bytes w x)\<rparr>)"
proof -
  have "accessible pf w a n \<Longrightarrow> \<exists>w'. memset pf n a c w = Inr w'"
  proof (induction n arbitrary: a w)
    case (Suc n)
    have "store pf a c w = Inr (w\<lparr>bytes := (bytes w)(a := c)\<rparr>)"
      using accessible_store [OF Suc.prems, of 0] by simp
    moreover have "accessible pf (w\<lparr>bytes := (bytes w)(a := c)\<rparr>) (a + 1) n"
      using accessible_shift [of pf w a 1 n] Suc.prems by (simp add: frame_simps)
    ultimately show ?case using Suc.IH by simp
  qed simp
  with assms memset_eq [of pf n a c w] show ?thesis by (fastforce simp: accessible_def)
qed

text \<open>What \<open>realloc\<close> does once it has the new block: the bytes are moved, then the old block is freed.\<close>

lemma realloc_move_eq:
  assumes ok: "heap_ok pf w" and i: "i < length (slots w)" "live (slots w ! i)" "userAddress (slots w ! i) = old"
    and f: "f < length (slots w)" "live (slots w ! f)" "userAddress (slots w ! f) = ptr" "userSize (slots w ! f) = sz"
    and ne: "i \<noteq> f" and a: "old \<noteq> 0" and sz: "unat sz < 2 ^ 32" and q: "slotForUserAddress pf old w = Inr q"
  shows "realloc_move pf old ptr sz pos w = duma_deallocate pf old False EFA_REALLOC pos
    (w\<lparr>bytes := resized_bytes old (unat (userSize (slots w ! i))) ptr (unat sz) (bytes w)\<rparr>)"
proof -
  let ?n = "userSize (slots w ! i)" and ?r = "resized_bytes old (unat (userSize (slots w ! i))) ptr (unat sz) (bytes w)"
  from slotForUserAddress_live [OF ok i a q] q have sl: "slotForUserAddress pf old w = Inr (Some i)" by simp
  have e: "unat ptr + unat sz < 2 ^ 64" using live_end [OF ok f(1,2)] f(3,4) by simp
  have cp: "duma_memcpy pf ptr old k pos' w = Inr (ptr, w\<lparr>bytes := moved_bytes 0 ptr old (unat k) (bytes w)\<rparr>)"
    if "unat k \<le> unat ?n" "unat k \<le> unat sz" for k pos'
    using memcpy_blocks [OF ok i f(1-3) ne that(1), of pos'] that f(4) sz by (simp add: copied_eq)
  show ?thesis
  proof (cases "sz > ?n")
    case True
    then have lt: "unat ?n < unat sz" by (simp add: word_less_nat_alt)
    let ?w1 = "w\<lparr>bytes := moved_bytes 0 ptr old (unat ?n) (bytes w)\<rparr>"
    have u: "unat (ptr + ?n) = unat ptr + unat ?n" "unat (sz - ?n) = unat sz - unat ?n"
      using lt e by (simp_all add: unat_add_no_wrap unat_sub word_le_nat_alt)
    have acc: "accessible pf ?w1 (ptr + ?n) (unat (sz - ?n))"
      using live_accessible_sub [OF ok f(1,2), of "ptr + ?n" "unat (sz - ?n)"] f(3,4) u lt by (simp add: frame_simps)
    have "(\<lambda>x. if unat (ptr + ?n) \<le> unat x \<and> unat x < unat (ptr + ?n) + unat (sz - ?n) then 0
        else moved_bytes 0 ptr old (unat ?n) (bytes w) x) = ?r"
      unfolding u moved_bytes_def resized_bytes_def using lt by (auto simp: fun_eq_iff)
    with True cp [of ?n] lt memset_filled [OF acc, of 0] show ?thesis
      by (simp add: realloc_move_def sl Let_def cong: if_cong)
  next
    case False
    then have le: "unat sz \<le> unat ?n" by (simp add: word_less_nat_alt)
    then have "moved_bytes 0 ptr old (unat sz) (bytes w) = ?r" by (auto simp: fun_eq_iff moved_bytes_def resized_bytes_def)
    with False cp [of sz] le show ?thesis by (simp add: realloc_move_def sl Let_def)
  qed
qed

lemma realloc_move_ok:
  assumes ok: "heap_ok pf w" and i: "i < length (slots w)" "live (slots w ! i)" "userAddress (slots w ! i) = old"
    and f: "f < length (slots w)" "live (slots w ! f)" "userAddress (slots w ! f) = ptr" "userSize (slots w ! f) = sz"
    and ne: "i \<noteq> f" and a: "old \<noteq> 0" "old \<noteq> null_addr w" and sz: "unat sz < 2 ^ 32"
    and r: "realloc_move pf old ptr sz pos w = Inr w'"
  shows "heap_ok pf w' \<and> keeps pf {i, f} w w' \<and> f < length (slots w') \<and> slots w' ! f = slots w ! f \<and>
    \<not> live (slots w' ! i) \<and> config w' = config w \<and>
    (\<forall>x. unat ptr \<le> unat x \<and> unat x < unat ptr + unat sz \<longrightarrow>
       bytes w' x = resized_bytes old (unat (userSize (slots w ! i))) ptr (unat sz) (bytes w) x)"
proof -
  let ?b = "resized_bytes old (unat (userSize (slots w ! i))) ptr (unat sz) (bytes w)"
  from r obtain q where q: "slotForUserAddress pf old w = Inr q" by (auto simp: realloc_move_def outcome_simps)
  note w3 = r [unfolded realloc_move_eq [OF ok i f ne a(1) sz q]]
  have "?b x = bytes w x" if "\<not> (unat (userAddress (slots w ! f)) \<le> unat x \<and>
      unat x < unat (userAddress (slots w ! f)) + unat (userSize (slots w ! f)))" for x
    using that f(3,4) by (auto simp: resized_bytes_def)
  note fr = user_bytes_frame [OF ok f(1,2) this]
  show ?thesis
  proof (rule duma_deallocate_ok [OF fr(1) a(1) _ _ w3])
    show "old \<noteq> null_addr (w\<lparr>bytes := ?b\<rparr>)" using a(2) by simp
    fix j assume j: "j < length (slots (w\<lparr>bytes := ?b\<rparr>))" "userAddress (slots (w\<lparr>bytes := ?b\<rparr>) ! j) = old"
      and ok': "heap_ok pf w'" and k: "keeps pf {j} (w\<lparr>bytes := ?b\<rparr>) w'"
      and st: "state (slots w' ! j) = DUMAST_ALL_PROTECTED \<or> state (slots w' ! j) = DUMAST_EMPTY"
    have ji: "j = i" using user_address_unique [OF ok i a(1)] j by simp
    have "keeps pf {i, f} w w'"
      using keeps_trans [OF keeps_mono [OF fr(2), of "{i, f}"] keeps_mono [OF k, of "{i, f}"]] ji by auto
    moreover have kf: "f < length (slots w')" "slots w' ! f = slots w ! f"
      "\<And>x. in_slot (slots w ! f) x \<Longrightarrow> bytes w' x = ?b x"
      using keepsD [OF k, of f] f(1,2) ne ji by simp_all
    moreover have "bytes w' x = ?b x" if "unat ptr \<le> unat x \<and> unat x < unat ptr + unat sz" for x
      using that live_user_range(1) [OF ok f(1,2), of x] f(3,4) by (intro kf(3)) simp
    moreover have "\<not> live (slots w' ! i)" using st ji by (auto simp: live_def)
    moreover have "config w' = config w" using config_deallocate [OF w3] by (simp add: config_bytes)
    ultimately show ?thesis using ok' by simp
  qed simp_all
qed

section \<open>Properties\<close>

lemma open_list_facts:
  assumes "open_list pf prot w = Inr w'"
  shows "allocListSize w' = allocListSize w" "allocList w' = allocList w" "bytes w' = bytes w"
    "config w' = config w" "ALIGNMENT w' = ALIGNMENT w" "PROTECT_BELOW w' = PROTECT_BELOW w" "FILL w' = FILL w"
    "MALLOC_0_STRATEGY w' = MALLOC_0_STRATEGY w"
proof -
  have "allocListSize w' = allocListSize w \<and> allocList w' = allocList w \<and> bytes w' = bytes w \<and>
      ALIGNMENT w' = ALIGNMENT w \<and> PROTECT_BELOW w' = PROTECT_BELOW w \<and> FILL w' = FILL w \<and>
      MALLOC_0_STRATEGY w' = MALLOC_0_STRATEGY w"
  proof (cases prot)
    case True
    then have "open_list pf True w = Inr w'" using assms by simp
    then show ?thesis by (rule open_list_frame) simp
  qed (use assms in \<open>simp add: open_list_def\<close>)
  then show "allocListSize w' = allocListSize w" "allocList w' = allocList w" "bytes w' = bytes w"
    "ALIGNMENT w' = ALIGNMENT w" "PROTECT_BELOW w' = PROTECT_BELOW w" "FILL w' = FILL w"
    "MALLOC_0_STRATEGY w' = MALLOC_0_STRATEGY w" by simp_all
  show "config w' = config w" by (rule config_open [OF assms])
qed

lemma ensure_init_done: "allocList w \<noteq> 0 \<Longrightarrow> ensure_init init w = Inr w"
  by (simp add: ensure_init_def)

lemma realloc_ok:
  assumes os: "os_ok pf" and ok: "heap_ok pf w" and sl: "small_list w" and al: "allocList w \<noteq> 0"
    and rq: "request_ok pf (effective_alignment 0 sz w) sz (PROTECT_BELOW w) EFA_REALLOC w"
    and i: "i < length (slots w)" "live (slots w ! i)" "userAddress (slots w ! i) = old"
    and nz: "old \<noteq> 0" "old \<noteq> null_addr w" "sz \<noteq> 0"
    and r: "realloc_with init pf old sz pos w = Inr (ptr, w')" and p: "ptr \<noteq> 0"
  shows "\<exists>f < length (slots w'). userAddress (slots w' ! f) = ptr \<and> userSize (slots w' ! f) = sz \<and> live (slots w' ! f) \<and>
    heap_ok pf w' \<and> keeps pf {i, f} w w' \<and> \<not> live (slots w' ! i) \<and> config w' = config w \<and>
    (f < length (slots w) \<longrightarrow> \<not> live (slots w ! f)) \<and>
    (\<forall>x. unat ptr \<le> unat x \<and> unat x < unat ptr + unat sz \<longrightarrow>
       bytes w' x = resized_bytes old (unat (userSize (slots w ! i))) ptr (unat sz) (bytes w) x)"
proof -
  from r p nz obtain w1 w2 w3 where o: "open_list pf True w = Inr w1"
    and a: "duma_allocate pf 0 sz (PROTECT_BELOW w1) (- 1) False EFA_REALLOC DUMA_FAIL_ENV pos w1 = Inr (ptr, w2)"
    and m: "realloc_move pf old ptr sz pos w2 = Inr w3" and c: "close_list pf True w3 = Inr w'"
    by (auto simp: realloc_with_def realloc_body_def ensure_init_done [OF al] and_then_Inr_iff split: if_splits)
  note oF = open_list_facts [OF o]
  have ok1: "heap_ok pf w1" using open_list_ok [OF o ok] by simp
  note k1 = open_list_keeps [OF o ok]
  have rq1: "request_ok pf (effective_alignment 0 sz w1) sz (PROTECT_BELOW w1) EFA_REALLOC w1"
    using rq nz(3) by (simp add: request_ok_def effective_alignment_def alloc_alignment_def oF)
  have "small_list w1" using sl by (simp add: small_list_def oF)
  from duma_allocate_allocated [OF os ok1 this rq1 a] obtain f
    where f: "allocated pf (effective_alignment 0 sz w1) sz (PROTECT_BELOW w1) (- 1) EFA_REALLOC pos f ptr w1 w2" ..
  note F = allocated_facts [OF f p, simplified]
  have live1: "live (slots w1 ! i)" "i < length (slots w1)" using i k1(2) by simp_all
  have ne: "i \<noteq> f" using F(5) live1 by auto
  have i2: "i < length (slots w2)" "slots w2 ! i = slots w ! i" "\<And>x. in_slot (slots w ! i) x \<Longrightarrow> bytes w2 x = bytes w x"
    using keepsD [OF F(3) live1(2) _ live1(1)] ne k1(2) oF(3) by simp_all
  have na: "null_addr w2 = null_addr w"
    using null_addr_config [OF duma_allocate_config(1) [OF a]] null_addr_config [OF oF(4)] by simp
  have sz: "unat sz < 2 ^ 32" using rq by (auto simp: request_ok_def small_request_def)
  have "heap_ok pf w3 \<and> keeps pf {i, f} w2 w3 \<and> f < length (slots w3) \<and> slots w3 ! f = slots w2 ! f \<and> \<not> live (slots w3 ! i) \<and> config w3 = config w2 \<and>
      (\<forall>x. unat ptr \<le> unat x \<and> unat x < unat ptr + unat sz \<longrightarrow>
         bytes w3 x = resized_bytes old (unat (userSize (slots w2 ! i))) ptr (unat sz) (bytes w2) x)"
    by (rule realloc_move_ok [OF F(2) i2(1) _ _ F(1,4,6,7) ne nz(1) _ sz m]) (use i nz na i2(2) in simp_all)
  note M = this [unfolded i2(2)]
  from M have ok3: "heap_ok pf w3" by simp
  note k4 = close_list_keeps [OF c ok3]
  have b4: "bytes w' = bytes w3" using c by (rule close_list_frame) simp
  have eq: "resized_bytes old (unat (userSize (slots w ! i))) ptr (unat sz) (bytes w2) x =
      resized_bytes old (unat (userSize (slots w ! i))) ptr (unat sz) (bytes w) x"
    if x: "unat ptr \<le> unat x" "unat x < unat ptr + unat sz" for x
  proof (cases "unat x - unat ptr < unat (userSize (slots w ! i))")
    case True
    have "unat (x - ptr) = unat x - unat ptr" using x(1) by (simp add: unat_sub word_le_nat_alt)
    moreover from this have "unat (old + (x - ptr)) = unat old + (unat x - unat ptr)"
      using True live_end [OF ok i(1,2)] i(3) by (subst unat_add_no_wrap) simp_all
    ultimately have "in_slot (slots w ! i) (old + (x - ptr))"
      using True i(3) by (intro live_user_range(1) [OF ok i(1,2)]) simp_all
    with i2(3) show ?thesis by (simp add: resized_bytes_def x)
  qed (simp add: resized_bytes_def x)
  have kk: "keeps pf {i, f} w w'"
    using keeps_trans [OF keeps_mono [OF k1(1) [of "{}"], of "{i, f}"] keeps_trans [OF keeps_mono [OF F(3), of "{i, f}"]
        keeps_trans [OF conjunct1 [OF conjunct2 [OF M]] k4(1)]]] by simp
  show ?thesis
  proof (intro exI [of _ f] conjI allI impI)
    show "f < length (slots w')" "userAddress (slots w' ! f) = ptr" "userSize (slots w' ! f) = sz" "live (slots w' ! f)"
      "\<not> live (slots w' ! i)"
      using M F(4,6,7) k4(2) by simp_all
    show "heap_ok pf w'" by (rule close_list_ok [OF c ok3])
    show "keeps pf {i, f} w w'" by (rule kk)
    show "\<not> live (slots w ! f)" if "f < length (slots w)" using that F(5) k1(2) by simp
    show "config w' = config w"
      using M config_close [OF c] duma_allocate_config(1) [OF a] oF(4) by simp
    fix x :: u64 assume "unat ptr \<le> unat x \<and> unat x < unat ptr + unat sz"
    with M eq b4 show "bytes w' x = resized_bytes old (unat (userSize (slots w ! i))) ptr (unat sz) (bytes w) x"
      by simp
  qed
qed

text \<open>C23: \<open>realloc\<close> to a nonzero size moves the contents: the new block holds the bytes of the old one, as
  far as they fit, and null bytes after them; the old block is gone and no other block has
  changed.\<close>

theorem realloc_preserves:
  assumes os: "os_ok pf" and ok: "heap_ok pf w" and sl: "small_list w" and al: "allocList w \<noteq> 0"
    and rq: "request_ok pf (effective_alignment 0 sz w) sz (PROTECT_BELOW w) EFA_REALLOC w"
    and i: "i < length (slots w)" "live (slots w ! i)" "userAddress (slots w ! i) = old"
    and nz: "old \<noteq> 0" "old \<noteq> null_addr w" "sz \<noteq> 0"
    and r: "realloc_with init pf old sz pos w = Inr (ptr, w')" and p: "ptr \<noteq> 0"
  shows "\<exists>f < length (slots w'). userAddress (slots w' ! f) = ptr \<and> userSize (slots w' ! f) = sz \<and> live (slots w' ! f) \<and>
    heap_ok pf w' \<and> keeps pf {i, f} w w' \<and> \<not> live (slots w' ! i) \<and>
    (\<forall>x. unat ptr \<le> unat x \<and> unat x < unat ptr + unat sz \<longrightarrow>
       bytes w' x = resized_bytes old (unat (userSize (slots w ! i))) ptr (unat sz) (bytes w) x)"
  using realloc_ok [OF assms] by blast

text \<open>C24: Memory from \<open>calloc\<close> is zero, as long as the product of its arguments does not wrap.\<close>

theorem calloc_zeroed:
  assumes "os_ok pf" and "heap_ok pf w" and "small_list w" and "allocList w \<noteq> 0"
    and "unat nelem * unat elsize < 2 ^ 64" and "nelem * elsize \<noteq> 0"
    and "request_ok pf (effective_alignment 0 (nelem * elsize) w) (nelem * elsize) (PROTECT_BELOW w) EFA_CALLOC w"
    and "calloc_with init pf nelem elsize pos w = Inr (p, w')" and "p \<noteq> 0"
  shows "\<forall>x. unat p \<le> unat x \<and> unat x < unat p + unat nelem * unat elsize \<longrightarrow> load pf x w' = Inr 0"
proof -
  from assms(4,8) have a: "duma_allocate pf 0 (nelem * elsize) (PROTECT_BELOW w) 0 True EFA_CALLOC DUMA_FAIL_ENV pos w = Inr (p, w')"
    by (simp add: calloc_with_def ensure_init_def)
  from duma_allocate_allocated [OF assms(1-3,7) a] obtain f
    where f: "allocated pf (effective_alignment 0 (nelem * elsize) w) (nelem * elsize) (PROTECT_BELOW w) 0 EFA_CALLOC pos f p w w'" ..
  have sz: "unat (nelem * elsize) = unat nelem * unat elsize"
    using assms(5) by (simp add: unat_word_ariths(2) mod_less)
  from f assms(9) have "\<forall>x. unat p \<le> unat x \<and> unat x < unat p + unat (nelem * elsize) \<longrightarrow> bytes w' x = 0"
    by (simp add: allocated_def)
  with allocated_accessible [OF f assms(9)] show ?thesis unfolding sz by (simp add: load_def)
qed

text \<open>\<open>malloc_usable_size\<close> of a live block is the size that was asked for, and asking changes neither
  the table nor any block.\<close>

theorem usable_size_correct:
  assumes ok: "heap_ok pf w" and i: "i < length (slots w)" "live (slots w ! i)" "userAddress (slots w ! i) = p"
    and p: "p \<noteq> 0" "p \<noteq> null_addr w"
    and r: "duma_malloc_usable_size pf p w = Inr (n, w')"
  shows "n = userSize (slots w ! i) \<and> heap_ok pf w' \<and> keeps pf {} w w'"
proof -
  from r p obtain w1 q where a: "Page_AllowAccess pf (allocList w) (allocListSize w) w = Inr w1"
    and q: "slotForUserAddress pf p w1 = Inr q"
    by (auto simp: duma_malloc_usable_size_def outcome_simps split: if_splits)
  from a have w1: "w1 = w\<lparr>pages := set_pages pf (allocList w) (allocListSize w) ReadWrite (pages w), clock := Suc (clock w)\<rparr>"
    by (simp add: outcome_simps)
  have ok1: "heap_ok pf w1" by (rule heap_ok_list_pages [OF ok]) (simp_all add: w1)
  have "q = Some i" by (rule slotForUserAddress_live [OF ok1 _ _ _ p(1) q]) (use i w1 in simp_all)
  with r p a q have d: "Page_DenyAccess pf (allocList w) (allocListSize w) w1 = Inr w'" and n: "n = userSize (slots w ! i)"
    by (auto simp: duma_malloc_usable_size_def outcome_simps w1 split: if_splits)
  from d have w': "w' = w1\<lparr>pages := set_pages pf (allocList w) (allocListSize w) NoAccess (pages w1), clock := Suc (clock w1)\<rparr>"
    by (simp add: outcome_simps)
  have "heap_ok pf w'" by (rule heap_ok_list_pages [OF ok1]) (simp_all add: w' w1)
  moreover have "keeps pf {} w w1" "keeps pf {} w1 w'"
    by (rule keeps_list_pages [OF ok] keeps_list_pages [OF ok1]; simp add: w' w1)+
  ultimately show ?thesis using n keeps_trans by blast
qed

text \<open>C26: \<open>strdup\<close> of a string in a block of the program returns a new block that holds the same string,
  terminator included; no other block has changed.\<close>

theorem strdup_correct:
  assumes os: "os_ok pf" and ok: "heap_ok pf w" and sl: "small_list w" and al: "allocList w \<noteq> 0"
    and st: "string_at w str cs"
    and i: "i < length (slots w)" "live (slots w ! i)" "unat (userAddress (slots w ! i)) \<le> unat str"
      "unat str + length cs < unat (userAddress (slots w ! i)) + unat (userSize (slots w ! i))"
    and rq: "request_ok pf (effective_alignment 0 (word_of_nat (Suc (length cs))) w) (word_of_nat (Suc (length cs)))
      (PROTECT_BELOW w) EFA_STRDUP w" and len: "length cs < 2 ^ 29"
    and r: "strdup_with init pf str pos w = Inr (p, w')" and p: "p \<noteq> 0"
  shows "string_at w' p cs \<and> heap_ok pf w' \<and> (\<exists>f < length (slots w'). userAddress (slots w' ! f) = p \<and>
    live (slots w' ! f) \<and> keeps pf {f} w w')"
proof -
  let ?n = "Suc (length cs)" and ?sz = "word_of_nat (Suc (length cs)) :: u64"
  have acc: "accessible pf w str ?n" using i by (intro live_accessible_sub [OF ok i(1,2)]) simp_all
  have sz: "unat ?sz = ?n" using len by (intro unat_word_of_nat) simp
  have sz1: "word_of_nat (length cs) + 1 = ?sz" by (simp add: ac_simps)
  from r p obtain w1 where a: "duma_allocate pf 0 ?sz (PROTECT_BELOW w) (- 1) True EFA_STRDUP DUMA_FAIL_ENV pos w = Inr (p, w1)"
    and c: "run (copy_up pf (\<lambda>j. j \<le> word_of_nat (length cs)) p str (0 :: u32) w1) = Inr w'"
    by (auto simp: strdup_with_def ensure_init_done [OF al] strlen_ok [OF st acc] sz1 outcome_simps simp del: of_nat_Suc split: if_splits)
  from duma_allocate_allocated [OF os ok sl rq a] obtain f
    where f: "allocated pf (effective_alignment 0 ?sz w) ?sz (PROTECT_BELOW w) (- 1) EFA_STRDUP pos f p w w1" ..
  note F = allocated_facts [OF f p, simplified]
  have ne: "i \<noteq> f" using F(5) i by auto
  note K = keepsD [OF F(3) i(1) _ i(2)]
  have i1: "i < length (slots w1)" "slots w1 ! i = slots w ! i" using K(1,2) ne by simp_all
  have us: "userSize (slots w1 ! f) = ?sz" using F(7) by simp
  have acc1: "accessible pf w1 str ?n" using i i1 by (intro live_accessible_sub [OF F(2) i1(1)]) simp_all
  have acc2: "accessible pf w1 p ?n"
    using live_accessible [OF F(2,1,4), of ?n] F(6) us sz by (simp del: of_nat_Suc)
  have safe: "unat p \<le> unat str \<or> unat str + ?n \<le> unat p"
  proof (rule ccontr)
    assume "\<not> (unat p \<le> unat str \<or> unat str + ?n \<le> unat p)"
    then have "unat str < unat p" "unat p < unat str + ?n" by simp_all
    with i i1 F(6) us sz show False
      by (intro two_live_apart [OF F(2) i1(1) _ F(1,4) ne, of p]) (simp_all del: of_nat_Suc)
  qed
  have "(\<lambda>j. j \<le> word_of_nat (length cs)) = (\<lambda>j. j < ?sz)"
    using len sz by (intro ext) (simp add: word_le_nat_alt word_less_nat_alt unat_word_of_nat less_Suc_eq_le del: of_nat_Suc)
  with c copy_up_from [OF acc1 acc2 safe, of "0 :: u32"] len have w': "w' = copied p str ?n w1" by simp
  have b1: "bytes w1 (str + word_of_nat k) = bytes w (str + word_of_nat k)" if "k < ?n" for k
    using that i live_end [OF ok i(1,2)] ne
    by (intro K(4) live_user_range(1) [OF ok i(1,2)]) (simp_all add: unat_offset)
  have "string_at w' p cs"
    using st acc2 b1 copied_at [of p ?n _ str w1] unfolding w' by (simp add: string_upto_def accessible_def less_Suc_eq)
  moreover have bf: "bytes w' x = bytes w1 x" if "\<not> (unat (userAddress (slots w1 ! f)) \<le> unat x \<and>
      unat x < unat (userAddress (slots w1 ! f)) + unat (userSize (slots w1 ! f)))" for x
    unfolding w' using that F(6) us sz by (intro copied_outside) (simp del: of_nat_Suc)
  note fr = user_bytes_frame [OF F(2,1,4) bf]
  have e: "w' = w1\<lparr>bytes := bytes w'\<rparr>" by (simp add: w' copied_from_def)
  moreover have "heap_ok pf w'" "keeps pf {f} w w'" using fr keeps_trans [OF F(3)] e by (metis, metis)
  moreover have "slots w' = slots w1" by (simp add: w' copied_from_def)
  ultimately show ?thesis using F(1,4,6) by auto
qed

text \<open>A pointer that was stored is read back.\<close>

fun le_word :: "u8 list \<Rightarrow> u64" where
  "le_word [] = 0"
| "le_word (c # cs) = ucast c OR push_bit 8 (le_word cs)"

definition load_ptr :: "world \<Rightarrow> u64 \<Rightarrow> u64" where
  "load_ptr w a = le_word (map (\<lambda>i. bytes w (a + word_of_nat i)) [0 ..< 8])"

lemma le_word_drops: "le_word (map (\<lambda>i. ucast (drop_bit (8 * i) p)) [k ..< k + n]) = take_bit (8 * n) (drop_bit (8 * k) p)"
proof (induction n arbitrary: k)
  case 0
  then show ?case by simp
next
  case (Suc n)
  have "[k ..< k + Suc n] = k # [Suc k ..< Suc k + n]" by (simp add: upt_conv_Cons)
  then have "le_word (map (\<lambda>i. ucast (drop_bit (8 * i) p)) [k ..< k + Suc n])
      = ucast (ucast (drop_bit (8 * k) p) :: u8) OR push_bit 8 (take_bit (8 * n) (drop_bit (8 * Suc k) p))"
    using Suc.IH [of "Suc k"] by (simp only: list.map le_word.simps)
  also have "\<dots> = take_bit (8 * Suc n) (drop_bit (8 * k) p)"
    by (rule bit_word_eqI) (auto simp: bit_simps)
  finally show ?case .
qed

lemma store_bytes_Inr:
  "store_bytes pf a cs w = Inr w' \<Longrightarrow> length cs < 2 ^ 64 \<Longrightarrow>
   w' = w\<lparr>bytes := (\<lambda>x. if unat (x - a) < length cs then cs ! unat (x - a) else bytes w x)\<rparr>"
proof (induction cs arbitrary: a w)
  case Nil
  then show ?case by simp
next
  case (Cons c cs)
  let ?w1 = "w\<lparr>bytes := (bytes w)(a := c)\<rparr>"
  from Cons.prems have r: "store_bytes pf (a + 1) cs ?w1 = Inr w'"
    by (auto simp: outcome_simps simp del: fun_upd_apply)
  have "unat (x - (a + 1)) = unat (x - a) - 1" if "x \<noteq> a" for x
    using that by (simp add: diff_diff_eq [symmetric] unat_minus_one)
  moreover have "0 < unat (x - a)" if "x \<noteq> a" for x
    using that by (simp add: unat_gt_0)
  moreover have "\<not> unat (a - (a + 1)) < length cs"
    using Cons.prems(2) by (simp add: unsigned_minus_1_eq_mask mask_eq_exp_minus_1)
  ultimately have "(if unat (x - (a + 1)) < length cs then cs ! unat (x - (a + 1)) else ((bytes w)(a := c)) x)
      = (if unat (x - a) < length (c # cs) then (c # cs) ! unat (x - a) else bytes w x)" for x
  proof (cases "x = a")
    case False
    then obtain k where "unat (x - a) = Suc k" using \<open>x \<noteq> a \<Longrightarrow> 0 < unat (x - a)\<close> gr0_implies_Suc by blast
    with False \<open>x \<noteq> a \<Longrightarrow> unat (x - (a + 1)) = unat (x - a) - 1\<close> show ?thesis by simp
  qed simp
  with Cons.IH [OF r] Cons.prems(2) show ?case by (simp cong: if_cong del: fun_upd_apply)
qed

lemma store_ptr_load: "store_ptr pf a p w = Inr w' \<Longrightarrow> load_ptr w' a = p"
proof -
  let ?cs = "map (\<lambda>i. ucast (drop_bit (8 * i) p)) [0 ..< 8] :: u8 list"
  assume "store_ptr pf a p w = Inr w'"
  then have "w' = w\<lparr>bytes := (\<lambda>x. if unat (x - a) < length ?cs then ?cs ! unat (x - a) else bytes w x)\<rparr>"
    by (intro store_bytes_Inr) (simp_all add: store_ptr_def)
  then have "bytes w' (a + word_of_nat i) = ucast (drop_bit (8 * i) p)" if "i < 8" for i
    using that by (simp add: unat_word_of_nat)
  then have "map (\<lambda>i. bytes w' (a + word_of_nat i)) [0 ..< 8] = ?cs" by simp
  then show ?thesis using le_word_drops [of p 0 8] by (simp only: load_ptr_def) (simp add: take_bit_word_eq_self)
qed


section \<open>Concrete runs\<close>

text \<open>Loops over one page of the small platform, in one step each.\<close>

lemma page_perm:
  assumes "pages w k = ReadWrite" and "4096 * k \<le> unat x" and "unat x < 4096 * k + 4096"
  shows "perm_at sample_pf w x = ReadWrite"
  using assms page_of [of k "unat x"] by (simp add: perm_at_def)

lemma page_accessible:
  assumes "pages w k = ReadWrite" and "4096 * k \<le> unat a" and "unat a + n \<le> 4096 * k + 4096" and "k < 2 ^ 50"
  shows "accessible sample_pf w a n"
proof -
  have e: "unat a + n < 2 ^ 64" using assms(3,4) by simp
  moreover have "perm_at sample_pf w (a + word_of_nat i) = ReadWrite" if "i < n" for i
    using that e assms by (intro page_perm [OF assms(1)]) (simp_all add: unat_offset)
  ultimately show ?thesis by (simp add: accessible_def)
qed

lemma memset_accessible:
  "accessible pf m a n \<Longrightarrow> \<exists>b. memset pf n a c m = Inr (m\<lparr>bytes := b\<rparr>)"
proof (induction n arbitrary: a m)
  case 0
  then show ?case by (auto intro: exI [of _ "bytes m"])
next
  case (Suc n)
  let ?m1 = "m\<lparr>bytes := (bytes m)(a := c)\<rparr>"
  have "accessible pf ?m1 (a + 1) n"
    using accessible_shift [of pf m a 1 n] Suc.prems by (simp add: frame_simps)
  from Suc.IH [OF this] accessible_store [OF Suc.prems, of 0] show ?case by auto
qed

lemma sample_memcpy:
  assumes "pages w k = ReadWrite" "unat s = 4096 * k" "pages w l = ReadWrite" "unat d = 4096 * l" "k \<noteq> l"
    "unat n \<le> 4096" "k < 2 ^ 50" "l < 2 ^ 50"
  shows "duma_memcpy sample_pf d s n pos w = Inr (d, w\<lparr>bytes := moved_bytes 0 d s (unat n) (bytes w)\<rparr>)"
proof -
  have "\<not> overlapping d s (unat n) b" for b using assms by (auto simp: overlapping_def)
  with assms memcpy_correct [of sample_pf w s n d pos] show ?thesis
    by (simp add: page_accessible [of w k s] page_accessible [of w l d] copied_eq)
qed

lemma sample_memset:
  assumes "pages w k = ReadWrite" and "4096 * k \<le> unat a" and "unat a + n \<le> 4096 * k + 4096" and "k < 2 ^ 50"
  shows "memset sample_pf n a c w = Inr (w\<lparr>bytes := (\<lambda>x. if unat a \<le> unat x \<and> unat x < unat a + n then c else bytes w x)\<rparr>)"
proof -
  from memset_accessible [OF page_accessible [OF assms]] obtain b where b: "memset sample_pf n a c w = Inr (w\<lparr>bytes := b\<rparr>)"
    by blast
  from memset_eq [OF this] assms b show ?thesis by simp
qed

lemma sample_settings:
  "PROTECT_BELOW (sample_world lp) = False" "FILL (sample_world lp) = - 1" "ALIGNMENT (sample_world lp) = 16"
  "bytes (sample_world lp) = (\<lambda>_. 0)"
  by (simp_all add: sample_world_def initial_world_def)

lemma sample_munmap: "os_munmap sample_pf c pg a n = (a AND 4095 = 0)"
  by (simp add: sample_pf_def)

lemma sample_realloc:
  "\<exists>w'. realloc_with Inr sample_pf 0x10002000 4096 (None, 3) (sample_world NoAccess) = Inr (0x10010000, w')"
  by (simp add: duma_defs Let_def upt_conv_Cons check_while_empty fill_while_empty
      sample_memcpy [of _ 65538 _ 65552] sample_munmap del: sample_pf_def)

lemma sample_pow2: "is_pow2 (16 :: u64)" "is_pow2 (2 :: u64)"
  using is_pow2_exp [of 4, where 'a = 64] is_pow2_exp [of 1, where 'a = 64] by simp_all

theorem realloc_preserves_witness:
  "\<exists>w' f. realloc_with Inr sample_pf 0x10002000 4096 (None, 3) (sample_world NoAccess) = Inr (0x10010000, w') \<and>
     userSize (slots w' ! f) = 4096 \<and> live (slots w' ! f) \<and> \<not> live (slots w' ! 1) \<and> bytes w' 0x10010001 = 0"
proof -
  let ?w = "sample_world NoAccess"
  obtain w' where w': "realloc_with Inr sample_pf 0x10002000 4096 (None, 3) ?w = Inr (0x10010000, w')"
    using sample_realloc by blast
  have rq: "request_ok sample_pf (effective_alignment 0 4096 ?w) 4096 (PROTECT_BELOW ?w) EFA_REALLOC ?w"
    using sample_pow2(1) by (simp add: sample_alignment request_ok_def small_request_def sample_settings)
  from realloc_preserves [OF sample_os_ok sample_heap_ok [of NoAccess] sample_small_list _ rq _ _ _ _ _ _ w', of 1]
  obtain f where "userSize (slots w' ! f) = 4096" "live (slots w' ! f)" "\<not> live (slots w' ! 1)"
    and b: "\<And>x. 0x10010000 \<le> unat x \<Longrightarrow> unat x < 0x10010000 + 4096 \<Longrightarrow>
       bytes w' x = resized_bytes 0x10002000 (unat (userSize (slots ?w ! 1))) 0x10010000 4096 (bytes ?w) x"
    by (auto simp: sample_live)
  moreover have "bytes w' 0x10010001 = 0" using b [of "0x10010001"]
    by (simp add: resized_bytes_def sample_settings)
  ultimately show ?thesis using w' by blast
qed

lemma sample_calloc:
  "\<exists>w'. calloc_with Inr sample_pf 2048 2 (None, 3) (sample_world NoAccess) = Inr (0x10010000, w')"
  by (simp add: duma_defs Let_def upt_conv_Cons check_while_empty fill_while_empty
      sample_memset [of _ 65552] del: memset.simps sample_pf_def)

theorem calloc_zeroed_witness:
  "\<exists>w'. calloc_with Inr sample_pf 2048 2 (None, 3) (sample_world NoAccess) = Inr (0x10010000, w') \<and>
     load sample_pf 0x10010fff w' = Inr 0"
proof -
  let ?w = "sample_world NoAccess"
  obtain w' where w': "calloc_with Inr sample_pf 2048 2 (None, 3) ?w = Inr (0x10010000, w')" using sample_calloc by blast
  have rq: "request_ok sample_pf (effective_alignment 0 (2048 * 2) ?w) (2048 * 2) (PROTECT_BELOW ?w) EFA_CALLOC ?w"
    using sample_pow2(1) by (simp add: sample_alignment request_ok_def small_request_def sample_settings)
  from calloc_zeroed [OF sample_os_ok sample_heap_ok [of NoAccess] sample_small_list _ _ _ rq w']
  have "load sample_pf 0x10010fff w' = Inr 0" by simp
  with w' show ?thesis by blast
qed

theorem usable_size_correct_witness:
  "\<exists>w'. duma_malloc_usable_size sample_pf 0x10002000 (sample_world NoAccess) = Inr (4096, w') \<and> heap_ok sample_pf w'"
proof -
  have "\<exists>w'. duma_malloc_usable_size sample_pf 0x10002000 (sample_world NoAccess) = Inr (4096, w')"
    by (simp add: duma_defs Let_def upt_conv_Cons del: sample_pf_def)
  then obtain w' where w': "duma_malloc_usable_size sample_pf 0x10002000 (sample_world NoAccess) = Inr (4096, w')" ..
  from usable_size_correct [OF sample_heap_ok [of NoAccess] _ _ _ _ _ w', of 1] w' show ?thesis
    by (auto simp: sample_live)
qed

lemma sample_posix_memalign:
  "\<exists>w'. posix_memalign_with Inr sample_pf 0x10002000 4096 4096 (None, 3) (sample_world NoAccess) = Inr (0, w')"
  by (simp add: duma_defs Let_def upt_conv_Cons check_while_empty fill_while_empty store_ptr_def
      page_perm [of _ 65538] store_def del: memset.simps sample_pf_def)


lemma sample_fill:
  assumes "pages w k = ReadWrite" and "4096 * k \<le> unat b" and "unat e \<le> 4096 * k + 4096" and "k < 2 ^ 50"
  shows "fill_while sample_pf b e c w = Inr (w\<lparr>bytes := (\<lambda>x. if b \<le> x \<and> x < e then c else bytes w x)\<rparr>)"
  using assms by (intro fill_while_eq page_perm [OF assms(1)]) (simp_all add: word_le_nat_alt word_less_nat_alt)

lemma sample_text_ok: "heap_ok sample_pf sample_text" "small_list sample_text" "allocList sample_text = 0x10000000"
  "slots sample_text = slots (sample_world NoAccess)" "PROTECT_BELOW sample_text = False"
proof -
  show "heap_ok sample_pf sample_text"
    using sample_heap_ok [of NoAccess] by (simp add: sample_text_def heap_ok_def list_slot_def)
qed (use sample_small_list [of NoAccess] in \<open>simp_all add: sample_text_def small_list_def sample_settings\<close>)

lemma sample_block_size: "userSize sample_block = 4096"
  by (simp add: sample_block_def)

lemma sample_strdup:
  "\<exists>w'. strdup_with Inr sample_pf 0x10002000 (None, 3) sample_text = Inr (0x10010ffc, w')"
proof -
  have l: "strlen sample_pf 0x10002000 sample_text = Inr (word_of_nat (length [97, 98 :: u8]))"
    by (rule strlen_ok [OF sample_string]) (simp add: sample_accessible)
  have "\<exists>w'. duma_allocate sample_pf 0 3 False (- 1) True EFA_STRDUP DUMA_FAIL_ENV (None, 3) sample_text = Inr (0x10010ffc, w') \<and>
      pages w' 65538 = ReadWrite \<and> pages w' 65552 = ReadWrite"
    by (simp add: sample_text_def duma_defs Let_def upt_conv_Cons lower_pow2.simps check_while_empty sample_fill [of _ 65552]
        del: sample_pf_def)
  then obtain w1 where "duma_allocate sample_pf 0 3 False (- 1) True EFA_STRDUP DUMA_FAIL_ENV (None, 3) sample_text = Inr (0x10010ffc, w1)"
    and "pages w1 65538 = ReadWrite" "pages w1 65552 = ReadWrite" by blast
  then show ?thesis
    by (simp add: strdup_with_def ensure_init_def l sample_text_ok copy_up.simps load_def store_def
        page_perm [of _ 65538] page_perm [of _ 65552] frame_simps)
qed

theorem strdup_correct_witness:
  "\<exists>w'. strdup_with Inr sample_pf 0x10002000 (None, 3) sample_text = Inr (0x10010ffc, w') \<and> string_at w' 0x10010ffc [97, 98]"
proof -
  obtain w' where w': "strdup_with Inr sample_pf 0x10002000 (None, 3) sample_text = Inr (0x10010ffc, w')"
    using sample_strdup by blast
  have "effective_alignment 0 3 sample_text = 2"
    by (simp add: effective_alignment_def alloc_alignment_def sample_text_def sample_settings lower_pow2.simps)
  then have rq: "request_ok sample_pf (effective_alignment 0 (word_of_nat (Suc (length [97, 98 :: u8]))) sample_text)
      (word_of_nat (Suc (length [97, 98 :: u8]))) (PROTECT_BELOW sample_text) EFA_STRDUP sample_text"
    using sample_pow2(2) by (simp add: request_ok_def small_request_def sample_text_ok)
  from strdup_correct [OF sample_os_ok sample_text_ok(1,2) _ sample_string _ _ _ _ rq _ w', of 1] w'
  show ?thesis by (auto simp: sample_text_ok sample_live sample_block_size)
qed

text \<open>When the product of \<open>calloc\<close>'s arguments wraps, a block of the wrapped size is returned.\<close>

theorem calloc_wraps:
  "\<exists>w'. calloc_with Inr sample_pf 0x8000000000000800 2 (None, 3) (sample_world NoAccess) = Inr (0x10010000, w')"
proof -
  have e: "(0x8000000000000800 :: u64) * 2 = 2048 * 2" by simp
  show ?thesis using sample_calloc by (simp only: calloc_with_def e)
qed

text \<open>The pointer that \<open>malloc(0)\<close> returns under strategy 2 is accepted by \<open>free\<close>, but \<open>realloc\<close> of it
  stops the program.\<close>

theorem realloc_null_addr:
  "realloc_with Inr sample_pf 0x10020000 4096 (None, 3) ((sample_world NoAccess)\<lparr>null_addr := 0x10020000\<rparr>)
    = Inl (Aborted (Realloc_not_from_malloc 0x10020000 4096))"
  "free_with Inr sample_pf 0x10020000 (None, 3) ((sample_world NoAccess)\<lparr>null_addr := 0x10020000\<rparr>)
    = Inr ((sample_world NoAccess)\<lparr>null_addr := 0x10020000\<rparr>)"
  by (simp_all add: duma_defs Let_def upt_conv_Cons check_while_empty fill_while_empty del: sample_pf_def)

end
