(* ===== verification/Duma_Env.thy ===== *)
theory Duma_Env
  imports Duma_Api
begin

text \<open>
  Reading the settings from the environment: \<open>duma_getenv\<close> and \<open>duma_getenvvars\<close> of
  \<open>src/duma.c\<close>, and the \<open>atoi\<close> and \<open>atol\<close> of the C library they use.

  \<open>environ\<close> is the list of the addresses of the environment's strings, which lie in memory.
\<close>

section \<open>Looking up a variable\<close>

text \<open>\<open>while (varname[idx] != '\0' && v[idx] == varname[idx]) ++idx;\<close> the second component says whether the
  end of the name was reached.\<close>

fun match_name :: "platform \<Rightarrow> u8 list \<Rightarrow> u64 \<Rightarrow> nat \<Rightarrow> 'a machine_scheme \<Rightarrow> stop + nat \<times> bool" where
  "match_name pf [] v idx m = Inr (idx, True)"
| "match_name pf (c # cs) v idx m =
     and_then (load pf (v + word_of_nat idx) m) (\<lambda>x.
       if x = c then match_name pf cs v (Suc idx) m else Inr (idx, False))"

fun getenv_from :: "platform \<Rightarrow> u8 list \<Rightarrow> u64 list \<Rightarrow> 'a machine_scheme \<Rightarrow> stop + u64 option" where
  "getenv_from pf name [] m = Inr None"
| "getenv_from pf name (v # vs) m =
     and_then (match_name pf name v 0 m) (\<lambda>(idx, name_end).
       if idx > 0 \<and> name_end then
         and_then (load pf (v + word_of_nat idx) m) (\<lambda>x.
           if x = 61 then Inr (Some (v + word_of_nat (idx + 1))) else getenv_from pf name vs m)
       else getenv_from pf name vs m)"

definition duma_getenv :: "platform \<Rightarrow> u8 list \<Rightarrow> world \<Rightarrow> stop + u64 option" where
  "duma_getenv pf varname w =
     (if varname = [] then Inr None else getenv_from pf varname (environ w) w)"

section \<open>Numbers\<close>

definition is_space :: "u8 \<Rightarrow> bool" where
  "is_space c \<longleftrightarrow> c = 32 \<or> (9 \<le> c \<and> c \<le> 13)"

definition is_digit :: "u8 \<Rightarrow> bool" where
  "is_digit c \<longleftrightarrow> 48 \<le> c \<and> c \<le> 57"

fun digits_value :: "int \<Rightarrow> u8 list \<Rightarrow> int" where
  "digits_value n [] = n"
| "digits_value n (c # cs) = (if is_digit c then digits_value (10 * n + (uint c - 48)) cs else n)"

definition atol :: "u8 list \<Rightarrow> int" where
  "atol s =
     (let s = dropWhile is_space s;
          (neg, s) = (case s of [] \<Rightarrow> (False, s)
                      | c # cs \<Rightarrow> if c = 45 then (True, cs) else if c = 43 then (False, cs) else (False, s));
          n = digits_value 0 s; n = (if neg then - n else n)
      in max (- (2 ^ 63)) (min (2 ^ 63 - 1) n))"

definition atoi :: "u8 list \<Rightarrow> int" where
  "atoi s = sint (word_of_int (atol s) :: u32)"

definition read_string :: "platform \<Rightarrow> u64 \<Rightarrow> 'a machine_scheme \<Rightarrow> stop + u8 list" where
  "read_string pf a m = and_then (strlen pf a m) (\<lambda>n. Inr (map (\<lambda>i. bytes m (a + word_of_nat i)) [0 ..< unat n]))"

section \<open>\<open>duma_getenvvars\<close>\<close>

definition with_env :: "platform \<Rightarrow> string \<Rightarrow> (u64 \<Rightarrow> world \<Rightarrow> stop + world) \<Rightarrow> world \<Rightarrow> stop + world" where
  "with_env pf name f w =
     and_then (duma_getenv pf (bytes_of name) w) (\<lambda>r. case r of None \<Rightarrow> Inr w | Some a \<Rightarrow> f a w)"

definition env_num :: "(u8 list \<Rightarrow> int) \<Rightarrow> platform \<Rightarrow> string \<Rightarrow> (int \<Rightarrow> world \<Rightarrow> world) \<Rightarrow> world \<Rightarrow> stop + world" where
  "env_num conv pf name f = with_env pf name (\<lambda>a w. and_then (read_string pf a w) (\<lambda>s. Inr (f (conv s) w)))"

abbreviation env_int :: "platform \<Rightarrow> string \<Rightarrow> (int \<Rightarrow> world \<Rightarrow> world) \<Rightarrow> world \<Rightarrow> stop + world" where
  "env_int \<equiv> env_num atoi"

definition set_alignment :: "int \<Rightarrow> world \<Rightarrow> world" where
  "set_alignment n w =
     (let w = w\<lparr>ALIGNMENT := word_of_int n\<rparr> in if ALIGNMENT w = 0 then w\<lparr>ALIGNMENT := 1\<rparr> else w)"

definition set_malloc_0 :: "int \<Rightarrow> world \<Rightarrow> world" where
  "set_malloc_0 tmp w = (if tmp \<ge> 0 \<and> tmp \<le> 3 then w\<lparr>MALLOC_0_STRATEGY := tmp\<rparr> else w)"

definition set_new_0 :: "int \<Rightarrow> world \<Rightarrow> world" where
  "set_new_0 tmp w = (if tmp \<ge> 2 \<and> tmp \<le> 3 then w\<lparr>NEW_0_STRATEGY := tmp\<rparr> else w)"

definition set_fill :: "int \<Rightarrow> world \<Rightarrow> world" where
  "set_fill n w =
     (let w = w\<lparr>FILL := word_of_int n\<rparr> in if FILL w \<noteq> - 1 then w\<lparr>FILL := FILL w AND 255\<rparr> else w)"

definition set_check_freq :: "int \<Rightarrow> world \<Rightarrow> world" where
  "set_check_freq tmp w = (if tmp > 0 then w\<lparr>CHECK_FREQ := tmp\<rparr> else w)"

text \<open>The settings of the allocator.\<close>

definition getenv_alloc :: "platform \<Rightarrow> world \<Rightarrow> stop + world" where
  "getenv_alloc pf w =
     and_then (env_int pf ''DUMA_ALIGNMENT'' set_alignment w) (\<lambda>w.
     and_then (env_int pf ''DUMA_PROTECT_BELOW'' (\<lambda>n. PROTECT_BELOW_update (\<lambda>_. n \<noteq> 0)) w) (\<lambda>w.
     and_then (env_int pf ''DUMA_REPORT_ALL_LEAKS'' (\<lambda>n. REPORT_ALL_LEAKS_update (\<lambda>_. n \<noteq> 0)) w) (\<lambda>w.
     and_then (env_num atol pf ''DUMA_PROTECT_FREE'' (\<lambda>n. PROTECT_FREE_update (\<lambda>_. n)) w) (\<lambda>w.
     and_then (env_num atol pf ''DUMA_MAX_ALLOC'' (\<lambda>n. MAX_ALLOC_update (\<lambda>_. n)) w) (\<lambda>w.
     and_then (env_int pf ''MALLOC_0_STRATEGY'' set_malloc_0 w) (\<lambda>w.
     and_then (env_int pf ''NEW_0_STRATEGY'' set_new_0 w) (\<lambda>w.
     and_then (env_int pf ''DUMA_MALLOC_FAILEXIT'' (\<lambda>n. MALLOC_FAILEXIT_update (\<lambda>_. n \<noteq> 0)) w) (\<lambda>w.
     and_then (env_int pf ''DUMA_FREE_ACCESS'' (\<lambda>n. FREE_ACCESS_update (\<lambda>_. n \<noteq> 0)) w) (\<lambda>w.
     and_then (env_int pf ''DUMA_FILL'' set_fill w) (\<lambda>w.
     and_then (env_int pf ''DUMA_SLACKFILL'' (\<lambda>n. SLACKFILL_update (\<lambda>_. word_of_int n)) w) (\<lambda>w.
     Inr (w\<lparr>SLACKFILL := SLACKFILL w AND 255\<rparr>))))))))))))"

text \<open>The settings of the output, and the banner.\<close>

definition getenv_output :: "platform \<Rightarrow> world \<Rightarrow> stop + world" where
  "getenv_output pf w =
     and_then (env_int pf ''DUMA_SHOW_ALLOC'' (\<lambda>n. SHOW_ALLOC_update (\<lambda>_. n \<noteq> 0)) w) (\<lambda>w.
     and_then (env_int pf ''DUMA_SUPPRESS_ATEXIT'' (\<lambda>n. SUPPRESS_ATEXIT_update (\<lambda>_. n \<noteq> 0)) w) (\<lambda>w.
     and_then (env_int pf ''DUMA_MEMCPY_OVERLAP'' (\<lambda>n. MEMCPY_OVERLAP_update (\<lambda>_. n \<noteq> 0)) w) (\<lambda>w.
     and_then (env_int pf ''DUMA_OUTPUT_STACKTRACE'' (\<lambda>n. OUTPUT_STACKTRACE_update (\<lambda>_. n \<noteq> 0)) w) (\<lambda>w.
     and_then (with_env pf ''DUMA_OUTPUT_STACKTRACE_MAPFILE'' (\<lambda>a w.
         and_then (strdup_with Inr pf a (Some ''src/duma.c'', 904) w) (\<lambda>(p, w).
         Inr (w\<lparr>OUTPUT_STACKTRACE_MAPFILE := p\<rparr>))) w) (\<lambda>w.
     and_then (env_int pf ''DUMA_OUTPUT_DEBUG'' (\<lambda>n. OUTPUT_DEBUG_update (\<lambda>_. n \<noteq> 0)) w) (\<lambda>w.
     and_then (env_int pf ''DUMA_OUTPUT_STDOUT'' (\<lambda>n. OUTPUT_STDOUT_update (\<lambda>_. n \<noteq> 0)) w) (\<lambda>w.
     and_then (env_int pf ''DUMA_OUTPUT_STDERR'' (\<lambda>n. OUTPUT_STDERR_update (\<lambda>_. n \<noteq> 0)) w) (\<lambda>w.
     and_then (with_env pf ''DUMA_OUTPUT_FILE'' (\<lambda>a w.
         and_then (strdup_with Inr pf a (Some ''src/duma.c'', 940) w) (\<lambda>(p, w).
         Inr (w\<lparr>OUTPUT_FILE := p\<rparr>))) w) (\<lambda>w.
     and_then (env_int pf ''DUMA_SKIPCOUNT_INIT'' (\<lambda>n. SKIPCOUNT_INIT_update (\<lambda>_. n \<noteq> 0)) w) (\<lambda>w.
     and_then (env_int pf ''DUMA_CHECK_FREQ'' set_check_freq w) (\<lambda>w.
     and_then (env_int pf ''DUMA_DISABLE_BANNER'' (\<lambda>n. DISABLE_BANNER_update (\<lambda>_. n \<noteq> 0)) w) (\<lambda>w.
     Inr (if \<not> DISABLE_BANNER w
          then DUMA_Print Banner_copyright (DUMA_Print Banner_version (DUMA_Print Banner_vertype w)) else w)))))))))))))"

definition duma_getenvvars :: "platform \<Rightarrow> world \<Rightarrow> stop + world" where
  "duma_getenvvars pf w = and_then (getenv_alloc pf w) (getenv_output pf)"

section \<open>Looking up: correctness\<close>

text \<open>The environment as a list of strings, each at its address.\<close>

definition environment :: "platform \<Rightarrow> world \<Rightarrow> u8 list list \<Rightarrow> bool" where
  "environment pf w ss \<longleftrightarrow> length (environ w) = length ss \<and>
     (\<forall>k < length ss. string_at w (environ w ! k) (ss ! k) \<and> accessible pf w (environ w ! k) (Suc (length (ss ! k))))"

text \<open>The first entry of the form \<open>name=value\<close>, and the address of its value.\<close>

fun first_binding :: "u8 list \<Rightarrow> (u64 \<times> u8 list) list \<Rightarrow> u64 option" where
  "first_binding name [] = None"
| "first_binding name ((v, s) # es) =
     (if take (Suc (length name)) s = name @ [61] then Some (v + word_of_nat (Suc (length name)))
      else first_binding name es)"

lemma string_load:
  assumes "string_at w v s" and "accessible pf w v (Suc (length s))" and "k \<le> length s"
  shows "load pf (v + word_of_nat k) w = Inr (if k < length s then s ! k else 0)"
  using accessible_load [OF assms(2), of k] assms(1,3) by (auto simp: string_upto_def)

lemma match_name_ok:
  assumes "string_at w v s" and "accessible pf w v (Suc (length s))" and "0 \<notin> set cs"
    and "take k s = pre" and "k \<le> length s"
  shows "\<exists>n. match_name pf cs v k w = Inr (n, take (length cs) (drop k s) = cs) \<and>
    (take (length cs) (drop k s) = cs \<longrightarrow> n = k + length cs \<and> n \<le> length s)"
  using assms(3-5)
proof (induction cs arbitrary: k pre)
  case Nil
  then show ?case by simp
next
  case (Cons c cs)
  show ?case
  proof (cases "k < length s \<and> s ! k = c")
    case True
    with Cons.IH [of "Suc k"] Cons.prems obtain n
      where "match_name pf cs v (Suc k) w = Inr (n, take (length cs) (drop (Suc k) s) = cs)"
        "take (length cs) (drop (Suc k) s) = cs \<longrightarrow> n = Suc k + length cs \<and> n \<le> length s" by auto
    with True string_load [OF assms(1,2), of k] show ?thesis
      by (auto simp: Cons_nth_drop_Suc [symmetric])
  next
    case False
    have "take (Suc (length cs)) (drop k s) \<noteq> c # cs"
      using False by (cases "k < length s") (auto simp: Cons_nth_drop_Suc [symmetric])
    moreover have "(if k < length s then s ! k else 0) \<noteq> c" using False Cons.prems(1) by auto
    ultimately show ?thesis using string_load [OF assms(1,2), of k] Cons.prems(3) by simp
  qed
qed

lemma getenv_from_ok:
  assumes "0 \<notin> set name" and "name \<noteq> []" and "length vs = length ss"
    and "\<forall>k < length ss. string_at w (vs ! k) (ss ! k) \<and> accessible pf w (vs ! k) (Suc (length (ss ! k)))"
  shows "getenv_from pf name vs w = Inr (first_binding name (zip vs ss))"
  using assms(3,4)
proof (induction vs ss rule: list_induct2)
  case Nil
  then show ?case by simp
next
  case (Cons v vs s ss)
  from Cons.prems have s: "string_at w v s" "accessible pf w v (Suc (length s))" by auto
  have "string_at w (vs ! k) (ss ! k) \<and> accessible pf w (vs ! k) (Suc (length (ss ! k)))" if "k < length ss" for k
    using Cons.prems [rule_format, of "Suc k"] that by simp
  then have IH: "getenv_from pf name vs w = Inr (first_binding name (zip vs ss))" by (intro Cons.IH) blast
  from match_name_ok [OF s assms(1), of 0] obtain n where n: "match_name pf name v 0 w = Inr (n, take (length name) s = name)"
    "take (length name) s = name \<longrightarrow> n = length name \<and> n \<le> length s" by auto
  show ?case
  proof (cases "take (length name) s = name")
    case False
    then have "take (Suc (length name)) s \<noteq> name @ [61]"
      by (metis append_eq_conv_conj take_take min.absorb1 le_Suc_eq order_refl)
    with False n IH show ?thesis by simp
  next
    case True
    with n have l: "n = length name" "length name \<le> length s" by auto
    have "take (Suc (length name)) s = name @ [61] \<longleftrightarrow> length name < length s \<and> s ! length name = 61"
      using True l by (cases "length name < length s") (auto simp: take_Suc_conv_app_nth)
    moreover have "(if length name < length s then s ! length name else 0) = 61 \<longleftrightarrow> length name < length s \<and> s ! length name = 61"
      by simp
    ultimately show ?thesis using True n l IH assms(2) string_load [OF s, of "length name"] by (simp add: ac_simps)
  qed
qed

text \<open>\<open>duma_getenv\<close> finds the value of the first entry that binds exactly this name.\<close>

theorem getenv_correct:
  assumes "environment pf w ss" and "0 \<notin> set name" and "name \<noteq> []"
  shows "duma_getenv pf name w = Inr (first_binding name (zip (environ w) ss))"
  using getenv_from_ok [OF assms(2,3), of "environ w" ss w pf] assms(1,3)
  by (simp add: duma_getenv_def environment_def)

section \<open>The settings that result\<close>

lemma copy_up_bytes:
  assumes "copy_up pf P d s (i :: 'i::len word) m = Some r"
  shows "case r of Inl e \<Rightarrow> True | Inr m' \<Rightarrow> \<exists>b. m' = m\<lparr>bytes := b\<rparr>"
proof -
  let ?Q = "\<lambda>(((((pf, P), d), s), i), m) r. case r of Inl e \<Rightarrow> True | Inr m' \<Rightarrow> \<exists>b. m' = m\<lparr>bytes := b\<rparr>"
  have "?Q (((((pf, P), d), s), i), m) r"
  proof (rule copy_up.raw_induct [OF _ assms])
    fix cu pf P d s m r and i :: "'i word"
    assume IH: "\<And>pf P d s (i :: 'i word) m r. cu pf P d s i m = Some r \<Longrightarrow> ?Q (((((pf, P), d), s), i), m) r"
      and step: "(if P (ucast i) then
        case load pf (s + ucast i) m of
          Inl e \<Rightarrow> Some (Inl e)
        | Inr c \<Rightarrow> (case store pf (d + ucast i) c m of
              Inl e \<Rightarrow> Some (Inl e)
            | Inr m \<Rightarrow> cu pf P d s (i + 1) m)
      else Some (Inr m)) = Some r"
    show "?Q (((((pf, P), d), s), i), m) r"
    proof (cases r)
      case (Inr m')
      show ?thesis
      proof (cases "P (ucast i)")
        case False
        with step Inr show ?thesis by (auto intro!: exI [of _ "bytes m"])
      next
        case True
        with step Inr obtain c m1 where "store pf (d + ucast i) c m = Inr m1" "cu pf P d s (i + 1) m1 = Some (Inr m')"
          by (auto split: sum.splits)
        with IH [of pf P d s "i + 1" m1 "Inr m'"] Inr show ?thesis by (auto simp: outcome_simps)
      qed
    qed simp
  qed
  then show ?thesis by simp
qed

lemma strdup_config: "strdup_with Inr pf str pos w = Inr (p, w') \<Longrightarrow> config w' = config w"
proof -
  assume "strdup_with Inr pf str pos w = Inr (p, w')"
  then obtain sz w1 where a: "duma_allocate pf 0 (sz + 1) (PROTECT_BELOW w) (- 1) True EFA_STRDUP DUMA_FAIL_ENV pos w = Inr (p, w1)"
    and c: "w' = w1 \<or> run (copy_up pf (\<lambda>i. i \<le> sz) p str (0 :: u32) w1) = Inr w'"
    by (auto simp: strdup_with_def ensure_init_def and_then_Inr_iff split: if_splits)
  from c have "\<exists>b. w' = w1\<lparr>bytes := b\<rparr>"
  proof
    assume r: "run (copy_up pf (\<lambda>i. i \<le> sz) p str (0 :: u32) w1) = Inr w'"
    then have "copy_up pf (\<lambda>i. i \<le> sz) p str (0 :: u32) w1 = Some (Inr w')"
      by (cases "copy_up pf (\<lambda>i. i \<le> sz) p str (0 :: u32) w1") simp_all
    from copy_up_bytes [OF this] show ?thesis by simp
  qed (auto intro: exI [of _ "bytes w1"])
  with duma_allocate_config(1) [OF a] show ?thesis by (auto simp: config_bytes)
qed

text \<open>The range of every setting the allocator relies on.\<close>

definition valid_settings :: "world \<Rightarrow> bool" where
  "valid_settings w \<longleftrightarrow> ALIGNMENT w \<noteq> 0 \<and> (FILL w = - 1 \<or> FILL w \<le> 255) \<and> SLACKFILL w \<le> 255 \<and>
     MALLOC_0_STRATEGY w \<in> {0, 1, 2, 3} \<and> NEW_0_STRATEGY w \<in> {2, 3} \<and> 0 \<le> CHECK_FREQ w"

lemma valid_settings_config: "config w' = config w \<Longrightarrow> valid_settings w' = valid_settings w"
proof -
  have "valid_settings (config v) = valid_settings v" for v by (simp add: valid_settings_def mask_defs)
  then show "config w' = config w \<Longrightarrow> valid_settings w' = valid_settings w" by metis
qed

text \<open>What holds of every state a sequence of steps can return.\<close>

definition ensures :: "(world \<Rightarrow> bool) \<Rightarrow> stop + world \<Rightarrow> bool" where
  "ensures P m \<longleftrightarrow> (\<forall>w. m = Inr w \<longrightarrow> P w)"

lemma ensures_return: "P w \<Longrightarrow> ensures P (Inr w)"
  by (simp add: ensures_def)

lemma ensures_then: "ensures P m \<Longrightarrow> (\<And>w. P w \<Longrightarrow> ensures Q (f w)) \<Longrightarrow> ensures Q (and_then m f)"
  by (auto simp: ensures_def and_then_Inr_iff)

lemma ensures_env_num: "P w \<Longrightarrow> (\<And>n. P (f n w)) \<Longrightarrow> ensures P (env_num conv pf name f w)"
  by (auto simp: ensures_def env_num_def with_env_def and_then_Inr_iff split: option.splits)

lemma ensures_with_env: "P w \<Longrightarrow> (\<And>a. ensures P (f a w)) \<Longrightarrow> ensures P (with_env pf name f w)"
  by (auto simp: ensures_def with_env_def and_then_Inr_iff split: option.splits)

lemma and_255_le: "x AND 255 \<le> (255 :: 'a::len word)"
  by (rule word_and_le1) 


text \<open>Witnesses: an environment of two entries.\<close>

definition sample_env :: world where
  "sample_env = (sample_world NoAccess)\<lparr>environ := [0x10002000, 0x10002010],
     bytes := (\<lambda>x. if 0x10002000 \<le> x \<and> x < 0x10002004 then bytes_of ''A1=2'' ! unat (x - 0x10002000)
                   else if 0x10002010 \<le> x \<and> x < 0x10002013 then bytes_of ''A=7'' ! unat (x - 0x10002010) else 0)\<rparr>"

lemma sample_env_access: "0x10002000 \<le> unat a \<Longrightarrow> unat a + n \<le> 0x10003000 \<Longrightarrow> accessible sample_pf sample_env a n"
  by (rule page_accessible [of _ 65538]) (simp_all add: sample_env_def sample_pages_def)

lemma sample_env_simps: "environ sample_env = [0x10002000, 0x10002010]"
  "bytes sample_env x = (if 0x10002000 \<le> x \<and> x < 0x10002004 then bytes_of ''A1=2'' ! unat (x - 0x10002000)
     else if 0x10002010 \<le> x \<and> x < 0x10002013 then bytes_of ''A=7'' ! unat (x - 0x10002010) else 0)"
  by (simp_all add: sample_env_def)

lemma sample_environment: "environment sample_pf sample_env [bytes_of ''A1=2'', bytes_of ''A=7'']"
  by (auto simp: environment_def less_Suc_eq sample_env_simps(1) bytes_of_def intro!: sample_env_access)
    (auto simp: sample_env_simps string_upto_def bytes_of_def less_Suc_eq)

theorem getenv_correct_witness:
  "duma_getenv sample_pf [65] sample_env = Inr (Some 0x10002012)"
  using getenv_correct [OF sample_environment, of "[65]"]
  by (simp add: sample_env_simps(1) bytes_of_def)

lemma getenvvars_empty:
  assumes "environ w = []"
  shows "duma_getenvvars pf w = (let w = w\<lparr>SLACKFILL := SLACKFILL w AND 255\<rparr> in
    Inr (if \<not> DISABLE_BANNER w
         then DUMA_Print Banner_copyright (DUMA_Print Banner_version (DUMA_Print Banner_vertype w)) else w))"
proof -
  have g: "with_env pf name f v = Inr v" if "environ v = []" for name f v
    using that by (simp add: with_env_def duma_getenv_def)
  from assms show ?thesis
    by (simp add: duma_getenvvars_def getenv_alloc_def getenv_output_def env_num_def g Let_def)
qed


end
