(* ===== verification/Duma_Init.thy ===== *)
theory Duma_Init
  imports Duma_Env
begin

text \<open>
  Start-up: \<open>_duma_init\<close> and \<open>duma_init\<close> of \<open>src/duma.c\<close>, and the functions a program links
  against, which run the constructor when it has not run yet.

  While the constructor runs \<open>duma_init\<close>, the slot array exists, and a nested call of
  \<open>_duma_init\<close> would return at once; so the functions called from there take \<open>Inr\<close> as their
  constructor (\<open>duma_ctor_nested\<close> below).
\<close>

section \<open>\<open>duma_init\<close>\<close>

definition duma_init :: "platform \<Rightarrow> world \<Rightarrow> stop + world" where
  "duma_init pf w =
     (if init_state w \<ge> DUMAIS_IN_INIT \<and> init_state w \<le> DUMAIS_OUT_INIT then Inr w
      else
        and_then (duma_getenvvars pf (w\<lparr>init_state := DUMAIS_IN_INIT\<rparr>)) (\<lambda>w.
        and_then (malloc_with Inr pf 123 unknown_pos (DUMA_init_sem w)) (\<lambda>(testAlloc, w).
        if numAllocs w = 0 then Inl (Aborted Malloc_not_bound) else
        and_then (free_with Inr pf testAlloc unknown_pos w) (\<lambda>w.
        if numDeallocs w = 0 then Inl (Aborted Free_not_bound) else
        Inr (w\<lparr>init_state := DUMAIS_OUT_INIT\<rparr>)))))"

section \<open>\<open>_duma_init\<close>\<close>

text \<open>The block \<open>malloc(0)\<close> can return an address of: two inaccessible pages.\<close>

definition make_null_block :: "platform \<Rightarrow> world \<Rightarrow> stop + world" where
  "make_null_block pf w =
     and_then (Page_Create pf (2 * DUMA_PAGE_SIZE pf) True True w) (\<lambda>(a, w).
     let w = w\<lparr>null_block := a\<rparr> in
     if a = 0 then Inl (Aborted Null_block_failed) else
     and_then (Page_DenyAccess pf a (2 * DUMA_PAGE_SIZE pf) w) (\<lambda>w.
     Inr (w\<lparr>null_addr := null_block w + DUMA_PAGE_SIZE pf\<rparr>)))"

definition first_size :: "platform \<Rightarrow> u64" where
  "first_size pf =
     (let sz = (if MEMORY_CREATION_SIZE < DUMA_PAGE_SIZE pf then DUMA_PAGE_SIZE pf else MEMORY_CREATION_SIZE)
      in (sz + DUMA_PAGE_SIZE pf - 1) AND NOT (DUMA_PAGE_SIZE pf - 1))"

text \<open>The memory of the slot array.  In the retry loop \<open>allocList\<close> is null and \<open>slotCount\<close> is not zero
  yet, so \<open>reduceProtectedMemory\<close> reads from the null pointer.\<close>

definition first_memory :: "platform \<Rightarrow> u64 \<Rightarrow> world \<Rightarrow> stop + u64 \<times> world" where
  "first_memory pf sz w =
     and_then (Page_Create pf sz False False w) (\<lambda>(a, w).
     if a = 0 \<and> PROTECT_FREE w \<noteq> 0 then
       and_then (chunk_retry pf (kB sz) sz w) (\<lambda>(a, w).
         if a = 0 then Page_Create pf sz True True w else Inr (a, w))
     else Inr (a, w))"

definition first_list_slot :: "u64 \<Rightarrow> u64 \<Rightarrow> DUMA_Slot" where
  "first_list_slot a n = zero_slot\<lparr>internalAddress := a, userAddress := a, internalSize := n, userSize := n,
     state := DUMAST_IN_USE, allocator := EFA_INT_ALLOC, fileSource := DUMAFS_ALLOCATION,
     filename := Some ''src/duma.c'', lineno := 1161\<rparr>"

definition first_free_slot :: "u64 \<Rightarrow> u64 \<Rightarrow> DUMA_Slot" where
  "first_free_slot a n = zero_slot\<lparr>internalAddress := a, userAddress := a, internalSize := n, userSize := n,
     state := DUMAST_FREE, allocator := EFA_INT_ALLOC, fileSource := DUMAFS_ALLOCATION,
     filename := Some ''src/duma.c'', lineno := 1173\<rparr>"

text \<open>\<open>memset\<close> clears the array, then slots 0 and 1 are filled in.\<close>

definition first_slots :: "platform \<Rightarrow> u64 \<Rightarrow> u64 \<Rightarrow> u64 \<Rightarrow> DUMA_Slot list" where
  "first_slots pf sz listSize a =
     (let count = unat (DUMA_PAGE_SIZE pf div sizeof_slot);
          ss = (replicate count zero_slot)[0 := first_list_slot a listSize]
      in if sz > listSize then ss[1 := first_free_slot (a + listSize) (sz - listSize)] else ss)"

definition construct :: "platform \<Rightarrow> world \<Rightarrow> stop + world" where
  "construct pf w =
     and_then (make_null_block pf w) (\<lambda>w.
     let w = w\<lparr>slotsPerPage := DUMA_PAGE_SIZE pf div sizeof_slot, allocListSize := DUMA_PAGE_SIZE pf\<rparr>;
         sz = first_size pf in
     and_then (first_memory pf sz w) (\<lambda>(a, w).
     let w = w\<lparr>allocList := a\<rparr> in
     and_then (memset pf (unat (allocListSize w)) a 0 w) (\<lambda>w.
     let w = w\<lparr>slots := first_slots pf sz (allocListSize w) a\<rparr> in
     and_then (Page_DenyAccess pf (internalAddress (slots w ! 1)) (internalSize (slots w ! 1)) w) (\<lambda>w.
     let w = w\<lparr>unUsedSlots := word_of_nat (length (slots w)) - 2\<rparr> in
     Inr (if init_state w < DUMAIS_OUT_CONSTRUCTOR then w\<lparr>init_state := DUMAIS_OUT_CONSTRUCTOR\<rparr> else w)))))"

definition call_init :: "platform \<Rightarrow> world \<Rightarrow> stop + world" where
  "call_init pf w = (if init_state w < DUMAIS_OUT_INIT then duma_init pf w else Inr w)"

definition duma_ctor :: "platform \<Rightarrow> world \<Rightarrow> stop + world" where
  "duma_ctor pf w =
     (let inRecursion = (init_state w \<ge> DUMAIS_IN_CONSTRUCTOR \<and> init_state w \<le> DUMAIS_OUT_INIT) in
      if init_state w \<ge> DUMAIS_OUT_CONSTRUCTOR \<and> init_state w \<le> DUMAIS_OUT_INIT then call_init pf w
      else
        let w = w\<lparr>init_state := DUMAIS_IN_CONSTRUCTOR\<rparr> in
        if DUMA_PAGE_SIZE pf \<noteq> os_pagesize pf then Inl (Aborted Page_size_incorrect) else
        and_then (if \<not> inRecursion then DUMA_get_sem pf w else Inr w) (\<lambda>w.
        and_then (if init_state w \<ge> DUMAIS_OUT_CONSTRUCTOR then Inr w else construct pf w) (\<lambda>w.
        and_then (if \<not> inRecursion then DUMA_rel_sem w else Inr w) (\<lambda>w.
        call_init pf w))))"

lemma duma_ctor_nested: "init_state w = DUMAIS_IN_INIT \<Longrightarrow> duma_ctor pf w = Inr w"
  by (simp add: duma_ctor_def call_init_def duma_init_def less_eq_DUMA_InitState_def)

section \<open>The functions a program calls\<close>

definition duma_malloc :: "platform \<Rightarrow> u64 \<Rightarrow> src_pos \<Rightarrow> world \<Rightarrow> stop + u64 \<times> world" where
  "duma_malloc pf = malloc_with (duma_ctor pf) pf"

definition duma_calloc :: "platform \<Rightarrow> u64 \<Rightarrow> u64 \<Rightarrow> src_pos \<Rightarrow> world \<Rightarrow> stop + u64 \<times> world" where
  "duma_calloc pf = calloc_with (duma_ctor pf) pf"

definition duma_free :: "platform \<Rightarrow> u64 \<Rightarrow> src_pos \<Rightarrow> world \<Rightarrow> stop + world" where
  "duma_free pf = free_with (duma_ctor pf) pf"

definition duma_memalign :: "platform \<Rightarrow> u64 \<Rightarrow> u64 \<Rightarrow> src_pos \<Rightarrow> world \<Rightarrow> stop + u64 \<times> world" where
  "duma_memalign pf = memalign_with (duma_ctor pf) pf"

definition duma_posix_memalign :: "platform \<Rightarrow> u64 \<Rightarrow> u64 \<Rightarrow> u64 \<Rightarrow> src_pos \<Rightarrow> world \<Rightarrow> stop + u32 \<times> world" where
  "duma_posix_memalign pf = posix_memalign_with (duma_ctor pf) pf"

definition duma_realloc :: "platform \<Rightarrow> u64 \<Rightarrow> u64 \<Rightarrow> src_pos \<Rightarrow> world \<Rightarrow> stop + u64 \<times> world" where
  "duma_realloc pf = realloc_with (duma_ctor pf) pf"

definition duma_valloc :: "platform \<Rightarrow> u64 \<Rightarrow> src_pos \<Rightarrow> world \<Rightarrow> stop + u64 \<times> world" where
  "duma_valloc pf = valloc_with (duma_ctor pf) pf"

definition duma_strdup :: "platform \<Rightarrow> u64 \<Rightarrow> src_pos \<Rightarrow> world \<Rightarrow> stop + u64 \<times> world" where
  "duma_strdup pf = strdup_with (duma_ctor pf) pf"

text \<open>The global functions pass on an unknown source position.\<close>

definition glob_malloc :: "platform \<Rightarrow> u64 \<Rightarrow> world \<Rightarrow> stop + u64 \<times> world" where
  "glob_malloc pf sz = duma_malloc pf sz unknown_pos"

definition glob_calloc :: "platform \<Rightarrow> u64 \<Rightarrow> u64 \<Rightarrow> world \<Rightarrow> stop + u64 \<times> world" where
  "glob_calloc pf nelem elsize = duma_calloc pf nelem elsize unknown_pos"

definition glob_free :: "platform \<Rightarrow> u64 \<Rightarrow> world \<Rightarrow> stop + world" where
  "glob_free pf a = duma_free pf a unknown_pos"

definition glob_memalign :: "platform \<Rightarrow> u64 \<Rightarrow> u64 \<Rightarrow> world \<Rightarrow> stop + u64 \<times> world" where
  "glob_memalign pf al sz = duma_memalign pf al sz unknown_pos"

definition glob_aligned_alloc :: "platform \<Rightarrow> u64 \<Rightarrow> u64 \<Rightarrow> world \<Rightarrow> stop + u64 \<times> world" where
  "glob_aligned_alloc pf al sz = duma_memalign pf al sz unknown_pos"

definition glob_posix_memalign :: "platform \<Rightarrow> u64 \<Rightarrow> u64 \<Rightarrow> u64 \<Rightarrow> world \<Rightarrow> stop + u32 \<times> world" where
  "glob_posix_memalign pf memptr al sz = duma_posix_memalign pf memptr al sz unknown_pos"

definition glob_realloc :: "platform \<Rightarrow> u64 \<Rightarrow> u64 \<Rightarrow> world \<Rightarrow> stop + u64 \<times> world" where
  "glob_realloc pf old sz = duma_realloc pf old sz unknown_pos"

definition glob_valloc :: "platform \<Rightarrow> u64 \<Rightarrow> world \<Rightarrow> stop + u64 \<times> world" where
  "glob_valloc pf sz = duma_valloc pf sz unknown_pos"

definition glob_malloc_usable_size :: "platform \<Rightarrow> u64 \<Rightarrow> world \<Rightarrow> stop + u64 \<times> world" where
  "glob_malloc_usable_size pf p = duma_malloc_usable_size pf p"

definition glob_strdup :: "platform \<Rightarrow> u64 \<Rightarrow> world \<Rightarrow> stop + u64 \<times> world" where
  "glob_strdup pf str = duma_strdup pf str unknown_pos"

definition glob_memcpy :: "platform \<Rightarrow> u64 \<Rightarrow> u64 \<Rightarrow> u64 \<Rightarrow> world \<Rightarrow> stop + u64 \<times> world" where
  "glob_memcpy pf d s sz = duma_memcpy pf d s sz unknown_pos"

definition glob_memmove :: "platform \<Rightarrow> u64 \<Rightarrow> u64 \<Rightarrow> u64 \<Rightarrow> world \<Rightarrow> stop + u64 \<times> world" where
  "glob_memmove pf d s sz = duma_memmove pf d s sz"

definition glob_strcpy :: "platform \<Rightarrow> u64 \<Rightarrow> u64 \<Rightarrow> world \<Rightarrow> stop + u64 \<times> world" where
  "glob_strcpy pf d s = duma_strcpy pf d s unknown_pos"

definition glob_strncpy :: "platform \<Rightarrow> u64 \<Rightarrow> u64 \<Rightarrow> u64 \<Rightarrow> world \<Rightarrow> stop + u64 \<times> world" where
  "glob_strncpy pf d s sz = duma_strncpy pf d s sz unknown_pos"

definition glob_strcat :: "platform \<Rightarrow> u64 \<Rightarrow> u64 \<Rightarrow> world \<Rightarrow> stop + u64 \<times> world" where
  "glob_strcat pf d s = duma_strcat pf d s unknown_pos"

definition glob_strncat :: "platform \<Rightarrow> u64 \<Rightarrow> u64 \<Rightarrow> u64 \<Rightarrow> world \<Rightarrow> stop + u64 \<times> world" where
  "glob_strncat pf d s sz = duma_strncat pf d s sz unknown_pos"

section \<open>The slot array of a fresh process\<close>

lemma first_size_eq:
  assumes "page_ok pf"
  shows "unat (first_size pf) = 2 ^ 20"
proof -
  from assms obtain k where k: "12 \<le> k" "k \<le> 20" "os_pagesize pf = 2 ^ k" "psz pf = 2 ^ k" by (rule page_okE)
  then have ps: "DUMA_PAGE_SIZE pf = 2 ^ k" "unat (2 ^ k :: u64) = 2 ^ k" using page_okD(1) [OF assms] by simp_all
  have le: "(2 :: nat) ^ k \<le> 2 ^ 20" using k(2) by (rule power_increasing) simp
  then have "\<not> (MEMORY_CREATION_SIZE < (2 ^ k :: u64))"
    using ps(2) by (simp add: MEMORY_CREATION_SIZE_def word_less_nat_alt)
  then have fs: "first_size pf = (2 ^ 20 + 2 ^ k - 1) AND NOT (2 ^ k - 1)"
    by (simp add: first_size_def ps Let_def MEMORY_CREATION_SIZE_def)
  have u: "unat (2 ^ 20 + 2 ^ k :: u64) = 2 ^ 20 + 2 ^ k"
    using le ps(2) by (subst unat_add_no_wrap) simp_all
  then have "(2 ^ 20 + 2 ^ k :: u64) \<noteq> 0" by (metis add_is_0 unsigned_0 power_not_zero zero_neq_numeral)
  from unat_minus_one [OF this] u have "unat (2 ^ 20 + 2 ^ k - 1 :: u64) = 2 ^ 20 + 2 ^ k - 1" by (simp only:)
  then have "unat (first_size pf) = round_up (2 ^ k) (2 ^ 20)"
    unfolding fs by (simp only: unat_and_not_mask round_up_def round_down_def)
  also have "\<dots> = 2 ^ 20" by (rule round_up_dvd_eq) (simp, rule le_imp_power_dvd [OF k(2)])
  finally show ?thesis .
qed

lemma table_ok_Cons:
  "table_ok pf pg (s # ss) \<longleftrightarrow> slot_ok pf pg s \<and> table_ok pf pg ss \<and> (\<forall>t \<in> set ss. apart s t)"
proof
  assume t: "table_ok pf pg (s # ss)"
  have "apart (ss ! i) (ss ! j)" if "i < length ss" "j < length ss" "i \<noteq> j" for i j
    using t that unfolding table_ok_def by (metis Suc_less_eq length_Cons nat.inject nth_Cons_Suc)
  moreover have "apart s (ss ! j)" if "j < length ss" for j
    using t that unfolding table_ok_def by (metis Suc_less_eq length_Cons nat.distinct(1) nth_Cons_0 nth_Cons_Suc zero_less_Suc)
  ultimately show "slot_ok pf pg s \<and> table_ok pf pg ss \<and> (\<forall>t \<in> set ss. apart s t)"
    using t by (auto simp: table_ok_def in_set_conv_nth)
next
  assume a: "slot_ok pf pg s \<and> table_ok pf pg ss \<and> (\<forall>t \<in> set ss. apart s t)"
  show "table_ok pf pg (s # ss)"
    unfolding table_ok_def
  proof (intro conjI allI impI)
    fix i j assume ij: "i < length (s # ss)" "j < length (s # ss)" "i \<noteq> j"
    show "apart ((s # ss) ! i) ((s # ss) ! j)"
      using a ij by (cases i; cases j) (auto simp: table_ok_def intro: apart_sym)
  qed (use a in \<open>auto simp: table_ok_def\<close>)
qed

lemma table_ok_zero: "table_ok pf pg (replicate n zero_slot)"
  using zero_slot_ok by (auto simp: table_ok_def apart_def zero_slot_def)

lemma apart_zero [simp]: "apart s zero_slot"
  by (simp add: apart_def zero_slot_def)

text \<open>The two slots over freshly mapped memory.\<close>

lemma first_slots_eq:
  assumes "page_ok pf"
  obtains n where "first_slots pf sz lsz a =
    first_list_slot a lsz # (if sz > lsz then first_free_slot (a + lsz) (sz - lsz) else zero_slot) # replicate n zero_slot"
    and "62 \<le> n" and "n < 2 ^ 20"
proof -
  from assms obtain k where k: "12 \<le> k" "k \<le> 20" "os_pagesize pf = 2 ^ k" "psz pf = 2 ^ k" by (rule page_okE)
  have "unat (DUMA_PAGE_SIZE pf div sizeof_slot) = 2 ^ k div 64"
    using page_okD(1) [OF assms] k by (simp add: sizeof_slot_def unat_div_distrib)
  moreover have "(64 :: nat) \<le> 2 ^ k div 64"
    using power_increasing [OF k(1), of "2 :: nat"] by (simp add: less_eq_div_iff_mult_less_eq)
  moreover have "(2 :: nat) ^ k div 64 < 2 ^ 20"
    using power_increasing [OF k(2), of "2 :: nat"] by simp
  moreover define n where "n = (2 :: nat) ^ k div 64 - 2"
  ultimately have n: "unat (DUMA_PAGE_SIZE pf div sizeof_slot) = Suc (Suc n)" "62 \<le> n" "n < 2 ^ 20" by simp_all
  show thesis
    by (rule that [OF _ n(2,3)]) (simp add: first_slots_def Let_def n(1))
qed

lemma mmap_facts:
  assumes "os_ok pf" and "os_mmap pf c pg hint len = Some a"
  shows "psz pf dvd unat a" "a \<noteq> 0" "unat a + unat len < 2 ^ 64"
    "\<And>k. page_span (psz pf) (unat a) (unat len) k \<Longrightarrow> pg k = Unmapped"
  using assms(1) [unfolded os_ok_def, THEN conjunct1, rule_format, OF assms(2)] by auto

text \<open>What start-up must not disturb, and the state before the slot array exists.\<close>

definition fresh_process :: "platform \<Rightarrow> world \<Rightarrow> bool" where
  "fresh_process pf w \<longleftrightarrow> slots w = [] \<and> allocList w = 0 \<and> pages w 0 \<noteq> ReadWrite \<and> PROTECT_FREE w \<noteq> 0"

lemma make_null_block_Inr:
  assumes "make_null_block pf w = Inr w'" and os: "os_ok pf" and pok: "page_ok pf"
  obtains a pg b s c where "w' = w\<lparr>pages := pg, bytes := b, startAddr := s, clock := c, null_block := a, null_addr := a + os_pagesize pf\<rparr>"
    and "a \<noteq> 0" and "pg 0 = ReadWrite \<Longrightarrow> pages w 0 = ReadWrite"
    and "\<And>x. in_rng a (2 * os_pagesize pf) x \<Longrightarrow> pg (unat x div psz pf) = NoAccess"
    and "unat a + 2 * psz pf < 2 ^ 64" "unat (2 * os_pagesize pf) = 2 * psz pf" "psz pf dvd unat a"
proof -
  let ?n = "2 * DUMA_PAGE_SIZE pf"
  from assms(1) obtain a w1 where c: "Page_Create pf ?n True True w = Inr (a, w1)" and a: "a \<noteq> 0"
    and d: "and_then (Page_DenyAccess pf a ?n (w1\<lparr>null_block := a\<rparr>))
      (\<lambda>w. Inr (w\<lparr>null_addr := null_block w + DUMA_PAGE_SIZE pf\<rparr>)) = Inr w'"
    by (auto simp: make_null_block_def Let_def and_then_Inr_iff split: if_splits)
  note P = page_okD [OF pok]
  have n: "unat ?n = 2 * psz pf" using P(1,5) by (subst unat_mult_lem [THEN iffD1]) simp_all
  then have ml: "mmap_length ?n = ?n" using P(5) by (intro mmap_length_small) simp
  have m: "os_mmap pf (clock w) (pages w) (startAddr w) ?n = Some a"
    by (rule Page_Create_Inr [OF c a, unfolded ml])
  have w1: "w1 = w\<lparr>clock := Suc (clock w), pages := set_pages pf a ?n ReadWrite (pages w),
             bytes := (\<lambda>x. if page_span (psz pf) (unat a) (unat ?n) (unat x div psz pf) then 0 else bytes w x),
             startAddr := a + ?n\<rparr>"
    by (rule Page_Create_Inr [OF c a, unfolded ml])
  from mmap_facts(1,3) [OF os m] have o: "psz pf dvd unat a" "unat a + 2 * psz pf < 2 ^ 64" unfolding n by simp_all
  have rg: "pg_range pf a ?n" using pok o(1) n by (simp add: pg_range_def)
  let ?pg = "set_pages pf a ?n NoAccess (set_pages pf a ?n ReadWrite (pages w))"
  from d w1 have w': "w' = w\<lparr>pages := ?pg,
       bytes := (\<lambda>x. if page_span (psz pf) (unat a) (unat ?n) (unat x div psz pf) then 0 else bytes w x),
       startAddr := a + ?n, clock := Suc (Suc (clock w)), null_block := a, null_addr := a + os_pagesize pf\<rparr>"
    by (auto simp: outcome_simps P(1))
  show thesis
  proof (rule that [OF w' a])
    assume "?pg 0 = ReadWrite"
    then show "pages w 0 = ReadWrite" by (auto simp: set_pages_def split: if_splits)
  next
    fix x assume "in_rng a (2 * os_pagesize pf) x"
    then show "?pg (unat x div psz pf) = NoAccess" using P(1) by (simp add: set_pages_at [OF rg [unfolded P(1)]])
  qed (use o n P(1) in simp_all)
qed

text \<open>Without memory for the slot array the process dies of the null pointer.\<close>

lemma first_memory_Inr:
  assumes "first_memory pf sz w = Inr (a, w')" and "fresh_process pf w" and "unat (allocListSize w) = psz pf"
    and os: "os_ok pf" and pok: "page_ok pf"
  shows "a \<noteq> 0 \<and> Page_Create pf sz False False w = Inr (a, w')"
proof -
  from assms(1) obtain b w1 where c: "Page_Create pf sz False False w = Inr (b, w1)"
    and n: "(if b = 0 \<and> PROTECT_FREE w1 \<noteq> 0 then
       and_then (chunk_retry pf (kB sz) sz w1) (\<lambda>(a, w). if a = 0 then Page_Create pf sz True True w else Inr (a, w))
     else Inr (b, w1)) = Inr (a, w')"
    by (auto simp: first_memory_def and_then_Inr_iff)
  show ?thesis
  proof (cases "b = 0")
    case True
    with Page_Create_fail [of pf sz False False w w1] c os obtain k s o'
      where w1: "w1 = w\<lparr>clock := k, startAddr := s, out := o'\<rparr>" by auto
    have "\<not> list_open pf w1"
      using assms(2,3) w1 page_okD(3) [OF pok] by (simp add: list_open_def fresh_process_def)
    then have "chunk_retry pf (kB sz) sz w1 = Inl (Segv (allocList w1))"
      by (subst chunk_retry.simps) (simp add: reduceProtectedMemory_def touch_list_def)
    with n True w1 assms(2) show ?thesis by (simp add: fresh_process_def)
  qed (use c n in simp)
qed


lemma first_table_ok:
  assumes pok: "page_ok pf" and a: "psz pf dvd unat a" "a \<noteq> 0" "unat a + 2 ^ 20 < 2 ^ 64"
    and sz: "unat sz = 2 ^ 20" and lsz: "unat lsz = psz pf"
    and mp: "\<And>x. in_rng a sz x \<Longrightarrow> pg (unat x div psz pf) \<noteq> Unmapped"
  shows "table_ok pf pg (first_slots pf sz lsz a)" "first_slots pf sz lsz a ! 0 = first_list_slot a lsz"
    "64 \<le> length (first_slots pf sz lsz a)" "length (first_slots pf sz lsz a) < 2 ^ 21"
    "first_slots pf sz lsz a ! 1 = (if sz > lsz then first_free_slot (a + lsz) (sz - lsz) else zero_slot)"
proof -
  note P = page_okD [OF pok]
  obtain n where ss: "first_slots pf sz lsz a =
    first_list_slot a lsz # (if sz > lsz then first_free_slot (a + lsz) (sz - lsz) else zero_slot) # replicate n zero_slot"
    and n: "62 \<le> n" "n < 2 ^ 20" by (rule first_slots_eq [OF pok])
  show "first_slots pf sz lsz a ! 0 = first_list_slot a lsz" "64 \<le> length (first_slots pf sz lsz a)"
    "length (first_slots pf sz lsz a) < 2 ^ 21"
    "first_slots pf sz lsz a ! 1 = (if sz > lsz then first_free_slot (a + lsz) (sz - lsz) else zero_slot)"
    using n by (simp_all add: ss)
  obtain k where k: "k \<le> 20" "psz pf = 2 ^ k" using pok by (rule page_okE)
  have d: "psz pf dvd 2 ^ 20" unfolding k(2) by (rule le_imp_power_dvd [OF k(1)])
  have al: "unat (a + lsz) = unat a + psz pf" using a P(5) lsz by (subst unat_add_no_wrap) simp_all
  have "slot_ok pf pg (first_list_slot a lsz)"
  proof -
    have "in_rng a sz x" if "in_slot (first_list_slot a lsz) x" for x
      using that sz lsz P(5) by (simp add: in_slot_def in_rng_def first_list_slot_def)
    with mp have "pg (unat x div psz pf) \<noteq> Unmapped" if "in_slot (first_list_slot a lsz) x" for x using that by blast
    moreover have "slot_shape pf (first_list_slot a lsz)"
      using a P lsz by (auto simp: slot_shape_def first_list_slot_def slot_end_def in_slot_def in_rng_def zero_slot_def)
    ultimately show ?thesis by (simp add: slot_ok_def slot_perm_ok_def first_list_slot_def)
  qed
  moreover have "slot_ok pf pg (first_free_slot (a + lsz) (sz - lsz)) \<and>
      apart (first_list_slot a lsz) (first_free_slot (a + lsz) (sz - lsz))" if lt: "lsz < sz"
  proof -
    let ?s = "first_free_slot (a + lsz) (sz - lsz)"
    have d2: "unat (sz - lsz) = 2 ^ 20 - psz pf" using lt sz lsz by (simp add: unat_sub word_less_nat_alt word_le_nat_alt)
    moreover have "psz pf < 2 ^ 20" using lt sz lsz by (simp add: word_less_nat_alt)
    ultimately have "0 < unat (sz - lsz)" by simp
    then have nz: "sz - lsz \<noteq> 0" "a + lsz \<noteq> 0" using al a P(3) by (auto simp: unat_eq_0 [symmetric])
    have "in_rng a sz x" if "in_slot ?s x" for x
      using that sz P(5) al d2 by (simp add: in_slot_def in_rng_def first_free_slot_def)
    with mp have "pg (unat x div psz pf) \<noteq> Unmapped" if "in_slot ?s x" for x using that by blast
    moreover have "slot_shape pf ?s"
      using a P d2 al nz d
      by (auto simp: slot_shape_def first_free_slot_def slot_end_def zero_slot_def intro!: dvd_diff_nat)
    ultimately have "slot_ok pf pg ?s" by (simp add: slot_ok_def slot_perm_ok_def first_free_slot_def)
    moreover have "apart (first_list_slot a lsz) ?s"
      using al d2 lsz by (auto simp: apart_def in_slot_def in_rng_def first_list_slot_def first_free_slot_def)
    ultimately show ?thesis by simp
  qed
  ultimately show "table_ok pf pg (first_slots pf sz lsz a)"
    by (auto simp: ss table_ok_Cons table_ok_zero zero_slot_ok)
qed

definition no_live :: "world \<Rightarrow> bool" where
  "no_live w \<longleftrightarrow> (\<forall>s \<in> set (slots w). \<not> live s)"

text \<open>The state the constructor leaves.\<close>

definition constructed :: "platform \<Rightarrow> world \<Rightarrow> bool" where
  "constructed pf w \<longleftrightarrow> heap_ok pf w \<and> allocList w \<noteq> 0 \<and> allocListSize w = os_pagesize pf \<and>
     62 \<le> unat (unUsedSlots w) \<and> 2 \<le> unat (slotsPerPage w) \<and> null_block w \<noteq> 0 \<and> null_addr w = null_block w + os_pagesize pf \<and>
     (\<forall>x. in_rng (null_block w) (2 * os_pagesize pf) x \<longrightarrow> perm_at pf w x = NoAccess)"

lemma construct_ok:
  assumes c: "construct pf w = Inr w'" and os: "os_ok pf" and pok: "page_ok pf" and fr: "fresh_process pf w"
    and st: "init_state w < DUMAIS_OUT_CONSTRUCTOR"
  obtains "constructed pf w'" "no_live w'" "init_state w' = DUMAIS_OUT_CONSTRUCTOR" "sem_view w' = sem_view w"
    "environ w' = environ w" "DISABLE_BANNER w' = DISABLE_BANNER w" "ALIGNMENT w' = ALIGNMENT w" "FILL w' = FILL w"
    "MALLOC_0_STRATEGY w' = MALLOC_0_STRATEGY w" "NEW_0_STRATEGY w' = NEW_0_STRATEGY w" "CHECK_FREQ w' = CHECK_FREQ w"
    "numAllocs w' = numAllocs w" "numDeallocs w' = numDeallocs w"
proof -
  note P = page_okD [OF pok]
  let ?sz = "first_size pf" and ?l = "os_pagesize pf"
  from c obtain w1 a w2 w3 w4 where n: "make_null_block pf w = Inr w1"
    and f: "first_memory pf ?sz (w1\<lparr>slotsPerPage := ?l div sizeof_slot, allocListSize := ?l\<rparr>) = Inr (a, w2)"
    and m: "memset pf (unat (allocListSize w2)) a 0 (w2\<lparr>allocList := a\<rparr>) = Inr w3"
    and d: "Page_DenyAccess pf (internalAddress (first_slots pf ?sz (allocListSize w3) a ! 1))
        (internalSize (first_slots pf ?sz (allocListSize w3) a ! 1)) (w3\<lparr>slots := first_slots pf ?sz (allocListSize w3) a\<rparr>) = Inr w4"
    and w': "w' = (let w = w4\<lparr>unUsedSlots := word_of_nat (length (slots w4)) - 2\<rparr> in
        if init_state w < DUMAIS_OUT_CONSTRUCTOR then w\<lparr>init_state := DUMAIS_OUT_CONSTRUCTOR\<rparr> else w)"
    by (auto simp: construct_def Let_def and_then_Inr_iff P(1))
  from make_null_block_Inr [OF n os pok] obtain nb pg b s k
    where w1: "w1 = w\<lparr>pages := pg, bytes := b, startAddr := s, clock := k, null_block := nb, null_addr := nb + ?l\<rparr>"
    and nb: "nb \<noteq> 0" "\<And>x. in_rng nb (2 * ?l) x \<Longrightarrow> pg (unat x div psz pf) = NoAccess"
    and p0: "pg 0 = ReadWrite \<Longrightarrow> pages w 0 = ReadWrite" by metis
  let ?v = "w1\<lparr>slotsPerPage := ?l div sizeof_slot, allocListSize := ?l\<rparr>"
  have "fresh_process pf ?v" using fr p0 by (auto simp: fresh_process_def w1)
  with first_memory_Inr [OF f _ _ os pok] have a: "a \<noteq> 0" and cr: "Page_Create pf ?sz False False ?v = Inr (a, w2)" by simp_all
  note fs = first_size_eq [OF pok]
  have ml: "mmap_length ?sz = ?sz" using fs by (intro mmap_length_small) simp
  have mm: "os_mmap pf (clock ?v) (pages ?v) (startAddr ?v) ?sz = Some a" by (rule Page_Create_Inr [OF cr a, unfolded ml])
  have w2: "w2 = ?v\<lparr>clock := Suc (clock ?v), pages := set_pages pf a ?sz ReadWrite (pages ?v),
             bytes := (\<lambda>x. if page_span (psz pf) (unat a) (unat ?sz) (unat x div psz pf) then 0 else bytes ?v x),
             startAddr := a + ?sz\<rparr>" by (rule Page_Create_Inr [OF cr a, unfolded ml])
  note M = mmap_facts [OF os mm, unfolded fs]
  from memset_Inr [OF m] obtain b' where w3: "w3 = w2\<lparr>allocList := a, bytes := b'\<rparr>" by auto
  have ls: "allocListSize w3 = ?l" by (simp add: w3 w2)
  let ?ss = "first_slots pf ?sz ?l a"
  let ?pg = "set_pages pf (internalAddress (?ss ! 1)) (internalSize (?ss ! 1)) NoAccess (set_pages pf a ?sz ReadWrite pg)"
  from d ls have w4: "w4 = w3\<lparr>slots := ?ss, pages := ?pg, clock := Suc (clock w3)\<rparr>"
    by (auto simp: outcome_simps w3 w2 w1)
  obtain kk where kk: "kk \<le> 20" "psz pf = 2 ^ kk" using pok by (rule page_okE)
  have dv: "psz pf dvd unat ?sz" unfolding fs kk(2) by (rule le_imp_power_dvd [OF kk(1)])
  have rg: "pg_range pf a ?sz" using pok M dv fs by (simp add: pg_range_def)
  have mp: "\<And>x. in_rng a ?sz x \<Longrightarrow> ?pg (unat x div psz pf) \<noteq> Unmapped"
    using set_pages_at [OF rg] by (simp add: set_pages_def)
  have T: "table_ok pf ?pg ?ss" "?ss ! 0 = first_list_slot a ?l" "64 \<le> length ?ss" "length ?ss < 2 ^ 21"
    using first_table_ok [of pf a ?sz ?l ?pg, OF pok M(1,2,3) fs refl] mp by blast+
  have ws: "slots w' = ?ss" "pages w' = ?pg" "allocList w' = a" "allocListSize w' = ?l"
    "unUsedSlots w' = word_of_nat (length ?ss) - 2" "null_block w' = nb" "null_addr w' = nb + ?l" "slotsPerPage w' = ?l div sizeof_slot"
    by (simp_all add: w' w4 w3 w2 w1 Let_def)
  have "list_slot w' (?ss ! 0)" unfolding T(2) using M
    by (simp add: list_slot_def ws) (simp add: first_list_slot_def zero_slot_def word_gt_0)
  moreover have "?ss ! 0 \<in> set ?ss" using T(3) by (intro nth_mem) linarith
  ultimately have "heap_ok pf w'" using T(1) pok by (auto simp: heap_ok_def ws)
  moreover have "perm_at pf w' x = NoAccess" if "in_rng nb (2 * ?l) x" for x
  proof -
    have "\<not> page_span (psz pf) (unat a) (unat ?sz) (unat x div psz pf)"
      using M(4) nb(2) [OF that] by (auto simp: w1 fs)
    then show ?thesis using nb(2) [OF that] by (simp add: perm_at_def ws set_pages_def)
  qed
  moreover have "62 \<le> unat (unUsedSlots w')"
  proof -
    have "unat (word_of_nat (length ?ss) :: u64) = length ?ss" using T(4) by (intro unat_word_of_nat) simp
    then show ?thesis using T(3) by (simp add: ws unat_sub word_le_nat_alt)
  qed
  moreover have "2 \<le> unat (slotsPerPage w')" using T(3) P(1) by (simp add: ws first_slots_def Let_def split: if_splits)
  ultimately have "constructed pf w'" using a nb(1) by (simp add: constructed_def ws)
  moreover have "no_live w'"
    by (rule first_slots_eq [OF pok, of ?sz ?l a])
      (auto simp: no_live_def ws live_def first_list_slot_def first_free_slot_def zero_slot_def split: if_splits)
  ultimately show thesis
    by (rule that) (use st in \<open>simp_all add: w' w4 w3 w2 w1 Let_def sem_view_def\<close>)
qed


section \<open>Start-up\<close>

text \<open>The tools that write \<open>duma_config.h\<close> choose a power of two, at most the size of a page.\<close>

definition min_alignment_ok :: "platform \<Rightarrow> bool" where
  "min_alignment_ok pf \<longleftrightarrow> is_pow2 (scast (DUMA_MIN_ALIGNMENT pf) :: u64) \<and>
     unat (scast (DUMA_MIN_ALIGNMENT pf) :: u64) \<le> psz pf"

lemma default_request_ok:
  assumes al: "is_pow2 (scast (ALIGNMENT w) :: u64)" "unat (scast (ALIGNMENT w) :: u64) \<le> psz pf" and pok: "page_ok pf"
    and z: "usz \<noteq> 0" "unat usz \<le> 2 ^ 29" and ia: "alloc \<noteq> EFA_INT_ALLOC"
  shows "request_ok pf (effective_alignment 0 usz w) usz below alloc w"
proof -
  have "is_pow2 (effective_alignment 0 usz w) \<and> unat (effective_alignment 0 usz w) \<le> psz pf"
  proof (cases "usz < scast (ALIGNMENT w)")
    case True
    with default_alignment [OF z(1) True] al(2) z(1) show ?thesis
      by (auto simp: effective_alignment_def word_le_nat_alt word_less_nat_alt)
  qed (use al z(1) in \<open>simp add: effective_alignment_def alloc_alignment_def Let_def\<close>)
  moreover have "psz pf \<le> 2 ^ 29" using page_okD(5) [OF pok] by simp
  ultimately show ?thesis using z ia by (auto simp: request_ok_def small_request_def)
qed

text \<open>A block that is allocated and freed again leaves none behind.\<close>

lemma malloc_free:
  assumes os: "os_ok pf" and ok: "heap_ok pf w" and sl: "small_list w" and nl: "no_live w" and al: "allocList w \<noteq> 0"
    and rq: "request_ok pf (effective_alignment 0 usz w) usz (PROTECT_BELOW w) EFA_MALLOC w"
    and sp: "7 \<le> unUsedSlots w" and nd: "numDeallocs w = 0" and inv: "sem_inv pf (sem_view w)"
    and m: "malloc_with Inr pf usz pos w = Inr (u, w1)" and f: "free_with Inr pf u pos w1 = Inr w2"
    and z: "numDeallocs w2 \<noteq> 0"
  shows "heap_ok pf w2 \<and> no_live w2 \<and> config w2 = config w \<and> allocListSize w2 = allocListSize w \<and> sem_view w2 = sem_view w"
proof -
  from m al have a: "duma_allocate pf 0 usz (PROTECT_BELOW w) (FILL w) True EFA_MALLOC DUMA_FAIL_ENV pos w = Inr (u, w1)"
    by (simp add: malloc_with_def ensure_init_def)
  from f have d: "duma_deallocate pf u True EFA_FREE pos w1 = Inr w2"
    by (simp add: free_with_def ensure_init_def)
  from duma_allocate_allocated [OF os ok sl rq a] obtain k
    where ad: "allocated pf (effective_alignment 0 usz w) usz (PROTECT_BELOW w) (FILL w) EFA_MALLOC pos k u w w1" ..
  then have ok1: "heap_ok pf w1" and kp: "keeps pf (if u = 0 then {} else {k}) w w1" by (auto simp: allocated_def)
  have nd1: "numDeallocs w1 = 0" using duma_allocate_no_growth [OF a sp] nd by simp
  have u: "u \<noteq> 0" "u \<noteq> null_addr w1" using d z nd1 by (auto simp: duma_deallocate_def split: if_splits)
  have "alloc_type EFA_FREE \<noteq> DUMAAT_INTERNAL" by simp
  from duma_deallocate_ok [OF ok1 u this d] obtain i where i: "i < length (slots w1)" "live (slots w1 ! i)"
    "userAddress (slots w1 ! i) = u" "heap_ok pf w2" "keeps pf {i} w1 w2" "length (slots w2) = length (slots w1)"
    "state (slots w2 ! i) = DUMAST_ALL_PROTECTED \<or> state (slots w2 ! i) = DUMAST_EMPTY" by metis
  have one: "j = k" if "j < length (slots w1)" "live (slots w1 ! j)" for j
    using kp u(1) nl that unfolding keeps_def no_live_def by (metis insert_iff nth_mem empty_iff)
  have "\<not> live (slots w2 ! j)" if j: "j < length (slots w2)" for j
  proof (cases "j = i")
    case True
    with i(7) show ?thesis by (auto simp: live_def)
  next
    case False
    show ?thesis
    proof
      assume l: "live (slots w2 ! j)"
      with i(5) j False have "j < length (slots w1) \<and> slots w2 ! j = slots w1 ! j" unfolding keeps_def by blast
      with l one one [OF i(1,2)] False show False by metis
    qed
  qed
  then have "no_live w2" by (auto simp: no_live_def in_set_conv_nth)
  moreover have "config w2 = config w" using config_deallocate [OF d] duma_allocate_config(1) [OF a] by simp
  moreover have "allocListSize w2 = allocListSize w" using deallocate_size [OF d] duma_allocate_no_growth [OF a sp] by simp
  moreover have "sem_view w2 = sem_view w"
    using deallocate_sem_view [OF _ ok1 d] duma_allocate_config(3) [OF a inv] inv by simp
  ultimately show ?thesis using i(4) by blast
qed


text \<open>\<open>duma_init\<close> in a process without DUMA variables in its environment.\<close>

definition default_alignment_ok :: "platform \<Rightarrow> world \<Rightarrow> bool" where
  "default_alignment_ok pf w \<longleftrightarrow>
     is_pow2 (scast (ALIGNMENT w) :: u64) \<and> unat (scast (ALIGNMENT w) :: u64) \<le> psz pf"

lemma default_alignment_config: "config w' = config w \<Longrightarrow> default_alignment_ok pf w' = default_alignment_ok pf w"
proof -
  have "default_alignment_ok pf (config v) = default_alignment_ok pf v" for v
    by (simp add: default_alignment_ok_def mask_defs)
  then show "config w' = config w \<Longrightarrow> default_alignment_ok pf w' = default_alignment_ok pf w" by metis
qed

definition running :: "platform \<Rightarrow> world \<Rightarrow> bool" where
  "running pf w \<longleftrightarrow> init_state w = DUMAIS_OUT_INIT \<and> allocList w \<noteq> 0 \<and> heap_ok pf w \<and> small_list w \<and>
     2 \<le> unat (slotsPerPage w) \<and> no_live w \<and> valid_settings w \<and> default_alignment_ok pf w"

lemma allocList_nonzero: "heap_ok pf w \<Longrightarrow> allocList w \<noteq> 0"
  by (auto simp: heap_ok_def list_slot_def table_ok_def slot_ok_def slot_shape_def)

lemma duma_init_ok:
  assumes i: "duma_init pf w = Inr w'" and os: "os_ok pf" and c: "constructed pf w" and nl: "no_live w"
    and st: "init_state w = DUMAIS_OUT_CONSTRUCTOR" and env: "environ w = []" and inv: "sem_inv pf (sem_view w)"
    and al: "is_pow2 (scast (ALIGNMENT w) :: u64)" "unat (scast (ALIGNMENT w) :: u64) \<le> psz pf"
    and nd: "numDeallocs w = 0"
    and set: "FILL w \<le> 255" "MALLOC_0_STRATEGY w \<in> {0, 1, 2, 3}" "NEW_0_STRATEGY w \<in> {2, 3}" "0 \<le> CHECK_FREQ w"
  shows "running pf w' \<and> sem_view w' = sem_view w \<and> CHECK_FREQ w' = CHECK_FREQ w"
proof -
  define w0 where "w0 = w\<lparr>init_state := DUMAIS_IN_INIT, SLACKFILL := SLACKFILL w AND 255\<rparr>"
  define w1 where "w1 = (if \<not> DISABLE_BANNER w then DUMA_Print Banner_copyright (DUMA_Print Banner_version (DUMA_Print Banner_vertype w0)) else w0)"
  have ge: "duma_getenvvars pf (w\<lparr>init_state := DUMAIS_IN_INIT\<rparr>) = Inr w1"
    using env by (simp add: getenvvars_empty w1_def w0_def Let_def)
  have same: "pages w1 = pages w" "slots w1 = slots w" "allocList w1 = allocList w" "allocListSize w1 = allocListSize w"
    "sem_view w1 = sem_view w" "ALIGNMENT w1 = ALIGNMENT w" "PROTECT_BELOW w1 = PROTECT_BELOW w" "unUsedSlots w1 = unUsedSlots w"
    "numDeallocs w1 = numDeallocs w" "CHECK_FREQ w1 = CHECK_FREQ w" "slotsPerPage w1 = slotsPerPage w"
    by (simp_all add: w1_def w0_def DUMA_Print_def sem_view_def)
  have "ALIGNMENT w \<noteq> 0" using al(1) by (auto simp: is_pow2_def)
  then have vs: "valid_settings w1"
    using set and_255_le [of "SLACKFILL w"] by (simp add: w1_def w0_def DUMA_Print_def valid_settings_def)
  have pok: "page_ok pf" and P: "allocListSize w = os_pagesize pf" using c by (simp_all add: constructed_def heap_ok_def)
  have "DUMA_init_sem w1 = w1" using inv same(5) by (simp add: DUMA_init_sem_def sem_view_def)
  with i ge st obtain u w2 w3 where m: "malloc_with Inr pf 123 unknown_pos w1 = Inr (u, w2)"
    and f: "free_with Inr pf u unknown_pos w2 = Inr w3" and z: "numDeallocs w3 \<noteq> 0"
    and w': "w' = w3\<lparr>init_state := DUMAIS_OUT_INIT\<rparr>"
    by (auto simp: duma_init_def and_then_Inr_iff less_eq_DUMA_InitState_def split: if_splits)
  have "heap_ok pf w" using c by (simp add: constructed_def)
  then have hk: "heap_ok pf w1" using same by (simp add: heap_ok_def list_slot_def)
  have sl: "small_list w1" using P page_okD(5) [OF pok] same by (simp add: small_list_def)
  have "request_ok pf (effective_alignment 0 123 w1) 123 (PROTECT_BELOW w1) EFA_MALLOC w1"
    by (rule default_request_ok) (use al pok same in simp_all)
  from malloc_free [OF os hk sl _ _ this _ _ _ m f z]
  have r: "heap_ok pf w3 \<and> no_live w3 \<and> config w3 = config w1 \<and> allocListSize w3 = allocListSize w1 \<and> sem_view w3 = sem_view w1"
    using c nl nd inv same by (simp add: constructed_def no_live_def word_le_nat_alt)
  then have "valid_settings w3" using valid_settings_config vs by blast
  moreover have "default_alignment_ok pf w1" using al by (simp add: default_alignment_ok_def same)
  then have "default_alignment_ok pf w3" using r default_alignment_config by blast
  moreover have "allocList w3 \<noteq> 0" using r allocList_nonzero by blast
  moreover have "CHECK_FREQ w3 = CHECK_FREQ w" "slotsPerPage w3 = slotsPerPage w"
    using r config_fields [of w3 w1] same by simp_all
  moreover have "2 \<le> unat (slotsPerPage w)" using c by (simp add: constructed_def)
  moreover have "heap_ok pf w'" using r heap_ok_cong [of w' w3] by (simp add: w')
  ultimately show ?thesis
    using r sl same by (simp add: running_def w' small_list_def no_live_def valid_settings_def sem_view_def default_alignment_ok_def)
qed

lemma ctor_ok:
  assumes "os_ok pf" and "page_ok pf" and "min_alignment_ok pf" and "pg 0 \<noteq> ReadWrite"
    and "duma_ctor pf (initial_world pf pg b []) = Inr w'"
  shows "running pf w' \<and> sem_view w' = sem_view (initial_world pf pg b []) \<and> CHECK_FREQ w' = 0"
proof -
  let ?w = "initial_world pf pg b []"
  have inv: "sem_inv pf (sem_view ?w)" by (simp add: initial_world_def sem_view_def)
  let ?v = "?w\<lparr>init_state := DUMAIS_IN_CONSTRUCTOR\<rparr>"
  have "init_state ?w = DUMAIS_UNINITIALIZED" "DUMA_PAGE_SIZE pf = os_pagesize pf"
    using page_okD(1) [OF assms(2)] by (simp_all add: initial_world_def)
  with assms(5) have "and_then (DUMA_get_sem pf ?v) (\<lambda>w.
      and_then (if init_state w \<ge> DUMAIS_OUT_CONSTRUCTOR then Inr w else construct pf w) (\<lambda>w.
      and_then (DUMA_rel_sem w) (call_init pf))) = Inr w'"
    by (simp add: duma_ctor_def Let_def less_eq_DUMA_InitState_def)
  then obtain w1 w2 w3 where g: "DUMA_get_sem pf ?v = Inr w1"
    and cc: "(if init_state w1 \<ge> DUMAIS_OUT_CONSTRUCTOR then Inr w1 else construct pf w1) = Inr w2"
    and r: "DUMA_rel_sem w2 = Inr w3" and ci: "call_init pf w3 = Inr w'"
    by (simp only: and_then_Inr_iff) blast
  have w1: "sem_inv pf (sem_view w1)" "init_state w1 = DUMAIS_IN_CONSTRUCTOR" "fresh_process pf w1"
    "environ w1 = []" "ALIGNMENT w1 = DUMA_MIN_ALIGNMENT pf" "FILL w1 = 255" "MALLOC_0_STRATEGY w1 = 3"
    "NEW_0_STRATEGY w1 = 3" "CHECK_FREQ w1 = 0" "numDeallocs w1 = 0"
    using get_sem_inv [OF _ g] inv assms(4)
    by (auto intro: DUMA_get_sem_frame [OF g] simp: initial_world_def fresh_process_def sem_view_def)
  with cc have c: "construct pf w1 = Inr w2" by (simp add: less_eq_DUMA_InitState_def)
  have "init_state w1 < DUMAIS_OUT_CONSTRUCTOR" using w1(2) by (simp add: less_DUMA_InitState_def)
  from construct_ok [OF c assms(1,2) w1(3) this] have w2: "constructed pf w2" "no_live w2" "init_state w2 = DUMAIS_OUT_CONSTRUCTOR"
    "sem_view w2 = sem_view w1" "environ w2 = environ w1" "ALIGNMENT w2 = ALIGNMENT w1" "FILL w2 = FILL w1"
    "MALLOC_0_STRATEGY w2 = MALLOC_0_STRATEGY w1" "NEW_0_STRATEGY w2 = NEW_0_STRATEGY w1" "CHECK_FREQ w2 = CHECK_FREQ w1"
    "numDeallocs w2 = numDeallocs w1" by auto
  from rel_sem_undoes [OF _ g w2(4)] inv r have sv: "sem_view w3 = sem_view ?v" by (simp add: sem_view_def)
  have "heap_ok pf w3 = heap_ok pf w2" by (rule DUMA_rel_sem_frame [OF r]) (rule heap_ok_cong; simp)
  then have fr: "constructed pf w3" "no_live w3" "init_state w3 = init_state w2" "environ w3 = environ w2" "ALIGNMENT w3 = ALIGNMENT w2"
    "FILL w3 = FILL w2" "MALLOC_0_STRATEGY w3 = MALLOC_0_STRATEGY w2" "NEW_0_STRATEGY w3 = NEW_0_STRATEGY w2"
    "CHECK_FREQ w3 = CHECK_FREQ w2" "numDeallocs w3 = numDeallocs w2"
    using w2(1,2) by (auto intro: DUMA_rel_sem_frame [OF r] simp: constructed_def no_live_def perm_at_def)
  have "duma_init pf w3 = Inr w'" using ci fr(3) w2(3) by (simp add: call_init_def less_DUMA_InitState_def)
  from duma_init_ok [OF this assms(1) fr(1,2)] have "running pf w' \<and> sem_view w' = sem_view w3 \<and> CHECK_FREQ w' = 0"
    using fr w2 w1 sv inv assms(3) by (simp add: min_alignment_ok_def sem_view_def)
  with sv show ?thesis by (simp add: sem_view_def)
qed


section \<open>A start-up on the small platform\<close>

definition sample_boot :: world where
  "sample_boot = initial_world sample_pf (\<lambda>_. Unmapped) (\<lambda>_. 0) []"

definition sample_boot_pages :: "nat \<Rightarrow> perm" where
  "sample_boot_pages k =
     (if 786433 \<le> k \<and> k < 786688 then NoAccess else if k = 786432 then ReadWrite
      else if 262144 \<le> k \<and> k < 262146 then NoAccess else Unmapped)"

lemma sample_first_size: "first_size sample_pf = 0x100000"
  by (simp add: first_size_def MEMORY_CREATION_SIZE_def Let_def)


lemma set_pages_twice: "set_pages pf a n p (set_pages pf a n q pg) = set_pages pf a n p pg"
  by (simp add: set_pages_def fun_eq_iff)

lemma sample_null_block:
  "make_null_block sample_pf (sample_boot\<lparr>init_state := s, mutex_owner := ow, mutextid := i, locknr := l, semDepth := d\<rparr>) =
   Inr (sample_boot\<lparr>init_state := s, mutex_owner := ow, mutextid := i, locknr := l, semDepth := d,
     clock := 2, startAddr := 0x40002000, null_block := 0x40000000, null_addr := 0x40001000,
     pages := set_pages sample_pf 0x40000000 0x2000 NoAccess (\<lambda>_. Unmapped)\<rparr>)"
  by (simp add: make_null_block_def Page_Create_def sample_mmap_def mmap_length_def sample_boot_def initial_world_def
     Page_DenyAccess_def mprotect_def sample_mprotect_def Let_def upt_conv_Cons list_all_iff set_pages_twice cong: if_cong)
   (simp add: set_pages_def page_span_def)

lemma sample_boot_unmapped:
  "262146 \<le> k \<Longrightarrow> set_pages sample_pf 0x40000000 0x2000 NoAccess (\<lambda>_. Unmapped) k = Unmapped"
  by (simp add: set_pages_def page_span_def)


definition sample_list_pages :: "nat \<Rightarrow> perm" where
  "sample_list_pages k = (if 786432 \<le> k \<and> k < 786688 then ReadWrite
      else if 262144 \<le> k \<and> k < 262146 then NoAccess else Unmapped)"

lemma sample_list_pages:
  "set_pages sample_pf 0xc0000000 0x100000 ReadWrite (set_pages sample_pf 0x40000000 0x2000 NoAccess (\<lambda>_. Unmapped)) =
   sample_list_pages"
  "set_pages sample_pf 0xc0001000 0xff000 NoAccess sample_list_pages = sample_boot_pages"
  by (auto simp: fun_eq_iff set_pages_def page_span_def sample_list_pages_def sample_boot_pages_def)

lemma sample_first_slots:
  "first_slots sample_pf 0x100000 4096 0xc0000000 =
    first_list_slot 0xc0000000 4096 # first_free_slot 0xc0001000 0xff000 # replicate 62 zero_slot"
proof -
  have "replicate 64 x = x # x # replicate 62 x" for x :: DUMA_Slot by (simp add: numeral_eq_Suc)
  then show ?thesis by (simp add: first_slots_def Let_def sizeof_slot_def)
qed

lemma sample_construct:
  "construct sample_pf (sample_boot\<lparr>init_state := DUMAIS_IN_CONSTRUCTOR, mutex_owner := ow, mutextid := i, locknr := l, semDepth := d\<rparr>) =
   Inr (sample_boot\<lparr>init_state := DUMAIS_OUT_CONSTRUCTOR, mutex_owner := ow, mutextid := i, locknr := l, semDepth := d,
     clock := 4, startAddr := 0xc0100000, null_block := 0x40000000, null_addr := 0x40001000,
     slotsPerPage := 64, allocListSize := 4096, unUsedSlots := 62, allocList := 0xc0000000,
     slots := first_list_slot 0xc0000000 4096 # first_free_slot 0xc0001000 0xff000 # replicate 62 zero_slot,
     pages := sample_boot_pages\<rparr>)"
proof -
  have "sample_list_pages 786432 = ReadWrite" by (simp add: sample_list_pages_def)
  moreover have "\<forall>j \<in> {0 ..< 255}. sample_list_pages (786433 + j) \<noteq> Unmapped" by (simp add: sample_list_pages_def)
  moreover have first_free: "internalAddress (first_free_slot a n) = a" "internalSize (first_free_slot a n) = n" for a n
    by (simp_all add: first_free_slot_def)
  ultimately show ?thesis
    by (simp add: construct_def sample_null_block sample_first_size first_memory_def Page_Create_def sample_mmap_def mmap_length_def
        list_all_iff sample_boot_unmapped Let_def sample_memset [of _ 786432] sample_list_pages sample_first_slots
        Page_DenyAccess_def mprotect_def sample_mprotect_def first_free less_DUMA_InitState_def sizeof_slot_def
        cong: if_cong del: memset.simps)
      (simp add: sample_boot_def initial_world_def fun_eq_iff)
qed


definition sample_up :: world where
  "sample_up = sample_boot\<lparr>init_state := DUMAIS_IN_INIT,
     clock := 4, startAddr := 0xc0100000, null_block := 0x40000000, null_addr := 0x40001000,
     slotsPerPage := 64, allocListSize := 4096, unUsedSlots := 62, allocList := 0xc0000000,
     slots := first_list_slot 0xc0000000 4096 # first_free_slot 0xc0001000 0xff000 # zero_slot # zero_slot # replicate 60 zero_slot,
     pages := sample_boot_pages, out := [Banner_vertype, Banner_version, Banner_copyright]\<rparr>"

lemma scan_tail: "scan_slots sz (replicate n zero_slot) i (full, Some a, Some b) = (full, Some a, Some b)"
  by (induction n arbitrary: i) (simp_all add: zero_slot_def)

lemma sample_check:
  assumes "pages w k = ReadWrite" and "4096 * k \<le> unat b" and "unat e \<le> 4096 * k + 4096"
    and "\<And>x. b \<le> x \<Longrightarrow> x < e \<Longrightarrow> bytes w x = c"
  shows "check_while sample_pf b e c msg w = Inr ()"
proof -
  have "perm_at sample_pf w x = ReadWrite" if "b \<le> x" "x < e" for x
    using that assms(2,3) by (intro page_perm [OF assms(1)]) (simp_all add: word_le_nat_alt word_less_nat_alt)
  from check_while_eq [of b e sample_pf w, OF this] assms(4) show ?thesis by auto
qed

lemma sample_up_malloc:
  "\<exists>w w2. duma_allocate sample_pf 0 123 False 255 True EFA_MALLOC DUMA_FAIL_ENV unknown_pos sample_up = Inr (0xc0001f80, w) \<and>
    numAllocs w \<noteq> 0 \<and> duma_deallocate sample_pf 0xc0001f80 True EFA_FREE unknown_pos w = Inr w2 \<and> numDeallocs w2 \<noteq> 0"
  apply (simp add: duma_defs sample_up_def sample_boot_def first_list_slot_def first_free_slot_def scan_tail [unfolded zero_slot_def]
      Let_def upt_conv_Cons check_while_empty fill_while_empty sample_boot_pages_def sample_memset [of _ 786433] sample_fill [of _ 786433]
      sample_check [of _ 786433] word_less_nat_alt word_le_nat_alt cong: if_cong del: memset.simps sample_pf_def)
  apply (subst sample_check [where k = 786433], (simp add: word_less_nat_alt word_le_nat_alt cong: if_cong)+)+
  apply (simp add: duma_defs Let_def upt_conv_Cons cong: if_cong)
  done

lemma sample_ctor: "\<exists>w'. duma_ctor sample_pf sample_boot = Inr w'"
proof -
  obtain w w2 where w: "duma_allocate sample_pf 0 123 False 255 True EFA_MALLOC DUMA_FAIL_ENV unknown_pos sample_up = Inr (0xc0001f80, w)"
    "numAllocs w \<noteq> 0" "duma_deallocate sample_pf 0xc0001f80 True EFA_FREE unknown_pos w = Inr w2" "numDeallocs w2 \<noteq> 0"
    using sample_up_malloc by blast
  define v where "v = sample_boot\<lparr>init_state := DUMAIS_OUT_CONSTRUCTOR, clock := 4, startAddr := 0xc0100000,
    null_block := 0x40000000, null_addr := 0x40001000, slotsPerPage := 64, allocListSize := 4096, unUsedSlots := 62,
    allocList := 0xc0000000, slots := first_list_slot 0xc0000000 4096 # first_free_slot 0xc0001000 0xff000 # replicate 62 zero_slot,
    pages := sample_boot_pages\<rparr>"
  have "DUMA_get_sem sample_pf (sample_boot\<lparr>init_state := DUMAIS_IN_CONSTRUCTOR\<rparr>) =
      Inr (sample_boot\<lparr>init_state := DUMAIS_IN_CONSTRUCTOR, mutex_owner := Some 1, mutextid := 1, locknr := 1, semDepth := 1\<rparr>)"
    by (simp add: sem_defs sample_boot_def initial_world_def)
  moreover have "DUMA_rel_sem (sample_boot\<lparr>init_state := DUMAIS_OUT_CONSTRUCTOR, mutex_owner := Some 1, mutextid := 1, locknr := 1,
     semDepth := 1, clock := 4, startAddr := 0xc0100000, null_block := 0x40000000, null_addr := 0x40001000,
     slotsPerPage := 64, allocListSize := 4096, unUsedSlots := 62, allocList := 0xc0000000,
     slots := first_list_slot 0xc0000000 4096 # first_free_slot 0xc0001000 0xff000 # replicate 62 zero_slot,
     pages := sample_boot_pages\<rparr>) = Inr v"
    by (simp add: sem_defs v_def sample_boot_def initial_world_def)
  moreover have "init_state sample_boot = DUMAIS_UNINITIALIZED" by (simp add: sample_boot_def initial_world_def)
  ultimately have "duma_ctor sample_pf sample_boot = call_init sample_pf v"
    by (simp add: duma_ctor_def sample_construct Let_def less_eq_DUMA_InitState_def)
  moreover have "init_state v = DUMAIS_OUT_CONSTRUCTOR" "environ v = []" "SLACKFILL v = 170" "DISABLE_BANNER v = False" by (simp_all add: v_def sample_boot_def initial_world_def)
  moreover have "replicate 62 zero_slot = zero_slot # zero_slot # replicate 60 zero_slot" by (simp add: numeral_eq_Suc)
  then have "DUMA_init_sem (DUMA_Print Banner_copyright (DUMA_Print Banner_version (DUMA_Print Banner_vertype
      (v\<lparr>init_state := DUMAIS_IN_INIT, SLACKFILL := 170\<rparr>)))) = sample_up"
    by (simp add: v_def sample_up_def sample_boot_def initial_world_def DUMA_Print_def DUMA_init_sem_def)
  moreover have "allocList sample_up \<noteq> 0" "FILL sample_up = 255" "PROTECT_BELOW sample_up = False"
    by (simp_all add: sample_up_def sample_boot_def initial_world_def)
  moreover have "allocList w \<noteq> 0" using w(3) w(4) by (auto simp: duma_deallocate_def split: if_splits)
  ultimately show ?thesis
    using w
    by (simp add: call_init_def duma_init_def getenvvars_empty Let_def malloc_with_def free_with_def ensure_init_def
        less_DUMA_InitState_def less_eq_DUMA_InitState_def)
qed

lemma sample_min_alignment: "min_alignment_ok sample_pf"
  using sample_pow2(1) by (simp add: min_alignment_ok_def)


end
