(* ===== verification/Duma_Client.thy ===== *)
theory Duma_Client
  imports Duma_Init
begin

text \<open>
  What the library promises to a program that uses it.

  The abstract heap maps the address of every block to its contents.  The step relation
  \<open>heap_step\<close> says what each call may return and how it changes the heap; \<open>heap_of\<close> reads the
  abstract heap off the slot table and the memory.  The locale states the simulation for one
  call and lifts it to programs; its interpretation on the model's functions is where the
  correctness of \<open>malloc\<close>, \<open>calloc\<close>, \<open>realloc\<close> and \<open>free\<close> comes together.
\<close>

section \<open>The abstract heap\<close>

datatype cmd = Malloc u64 | Calloc u64 u64 | Realloc u64 u64 | Free u64 | Read u64 | Write u64 u8

datatype res = Pointer u64 | Done | Value u8

type_synonym heap = "u64 \<Rightarrow> u8 list option"

text \<open>\<open>x\<close> is byte \<open>k\<close> of the block \<open>a\<close>, which holds \<open>c\<close>.\<close>

definition byte_of :: "heap \<Rightarrow> u64 \<Rightarrow> u64 \<Rightarrow> nat \<Rightarrow> u8 list \<Rightarrow> bool" where
  "byte_of H x a k c \<longleftrightarrow> H a = Some c \<and> k < length c \<and> unat x = unat a + k"

text \<open>Room for a new block: its bytes belong to no other.\<close>

definition free_room :: "heap \<Rightarrow> u64 \<Rightarrow> nat \<Rightarrow> bool" where
  "free_room H u n \<longleftrightarrow> u \<noteq> 0 \<and> H u = None \<and> unat u + n < 2 ^ 64 \<and>
     (\<forall>x a k c. unat u \<le> unat x \<and> unat x < unat u + n \<longrightarrow> \<not> byte_of H x a k c)"

text \<open>\<open>fb\<close> is the byte new blocks are filled with, if any, and \<open>na\<close> the reserved address a request for
  no bytes may return.  \<open>realloc\<close> keeps what fits of the old contents and adds null bytes; its new
  block may lie where the old one was, but nowhere else in use.\<close>

inductive heap_step :: "u8 option \<Rightarrow> u64 \<Rightarrow> heap \<Rightarrow> cmd \<Rightarrow> res \<Rightarrow> heap \<Rightarrow> bool" for fb na where
  malloc: "free_room H u (unat n) \<Longrightarrow> length c = unat n \<Longrightarrow> (\<And>b. fb = Some b \<Longrightarrow> c = replicate (unat n) b) \<Longrightarrow>
    heap_step fb na H (Malloc n) (Pointer u) (H(u \<mapsto> c))"
| malloc_fails: "heap_step fb na H (Malloc n) (Pointer 0) H"
| calloc: "free_room H u (unat n * unat m) \<Longrightarrow>
    heap_step fb na H (Calloc n m) (Pointer u) (H(u \<mapsto> replicate (unat n * unat m) 0))"
| calloc_fails: "heap_step fb na H (Calloc n m) (Pointer 0) H"
| realloc_null: "free_room H u (unat n) \<Longrightarrow> length c = unat n \<Longrightarrow> (\<And>b. fb = Some b \<Longrightarrow> c = replicate (unat n) b) \<Longrightarrow>
    heap_step fb na H (Realloc 0 n) (Pointer u) (H(u \<mapsto> c))"
| realloc: "H a = Some c \<Longrightarrow> n \<noteq> 0 \<Longrightarrow> free_room (H(a := None)) u (unat n) \<Longrightarrow>
    heap_step fb na H (Realloc a n) (Pointer u) (H(a := None, u \<mapsto> take (unat n) c @ replicate (unat n - length c) 0))"
| realloc_fails: "n \<noteq> 0 \<Longrightarrow> heap_step fb na H (Realloc a n) (Pointer 0) H"
| realloc_frees: "H a = Some c \<Longrightarrow> heap_step fb na H (Realloc a 0) (Pointer 0) (H(a := None))"
| realloc_reserved: "heap_step fb na H (Realloc na 0) (Pointer 0) H"
| free: "H a = Some c \<Longrightarrow> heap_step fb na H (Free a) Done (H(a := None))"
| free_null: "a = 0 \<or> a = na \<Longrightarrow> heap_step fb na H (Free a) Done H"
| read: "byte_of H x a k c \<Longrightarrow> heap_step fb na H (Read x) (Value (c ! k)) H"
| write_byte: "byte_of H x a k c \<Longrightarrow> heap_step fb na H (Write x v) Done (H(a \<mapsto> c[k := v]))"

inductive_cases heap_freeE: "heap_step fb na H (Free a) r H'"
inductive_cases heap_readE: "heap_step fb na H (Read x) r H'"
inductive_cases heap_writeE: "heap_step fb na H (Write x v) r H'"

inductive heap_run :: "u8 option \<Rightarrow> u64 \<Rightarrow> heap \<Rightarrow> cmd list \<Rightarrow> res list \<Rightarrow> heap \<Rightarrow> bool" for fb na where
  stop: "heap_run fb na H [] [] H"
| step: "heap_step fb na H c r H1 \<Longrightarrow> heap_run fb na H1 cs rs H2 \<Longrightarrow> heap_run fb na H (c # cs) (r # rs) H2"

section \<open>Programs\<close>

fun exec :: "platform \<Rightarrow> cmd \<Rightarrow> world \<Rightarrow> stop + res \<times> world" where
  "exec pf (Malloc n) w = and_then (glob_malloc pf n w) (\<lambda>(u, w). Inr (Pointer u, w))"
| "exec pf (Calloc n m) w = and_then (glob_calloc pf n m w) (\<lambda>(u, w). Inr (Pointer u, w))"
| "exec pf (Realloc a n) w = and_then (glob_realloc pf a n w) (\<lambda>(u, w). Inr (Pointer u, w))"
| "exec pf (Free a) w = and_then (glob_free pf a w) (\<lambda>w. Inr (Done, w))"
| "exec pf (Read x) w = and_then (load pf x w) (\<lambda>v. Inr (Value v, w))"
| "exec pf (Write x v) w = and_then (store pf x v w) (\<lambda>w. Inr (Done, w))"

fun exec_all :: "(cmd \<Rightarrow> 'm \<Rightarrow> 'e + res \<times> 'm) \<Rightarrow> cmd list \<Rightarrow> 'm \<Rightarrow> 'e + res list \<times> 'm" where
  "exec_all ex [] w = Inr ([], w)"
| "exec_all ex (c # cs) w =
     and_then (ex c w) (\<lambda>(r, w). and_then (exec_all ex cs w) (\<lambda>(rs, w). Inr (r # rs, w)))"

text \<open>What a program must respect: it touches only bytes of its own blocks, and asks for at least one
  byte and at most half a gigabyte at a time, while the slot array has at most a quarter.  Any
  address may be freed; \<open>realloc\<close> takes one of its blocks, or the null pointer.\<close>

definition owns :: "world \<Rightarrow> u64 \<Rightarrow> bool" where
  "owns w x \<longleftrightarrow> list_ex (\<lambda>s. live s \<and> unat (userAddress s) \<le> unat x \<and>
     unat x < unat (userAddress s) + unat (userSize s)) (slots w)"

definition is_block :: "world \<Rightarrow> u64 \<Rightarrow> bool" where
  "is_block w a \<longleftrightarrow> list_ex (\<lambda>s. live s \<and> userAddress s = a) (slots w)"

fun allowed :: "cmd \<Rightarrow> world \<Rightarrow> bool" where
  "allowed (Malloc n) w \<longleftrightarrow> n \<noteq> 0 \<and> unat n \<le> 2 ^ 29 \<and> small_list w"
| "allowed (Calloc n m) w \<longleftrightarrow> 0 < unat n * unat m \<and> unat n * unat m \<le> 2 ^ 29 \<and> small_list w"
| "allowed (Realloc a n) w \<longleftrightarrow>
     (if n = 0 then a \<noteq> 0
      else unat n \<le> 2 ^ 29 \<and> small_list w \<and> (a = 0 \<or> is_block w a \<and> a \<noteq> null_addr w))"
| "allowed (Free a) w \<longleftrightarrow> True"
| "allowed (Read x) w \<longleftrightarrow> owns w x"
| "allowed (Write x v) w \<longleftrightarrow> owns w x"

fun allowed_all :: "(cmd \<Rightarrow> 'm \<Rightarrow> 'e + res \<times> 'm) \<Rightarrow> (cmd \<Rightarrow> 'm \<Rightarrow> bool) \<Rightarrow> cmd list \<Rightarrow> 'm \<Rightarrow> bool" where
  "allowed_all ex ok [] w \<longleftrightarrow> True"
| "allowed_all ex ok (c # cs) w \<longleftrightarrow>
     ok c w \<and> (case ex c w of Inl e \<Rightarrow> True | Inr (r, w) \<Rightarrow> allowed_all ex ok cs w)"

section \<open>The simulation\<close>

locale heap_simulation =
  fixes ex :: "cmd \<Rightarrow> 'm \<Rightarrow> 'e + res \<times> 'm" and ok :: "cmd \<Rightarrow> 'm \<Rightarrow> bool"
    and abs :: "'m \<Rightarrow> heap" and inv :: "u8 option \<Rightarrow> u64 \<Rightarrow> 'm \<Rightarrow> bool"
  assumes simulated: "inv fb na m \<Longrightarrow> ok c m \<Longrightarrow> ex c m = Inr (r, m') \<Longrightarrow>
      inv fb na m' \<and> heap_step fb na (abs m) c r (abs m')"
begin

lemma run_simulated:
  "inv fb na m \<Longrightarrow> allowed_all ex ok cs m \<Longrightarrow> exec_all ex cs m = Inr (rs, m') \<Longrightarrow>
   inv fb na m' \<and> heap_run fb na (abs m) cs rs (abs m')"
proof (induction cs arbitrary: m rs)
  case Nil
  then show ?case by (simp add: heap_run.stop)
next
  case (Cons c cs)
  from Cons.prems(3) obtain r m1 rs' where s: "ex c m = Inr (r, m1)" "exec_all ex cs m1 = Inr (rs', m')" "rs = r # rs'"
    by (auto simp: and_then_Inr_iff)
  with Cons.prems(2) have a: "ok c m" "allowed_all ex ok cs m1" by simp_all
  from simulated [OF Cons.prems(1) a(1) s(1)] Cons.IH [OF _ a(2) s(2)] s(3) show ?case
    by (auto intro: heap_run.step)
qed

text \<open>An outcome the abstract heap does not have cannot be observed.\<close>

lemma free_of_unknown_stops:
  assumes "inv fb na m" and "ok (Free a) m" and "abs m a = None" and "a \<noteq> 0" and "a \<noteq> na"
  shows "\<exists>e. ex (Free a) m = Inl e"
proof (cases "ex (Free a) m")
  case (Inr p)
  then obtain r m' where "ex (Free a) m = Inr (r, m')" by (cases p) simp
  from simulated [OF assms(1,2) this] assms(3-5) show ?thesis by (auto elim: heap_freeE)
qed simp

end

section \<open>The abstract heap of a state\<close>

definition contents :: "world \<Rightarrow> DUMA_Slot \<Rightarrow> u8 list" where
  "contents w s = map (\<lambda>k. bytes w (userAddress s + word_of_nat k)) [0 ..< unat (userSize s)]"

definition heap_of :: "world \<Rightarrow> heap" where
  "heap_of w a = map_option (contents w) (find (\<lambda>s. live s \<and> userAddress s = a) (slots w))"


lemma contents_nth: "k < unat (userSize s) \<Longrightarrow> contents w s ! k = bytes w (userAddress s + word_of_nat k)"
  by (simp add: contents_def)

lemma length_contents [simp]: "length (contents w s) = unat (userSize s)"
  by (simp add: contents_def)

lemma live_address_nonzero:
  assumes "heap_ok pf w" and "i < length (slots w)" and "live (slots w ! i)"
  shows "userAddress (slots w ! i) \<noteq> 0"
proof -
  have "slot_shape pf (slots w ! i)" using assms by (auto simp: heap_ok_def slot_ok_def dest!: table_ok_nth)
  then have "internalAddress (slots w ! i) \<noteq> 0" using assms(3) by (auto simp: slot_shape_def live_def split: if_splits)
  with live_in_slot [OF assms] show ?thesis by (auto simp: in_slot_def in_rng_def unat_eq_0)
qed

lemma heap_of_Some:
  assumes ok: "heap_ok pf w"
  shows "heap_of w a = Some c \<longleftrightarrow>
    (\<exists>i < length (slots w). live (slots w ! i) \<and> userAddress (slots w ! i) = a \<and> c = contents w (slots w ! i))"
proof
  assume "heap_of w a = Some c"
  then show "\<exists>i < length (slots w). live (slots w ! i) \<and> userAddress (slots w ! i) = a \<and> c = contents w (slots w ! i)"
    by (auto simp: heap_of_def find_Some_iff)
next
  assume "\<exists>i < length (slots w). live (slots w ! i) \<and> userAddress (slots w ! i) = a \<and> c = contents w (slots w ! i)"
  then obtain i where i: "i < length (slots w)" "live (slots w ! i)" "userAddress (slots w ! i) = a" "c = contents w (slots w ! i)"
    by blast
  have "j = i" if "j < length (slots w)" "userAddress (slots w ! j) = a" for j
    using user_address_unique [OF ok i(1-3) _ that] live_address_nonzero [OF ok i(1,2)] i(3) by blast
  then have "\<forall>j < i. \<not> (live (slots w ! j) \<and> userAddress (slots w ! j) = a)" using i(1) less_trans by blast
  with i(1-3) have "find (\<lambda>s. live s \<and> userAddress s = a) (slots w) = Some (slots w ! i)"
    unfolding find_Some_iff by (intro exI [of _ i]) simp
  with i(4) show "heap_of w a = Some c" by (simp add: heap_of_def)
qed

lemma heap_of_live:
  "heap_ok pf w \<Longrightarrow> i < length (slots w) \<Longrightarrow> live (slots w ! i) \<Longrightarrow>
   heap_of w (userAddress (slots w ! i)) = Some (contents w (slots w ! i))"
  using heap_of_Some by blast

text \<open>A block's bytes, seen through the abstract heap and through the slot table.\<close>

lemma byte_of_heap:
  assumes ok: "heap_ok pf w"
  shows "byte_of (heap_of w) x a k c \<longleftrightarrow>
    (\<exists>i < length (slots w). live (slots w ! i) \<and> userAddress (slots w ! i) = a \<and> c = contents w (slots w ! i) \<and>
       unat x = unat a + k \<and> k < unat (userSize (slots w ! i)))"
  unfolding byte_of_def heap_of_Some [OF ok] by auto

lemma owns_byte:
  assumes ok: "heap_ok pf w" and "owns w x"
  shows "\<exists>a k c. byte_of (heap_of w) x a k c"
proof -
  from assms(2) obtain i where i: "i < length (slots w)" "live (slots w ! i)"
    "unat (userAddress (slots w ! i)) \<le> unat x" "unat x < unat (userAddress (slots w ! i)) + unat (userSize (slots w ! i))"
    by (auto simp: owns_def list_ex_iff in_set_conv_nth)
  then have "byte_of (heap_of w) x (userAddress (slots w ! i)) (unat x - unat (userAddress (slots w ! i))) (contents w (slots w ! i))"
    unfolding byte_of_heap [OF ok] by (intro exI [of _ i]) auto
  then show ?thesis by blast
qed

lemma byte_of_access:
  assumes ok: "heap_ok pf w" and b: "byte_of (heap_of w) x a k c"
  shows "load pf x w = Inr (c ! k)" "\<exists>w'. store pf x v w = Inr w'"
proof -
  from b obtain i where i: "i < length (slots w)" "live (slots w ! i)" "userAddress (slots w ! i) = a"
    "c = contents w (slots w ! i)" "unat x = unat a + k" "k < unat (userSize (slots w ! i))"
    unfolding byte_of_heap [OF ok] by blast
  have rw: "perm_at pf w x = ReadWrite" using i by (intro live_user_range(2) [OF ok i(1,2)]) simp_all
  have "unat x < 2 ^ 64" by (rule order_less_le_trans [OF unsigned_less]) simp
  then have x: "x = a + word_of_nat k" using i(5) by (intro word_unat_eq_iff [THEN iffD2]) (simp add: unat_offset)
  have "c ! k = bytes w x" using i(3,4,6) by (simp add: contents_nth x)
  with rw show "load pf x w = Inr (c ! k)" "\<exists>w'. store pf x v w = Inr w'" by (simp_all add: load_def store_def)
qed

section \<open>The calls\<close>

text \<open>Away from the slots an operation works on, it leaves the abstract heap alone.\<close>

lemma contents_cong:
  assumes "\<And>x. unat (userAddress s) \<le> unat x \<Longrightarrow> unat x < unat (userAddress s) + unat (userSize s) \<Longrightarrow> bytes w' x = bytes w x"
    and "unat (userAddress s) + unat (userSize s) < 2 ^ 64"
  shows "contents w' s = contents w s"
  using assms by (auto simp: contents_def unat_offset)

lemma heap_of_keeps:
  assumes ok: "heap_ok pf w" "heap_ok pf w'" and kp: "keeps pf I w w'"
    and I: "\<And>i. i \<in> I \<Longrightarrow> i < length (slots w) \<Longrightarrow> live (slots w ! i) \<Longrightarrow> userAddress (slots w ! i) \<noteq> a"
      "\<And>i. i \<in> I \<Longrightarrow> i < length (slots w') \<Longrightarrow> live (slots w' ! i) \<Longrightarrow> userAddress (slots w' ! i) \<noteq> a"
  shows "heap_of w' a = heap_of w a"
proof -
  have same: "contents w' (slots w ! i) = contents w (slots w ! i)"
    if i: "i < length (slots w)" "live (slots w ! i)" "i \<notin> I" for i
    using keepsD(4) [OF kp i(1,3,2)] live_user_range(1) [OF ok(1) i(1,2)] live_end [OF ok(1) i(1,2)]
    by (intro contents_cong) auto
  have "heap_of w' a = Some c \<longleftrightarrow> heap_of w a = Some c" for c
  proof
    assume "heap_of w' a = Some c"
    then obtain i where i: "i < length (slots w')" "live (slots w' ! i)" "userAddress (slots w' ! i) = a" "c = contents w' (slots w' ! i)"
      unfolding heap_of_Some [OF ok(2)] by blast
    with I(2) have n: "i \<notin> I" by blast
    note b = keeps_back [OF kp i(1) n i(2)]
    with i same [of i] n have "c = contents w (slots w ! i)" by simp
    with b i show "heap_of w a = Some c" unfolding heap_of_Some [OF ok(1)] by auto
  next
    assume "heap_of w a = Some c"
    then obtain i where i: "i < length (slots w)" "live (slots w ! i)" "userAddress (slots w ! i) = a" "c = contents w (slots w ! i)"
      unfolding heap_of_Some [OF ok(1)] by blast
    with I(1) have n: "i \<notin> I" by blast
    from keepsD(1,2) [OF kp i(1) n i(2)] i same [OF i(1,2) n] show "heap_of w' a = Some c"
      unfolding heap_of_Some [OF ok(2)] by (intro exI [of _ i]) simp
  qed
  then show ?thesis by (metis not_Some_eq)
qed

text \<open>A block that appears at slot \<open>f\<close> lies apart from every block that stays.\<close>

lemma new_block_room:
  assumes ok: "heap_ok pf w" "heap_ok pf w'" and kp: "keeps pf I w w'" and fI: "f \<in> I"
    and f: "f < length (slots w')" "live (slots w' ! f)" "userAddress (slots w' ! f) = u" "userSize (slots w' ! f) = n"
    and u: "u \<noteq> 0" and sub: "\<And>a c. H a = Some c \<Longrightarrow> heap_of w a = Some c"
    and gone: "\<And>i. i \<in> I \<Longrightarrow> i < length (slots w) \<Longrightarrow> live (slots w ! i) \<Longrightarrow> H (userAddress (slots w ! i)) = None"
  shows "free_room H u (unat n)"
proof -
  have stays: "\<exists>j < length (slots w'). j \<noteq> f \<and> live (slots w' ! j) \<and> userAddress (slots w' ! j) = a \<and>
      unat (userSize (slots w' ! j)) = length c" if a: "H a = Some c" for a c
  proof -
    from sub [OF a] obtain j where j: "j < length (slots w)" "live (slots w ! j)" "userAddress (slots w ! j) = a"
      "c = contents w (slots w ! j)" by (auto simp: heap_of_Some [OF ok(1)])
    with gone a have n: "j \<notin> I" by fastforce
    with keepsD(1,2) [OF kp j(1) n j(2)] j fI show ?thesis by (intro exI [of _ j]) auto
  qed
  have "H u = None"
  proof (rule ccontr)
    assume "H u \<noteq> None"
    then obtain j where "j < length (slots w')" "j \<noteq> f" "userAddress (slots w' ! j) = u" using stays by blast
    with user_address_unique [OF ok(2) f(1-3) u] show False by blast
  qed
  moreover have "\<not> byte_of H x a k c" if x: "unat u \<le> unat x" "unat x < unat u + unat n" for x a k c
  proof
    assume "byte_of H x a k c"
    then have b: "H a = Some c" "k < length c" "unat x = unat a + k" by (simp_all add: byte_of_def)
    from stays [OF b(1)] obtain j where "j < length (slots w')" "j \<noteq> f" "live (slots w' ! j)" "userAddress (slots w' ! j) = a"
      "unat (userSize (slots w' ! j)) = length c" by blast
    with two_live_apart [OF ok(2) this(1,3) f(1,2) this(2), of x] b f(3,4) x show False by simp
  qed
  moreover have "unat u + unat n < 2 ^ 64" using live_end [OF ok(2) f(1,2)] f(3,4) by simp
  ultimately show ?thesis using u by (simp add: free_room_def)
qed

lemma allocate_simulated:
  assumes os: "os_ok pf" and ok: "heap_ok pf w" and sl: "small_list w"
    and rq: "request_ok pf (effective_alignment 0 n w) n below alloc w"
    and a: "duma_allocate pf 0 n below fb prot alloc fail pos w = Inr (u, w')"
  shows "heap_ok pf w'" "u = 0 \<Longrightarrow> heap_of w' = heap_of w"
    "u \<noteq> 0 \<Longrightarrow> free_room (heap_of w) u (unat n)"
    "u \<noteq> 0 \<Longrightarrow> \<exists>c. heap_of w' = (heap_of w)(u \<mapsto> c) \<and> length c = unat n \<and>
       (fb \<noteq> - 1 \<longrightarrow> c = replicate (unat n) (ucast fb))"
proof -
  from duma_allocate_allocated [OF os ok sl rq a] obtain f
    where al: "allocated pf (effective_alignment 0 n w) n below fb alloc pos f u w w'" ..
  then show ok': "heap_ok pf w'" by (simp add: allocated_def)
  show "heap_of w' = heap_of w" if "u = 0"
    using al that by (intro ext heap_of_keeps [OF ok ok']) (auto simp: allocated_def)
  assume u: "u \<noteq> 0"
  note F = allocated_facts [OF al u request_facts [OF rq]]
  show "free_room (heap_of w) u (unat n)"
    by (rule new_block_room [OF ok ok' F(3) _ F(1,4,6,7) u]) (use F(5) in auto)
  let ?c = "contents w' (slots w' ! f)"
  have "heap_of w' a = ((heap_of w)(u \<mapsto> ?c)) a" for a
    using heap_of_live [OF ok' F(1,4)] heap_of_keeps [OF ok ok' F(3), of a] F(5,6) by (cases "a = u") auto
  moreover have "?c = replicate (unat n) (ucast fb)" if "fb \<noteq> - 1"
    using al u that live_end [OF F(2,1,4)] F(6,7)
    by (intro nth_equalityI) (auto simp: allocated_def contents_nth unat_offset)
  ultimately show "\<exists>c. heap_of w' = (heap_of w)(u \<mapsto> c) \<and> length c = unat n \<and>
       (fb \<noteq> - 1 \<longrightarrow> c = replicate (unat n) (ucast fb))"
    using F(7) by (intro exI [of _ ?c]) auto
qed

lemma deallocate_simulated:
  assumes ok: "heap_ok pf w" and a: "a \<noteq> 0" "a \<noteq> null_addr w" and d: "alloc_type d \<noteq> DUMAAT_INTERNAL"
    and f: "duma_deallocate pf a prot d pos w = Inr w'"
  shows "heap_ok pf w'" "\<exists>c. heap_of w a = Some c" "heap_of w' = (heap_of w)(a := None)"
proof -
  from duma_deallocate_ok [OF ok a d f] obtain i where i: "i < length (slots w)" "userAddress (slots w ! i) = a" "live (slots w ! i)"
    "heap_ok pf w'" "keeps pf {i} w w'" "state (slots w' ! i) = DUMAST_ALL_PROTECTED \<or> state (slots w' ! i) = DUMAST_EMPTY"
    by metis
  show ok': "heap_ok pf w'" by (rule i)
  show "\<exists>c. heap_of w a = Some c" using heap_of_live [OF ok i(1,3)] i(2) by auto
  have dead: "\<not> live (slots w' ! i)" using i(6) by (auto simp: live_def)
  have "heap_of w' a = None"
  proof (rule ccontr)
    assume "heap_of w' a \<noteq> None"
    then obtain j where j: "j < length (slots w')" "live (slots w' ! j)" "userAddress (slots w' ! j) = a"
      by (auto simp: heap_of_Some [OF ok'])
    with dead have ne: "j \<notin> {i}" by auto
    from keeps_back [OF i(5) j(1) ne j(2)] j(3) user_address_unique [OF ok i(1,3,2) a(1), of j] ne show False by simp
  qed
  moreover have "heap_of w' b = heap_of w b" if "b \<noteq> a" for b
    using i(2) dead that by (intro heap_of_keeps [OF ok ok' i(5)]) auto
  ultimately show "heap_of w' = (heap_of w)(a := None)" by auto
qed

text \<open>Opening and closing the slot array leaves the abstract heap alone.\<close>

lemma open_simulated:
  assumes ok: "heap_ok pf w" and o: "open_list pf prot w = Inr w'"
  shows "heap_ok pf w'" "heap_of w' = heap_of w"
proof -
  show ok': "heap_ok pf w'" using open_list_ok [OF o ok] by simp
  show "heap_of w' = heap_of w"
    by (intro ext heap_of_keeps [OF ok ok' open_list_keeps(1) [OF o ok, of "{}"]]) simp_all
qed

lemma close_simulated:
  assumes ok: "heap_ok pf w" and c: "close_list pf prot w = Inr w'"
  shows "heap_ok pf w'" "heap_of w' = heap_of w"
proof -
  show ok': "heap_ok pf w'" by (rule close_list_ok [OF c ok])
  show "heap_of w' = heap_of w"
    by (intro ext heap_of_keeps [OF ok ok' close_list_keeps(1) [OF c ok, of "{}"]]) simp_all
qed

lemma resized_contents:
  assumes b: "\<And>x. unat (userAddress t) \<le> unat x \<Longrightarrow> unat x < unat (userAddress t) + unat (userSize t) \<Longrightarrow>
      bytes w' x = resized_bytes (userAddress s) (unat (userSize s)) (userAddress t) (unat (userSize t)) (bytes w) x"
    and e: "unat (userAddress t) + unat (userSize t) < 2 ^ 64"
  shows "contents w' t = take (unat (userSize t)) (contents w s) @ replicate (unat (userSize t) - length (contents w s)) 0"
proof (rule nth_equalityI)
  fix k assume "k < length (contents w' t)"
  then have k: "k < unat (userSize t)" by simp
  with e have "unat (userAddress t + word_of_nat k) = unat (userAddress t) + k" by (simp add: unat_offset)
  with k b [of "userAddress t + word_of_nat k"]
  show "contents w' t ! k = (take (unat (userSize t)) (contents w s) @ replicate (unat (userSize t) - length (contents w s)) 0) ! k"
    by (simp add: contents_nth nth_append resized_bytes_def)
qed simp

lemma realloc_moves:
  assumes os: "os_ok pf" and ok: "heap_ok pf w" and sl: "small_list w"
    and rq: "request_ok pf (effective_alignment 0 sz w) sz (PROTECT_BELOW w) EFA_REALLOC w"
    and i: "i < length (slots w)" "live (slots w ! i)" "userAddress (slots w ! i) = old"
    and nz: "old \<noteq> 0" "old \<noteq> null_addr w" "sz \<noteq> 0"
    and r: "realloc_with init pf old sz pos w = Inr (u, w')" and u: "u \<noteq> 0"
  shows "heap_ok pf w'" "config w' = config w" "free_room ((heap_of w)(old := None)) u (unat sz)"
    "heap_of w' = (heap_of w)(old := None, u \<mapsto> take (unat sz) (contents w (slots w ! i)) @
       replicate (unat sz - length (contents w (slots w ! i))) 0)"
proof -
  from realloc_ok [OF os ok sl allocList_nonzero [OF ok] rq i nz r u] obtain f where f: "f < length (slots w')"
    "live (slots w' ! f)" "userAddress (slots w' ! f) = u" "userSize (slots w' ! f) = sz" and ok': "heap_ok pf w'"
    and kp: "keeps pf {i, f} w w'" and dead: "\<not> live (slots w' ! i)" and cf: "config w' = config w"
    and new: "f < length (slots w) \<longrightarrow> \<not> live (slots w ! f)"
    and b: "\<forall>x. unat u \<le> unat x \<and> unat x < unat u + unat sz \<longrightarrow>
       bytes w' x = resized_bytes old (unat (userSize (slots w ! i))) u (unat sz) (bytes w) x" by blast
  show "heap_ok pf w'" "config w' = config w" by fact+
  show "free_room ((heap_of w)(old := None)) u (unat sz)"
    by (rule new_block_room [OF ok ok' kp _ f u]) (use i(3) new in \<open>auto split: if_splits\<close>)
  let ?c = "contents w (slots w ! i)"
  have c: "contents w' (slots w' ! f) = take (unat sz) ?c @ replicate (unat sz - length ?c) 0"
    using resized_contents [of "slots w' ! f" w' "slots w ! i" w] b f(3,4) i(3) live_end [OF ok' f(1,2)] by simp
  have old: "heap_of w' old = None" if "old \<noteq> u"
  proof (rule ccontr)
    assume "heap_of w' old \<noteq> None"
    then obtain j where j: "j < length (slots w')" "live (slots w' ! j)" "userAddress (slots w' ! j) = old"
      by (auto simp: heap_of_Some [OF ok'])
    with dead f(3) that have n: "j \<notin> {i, f}" by auto
    from keeps_back [OF kp j(1) n j(2)] j(3) user_address_unique [OF ok i nz(1), of j] n show False by simp
  qed
  have "heap_of w' d = ((heap_of w)(old := None, u \<mapsto> contents w' (slots w' ! f))) d" for d
  proof -
    consider "d = u" | "d = old" "d \<noteq> u" | "d \<noteq> old" "d \<noteq> u" by blast
    then show ?thesis
    proof cases
      case 1
      then show ?thesis using heap_of_live [OF ok' f(1,2)] f(3) by simp
    next
      case 2
      then show ?thesis using old by simp
    next
      case 3
      then have "heap_of w' d = heap_of w d"
        using i(3) new dead f(3) by (intro heap_of_keeps [OF ok ok' kp]) auto
      with 3 show ?thesis by simp
    qed
  qed
  then show "heap_of w' = (heap_of w)(old := None, u \<mapsto> take (unat sz) ?c @ replicate (unat sz - length ?c) 0)"
    unfolding c by (rule ext)
qed

lemma store_simulated:
  assumes ok: "heap_ok pf w" and b: "byte_of (heap_of w) x a k c" and st: "store pf x v w = Inr w'"
  shows "heap_ok pf w'" "heap_of w' = (heap_of w)(a \<mapsto> c[k := v])" "config w' = config w"
proof -
  from st have w': "w' = w\<lparr>bytes := (bytes w)(x := v)\<rparr>" by (simp add: store_def split: if_splits)
  show ok': "heap_ok pf w'" using ok heap_ok_cong [of w' w] by (simp add: w')
  show "config w' = config w" by (rule config_fixed) (simp add: w' fixed_bytes)
  from b obtain i where i: "i < length (slots w)" "live (slots w ! i)" "userAddress (slots w ! i) = a"
    "c = contents w (slots w ! i)" "unat x = unat a + k" "k < unat (userSize (slots w ! i))"
    unfolding byte_of_heap [OF ok] by blast
  have ins: "in_slot (slots w ! i) x" using i by (intro live_user_range(1) [OF ok i(1,2)]) simp_all
  have kp: "keeps pf {i} w w'"
    using ok i(1) ins by (intro keeps_inside [where i = i]) (auto simp: heap_ok_def w' perm_at_def)
  have e: "unat a + unat (userSize (slots w ! i)) < 2 ^ 64" using live_end [OF ok i(1,2)] i(3) by simp
  have "contents w' (slots w ! i) = c[k := v]"
  proof (rule nth_equalityI)
    fix n assume "n < length (contents w' (slots w ! i))"
    then have n: "n < unat (userSize (slots w ! i))" by simp
    with e have "a + word_of_nat n = x \<longleftrightarrow> n = k" by (simp add: word_unat_eq_iff unat_offset i(5))
    with n i(3,4,6) show "contents w' (slots w ! i) ! n = c[k := v] ! n"
      by (simp add: contents_nth nth_list_update w')
  qed (simp add: i(4))
  moreover have "slots w' = slots w" by (simp add: w')
  ultimately have "heap_of w' d = ((heap_of w)(a \<mapsto> c[k := v])) d" for d
    using heap_of_live [OF ok', of i] heap_of_keeps [OF ok ok' kp, of d] i(1-3) by (cases "d = a") auto
  then show "heap_of w' = (heap_of w)(a \<mapsto> c[k := v])" by (rule ext)
qed

section \<open>The library implements the abstract heap\<close>

definition fill_of :: "world \<Rightarrow> u8 option" where
  "fill_of w = (if FILL w = - 1 then None else Some (ucast (FILL w)))"

definition ready :: "platform \<Rightarrow> u8 option \<Rightarrow> u64 \<Rightarrow> world \<Rightarrow> bool" where
  "ready pf fb na w \<longleftrightarrow> os_ok pf \<and> heap_ok pf w \<and> default_alignment_ok pf w \<and> fill_of w = fb \<and> null_addr w = na"

lemma fill_config: "config w' = config w \<Longrightarrow> fill_of w' = fill_of w"
proof -
  have "fill_of (config v) = fill_of v" for v by (simp add: fill_of_def mask_defs)
  then show "config w' = config w \<Longrightarrow> fill_of w' = fill_of w" by metis
qed

lemma ready_config: "ready pf fb na w \<Longrightarrow> heap_ok pf w' \<Longrightarrow> config w' = config w \<Longrightarrow> ready pf fb na w'"
  unfolding ready_def using default_alignment_config [of w' w pf] fill_config [of w' w] null_addr_config [of w' w] by blast

text \<open>The constructor leaves an empty heap, ready for use.\<close>

lemma running_ready:
  assumes "os_ok pf" and "running pf w"
  shows "ready pf (fill_of w) (null_addr w) w" "heap_of w = Map.empty"
proof -
  show "ready pf (fill_of w) (null_addr w) w" using assms by (simp add: ready_def running_def)
  have "find (\<lambda>s. live s \<and> userAddress s = a) (slots w) = None" for a
    using assms(2) by (auto simp: find_None_iff running_def no_live_def)
  then show "heap_of w = Map.empty" by (auto simp: heap_of_def)
qed

lemma ready_request:
  assumes "ready pf fb na w" and "n \<noteq> 0" and "unat n \<le> 2 ^ 29" and "alloc \<noteq> EFA_INT_ALLOC"
  shows "request_ok pf (effective_alignment 0 n w) n below alloc w"
  using assms by (intro default_request_ok) (simp_all add: ready_def default_alignment_ok_def heap_ok_def)

lemma malloc_step:
  assumes r: "ready pf fb na w" and n: "n \<noteq> 0" "unat n \<le> 2 ^ 29" "small_list w" and alloc: "alloc \<noteq> EFA_INT_ALLOC"
    and a: "duma_allocate pf 0 n (PROTECT_BELOW w) (FILL w) prot alloc fail pos w = Inr (u, w')"
  shows "ready pf fb na w'" "u = 0 \<Longrightarrow> heap_of w' = heap_of w"
    "u \<noteq> 0 \<Longrightarrow> free_room (heap_of w) u (unat n)"
    "u \<noteq> 0 \<Longrightarrow> \<exists>c. heap_of w' = (heap_of w)(u \<mapsto> c) \<and> length c = unat n \<and> (\<forall>b. fb = Some b \<longrightarrow> c = replicate (unat n) b)"
proof -
  from r have os: "os_ok pf" and hk: "heap_ok pf w" and fb: "fill_of w = fb" by (simp_all add: ready_def)
  note S = allocate_simulated [OF os hk n(3) ready_request [OF r n(1,2) alloc] a]
  show "ready pf fb na w'" by (rule ready_config [OF r S(1) duma_allocate_config(1) [OF a]])
  show "u = 0 \<Longrightarrow> heap_of w' = heap_of w" "u \<noteq> 0 \<Longrightarrow> free_room (heap_of w) u (unat n)" by (fact S)+
  show "\<exists>c. heap_of w' = (heap_of w)(u \<mapsto> c) \<and> length c = unat n \<and> (\<forall>b. fb = Some b \<longrightarrow> c = replicate (unat n) b)"
    if "u \<noteq> 0" using S(4) [OF that] fb by (auto simp: fill_of_def split: if_splits)
qed

lemma realloc_simulated:
  assumes r: "ready pf fb na w" and al: "allowed (Realloc a n) w" and e: "realloc_with init pf a n pos w = Inr (u, w')"
  shows "ready pf fb na w' \<and> heap_step fb na (heap_of w) (Realloc a n) (Pointer u) (heap_of w')"
proof -
  from r have os: "os_ok pf" and hk: "heap_ok pf w" and na: "null_addr w = na" by (simp_all add: ready_def)
  from e obtain w1 w3 where o: "open_list pf True w = Inr w1" and b: "realloc_body pf a n pos w1 = Inr (u, w3)"
    and c: "close_list pf True w3 = Inr w'"
    by (auto simp: realloc_with_def ensure_init_done [OF allocList_nonzero [OF hk]] and_then_Inr_iff)
  note O = open_simulated [OF hk o] and oF = open_list_facts [OF o]
  have r1: "ready pf fb na w1" by (rule ready_config [OF r O(1) oF(4)])
  then have na1: "null_addr w1 = na" by (simp add: ready_def)
  have finish: "ready pf fb na w' \<and> heap_of w' = heap_of w3" if r3: "ready pf fb na w3"
  proof -
    from r3 have "heap_ok pf w3" by (simp add: ready_def)
    note C = close_simulated [OF this c]
    show ?thesis using ready_config [OF r3 C(1) config_close [OF c]] C(2) by simp
  qed
  consider "a = 0" "n \<noteq> 0" | "a \<noteq> 0" "n = 0" | "a \<noteq> 0" "n \<noteq> 0" "u = 0" | "a \<noteq> 0" "n \<noteq> 0" "u \<noteq> 0"
    using al by (cases "n = 0") auto
  then show ?thesis
  proof cases
    case 1
    with al have n: "unat n \<le> 2 ^ 29" "small_list w1" by (simp_all add: small_list_def oF)
    from b 1 have "duma_allocate pf 0 n (PROTECT_BELOW w1) (FILL w1) False EFA_REALLOC DUMA_FAIL_ENV pos w1 = Inr (u, w3)"
      by (simp add: realloc_body_def)
    note M = malloc_step [OF r1 1(2) n _ this, simplified]
    have "heap_step fb na (heap_of w1) (Realloc 0 n) (Pointer u) (heap_of w3)"
    proof (cases "u = 0")
      case False
      from M(4) [OF this] M(3) [OF this] show ?thesis by (auto intro!: heap_step.realloc_null)
    qed (use M(2) 1(2) heap_step.realloc_fails in simp)
    then show ?thesis using finish [OF M(1)] O(2) 1(1) by simp
  next
    case 2
    then have d: "duma_deallocate pf a False EFA_REALLOC pos w1 = Inr w3" "u = 0"
      using b by (auto simp: realloc_body_def and_then_Inr_iff)
    show ?thesis
    proof (cases "a = na")
      case True
      with d(1) 2(1) na1 have "w3 = w1"
        using allocList_nonzero [OF O(1)] by (simp add: duma_deallocate_def)
      with finish r1 O(2) True 2(2) d(2) show ?thesis by (simp add: heap_step.realloc_reserved)
    next
      case False
      have "a \<noteq> null_addr w1" "alloc_type EFA_REALLOC \<noteq> DUMAAT_INTERNAL" using False na1 by simp_all
      note D = deallocate_simulated [OF O(1) 2(1) this d(1)]
      from D(2,3) have "heap_step fb na (heap_of w1) (Realloc a 0) (Pointer 0) (heap_of w3)"
        using heap_step.realloc_frees by auto
      then show ?thesis using finish ready_config [OF r1 D(1) config_deallocate [OF d(1)]] O(2) 2(2) d(2) by simp
    qed
  next
    case 3
    from al 3(1,2) have n: "unat n \<le> 2 ^ 29" "small_list w1" by (simp_all add: small_list_def oF)
    from b 3 have d: "duma_allocate pf 0 n (PROTECT_BELOW w1) (- 1) False EFA_REALLOC DUMA_FAIL_ENV pos w1 = Inr (0, w3)"
      by (auto simp: realloc_body_def and_then_Inr_iff split: if_splits)
    note S = allocate_simulated [OF os O(1) n(2) ready_request [OF r1 3(2) n(1)] d, simplified]
    show ?thesis
      using finish ready_config [OF r1 S(1) duma_allocate_config(1) [OF d]] S(2) O(2) 3 heap_step.realloc_fails by simp
  next
    case 4
    from al 4(1,2) obtain i where i: "i < length (slots w)" "live (slots w ! i)" "userAddress (slots w ! i) = a"
      and n: "unat n \<le> 2 ^ 29" "small_list w" "a \<noteq> null_addr w" by (auto simp: is_block_def list_ex_iff in_set_conv_nth)
    have "request_ok pf (effective_alignment 0 n w) n (PROTECT_BELOW w) EFA_REALLOC w"
      by (rule ready_request [OF r 4(2) n(1)]) simp
    note M = realloc_moves [OF os hk n(2) this i 4(1) n(3) 4(2) e 4(3)]
    have "heap_of w a = Some (contents w (slots w ! i))" using heap_of_live [OF hk i(1,2)] i(3) by simp
    from heap_step.realloc [OF this 4(2) M(3)] M(4) show ?thesis using ready_config [OF r M(1,2)] by simp
  qed
qed

lemma exec_simulated:
  assumes r: "ready pf fb na w" and ok: "allowed c w" and e: "exec pf c w = Inr (res, w')"
  shows "ready pf fb na w' \<and> heap_step fb na (heap_of w) c res (heap_of w')"
proof -
  from r have os: "os_ok pf" and hk: "heap_ok pf w" and fb: "fill_of w = fb" and na: "null_addr w = na"
    by (simp_all add: ready_def)
  have al: "allocList w \<noteq> 0" by (rule allocList_nonzero [OF hk])
  show ?thesis
  proof (cases c)
    case (Malloc n)
    with ok have n: "n \<noteq> 0" "unat n \<le> 2 ^ 29" "small_list w" by simp_all
    from e Malloc al obtain u where u: "res = Pointer u"
      and a: "duma_allocate pf 0 n (PROTECT_BELOW w) (FILL w) True EFA_MALLOC DUMA_FAIL_ENV unknown_pos w = Inr (u, w')"
      by (auto simp: glob_malloc_def duma_malloc_def malloc_with_def ensure_init_def and_then_Inr_iff)
    note M = malloc_step [OF r n _ a, simplified]
    have "heap_step fb na (heap_of w) (Malloc n) (Pointer u) (heap_of w')"
    proof (cases "u = 0")
      case False
      from M(4) [OF this] M(3) [OF this] show ?thesis by (auto intro!: heap_step.malloc)
    qed (use M(2) heap_step.malloc_fails in simp)
    then show ?thesis using M(1) Malloc u by simp
  next
    case (Calloc n m)
    with ok have n: "0 < unat n * unat m" "unat n * unat m \<le> 2 ^ 29" "small_list w" by simp_all
    have nm: "unat (n * m) = unat n * unat m" using n(2) by (simp add: unat_word_ariths(2) mod_less)
    with n(1) have nz: "n * m \<noteq> 0" "unat (n * m) \<le> 2 ^ 29" using n(2) by auto
    from e Calloc al obtain u where u: "res = Pointer u"
      and a: "duma_allocate pf 0 (n * m) (PROTECT_BELOW w) 0 True EFA_CALLOC DUMA_FAIL_ENV unknown_pos w = Inr (u, w')"
      by (auto simp: glob_calloc_def duma_calloc_def calloc_with_def ensure_init_def and_then_Inr_iff)
    note S = allocate_simulated [OF os hk n(3) ready_request [OF r nz] a, simplified]
    have "heap_step fb na (heap_of w) (Calloc n m) (Pointer u) (heap_of w')"
    proof (cases "u = 0")
      case False
      with S(4) have "heap_of w' = (heap_of w)(u \<mapsto> replicate (unat n * unat m) 0)" by (auto simp: nm)
      then show ?thesis using heap_step.calloc S(3) [OF False] by (simp add: nm)
    qed (use S(2) heap_step.calloc_fails in simp)
    then show ?thesis
      using ready_config [OF r S(1) duma_allocate_config(1) [OF a]] Calloc u by simp
  next
    case (Realloc a n)
    from e Realloc obtain u where "res = Pointer u" "realloc_with (duma_ctor pf) pf a n unknown_pos w = Inr (u, w')"
      by (auto simp: glob_realloc_def duma_realloc_def and_then_Inr_iff)
    with realloc_simulated [OF r _ this(2)] ok Realloc show ?thesis by simp
  next
    case (Free a)
    from e Free al have f: "res = Done" "duma_deallocate pf a True EFA_FREE unknown_pos w = Inr w'"
      by (auto simp: glob_free_def duma_free_def free_with_def ensure_init_def and_then_Inr_iff)
    show ?thesis
    proof (cases "a = 0 \<or> a = na")
      case True
      with f(2) al na have "w' = w" by (auto simp: duma_deallocate_def)
      with True r f(1) Free show ?thesis by (simp add: heap_step.free_null)
    next
      case False
      have "a \<noteq> 0" "a \<noteq> null_addr w" "alloc_type EFA_FREE \<noteq> DUMAAT_INTERNAL" using False na by simp_all
      note D = deallocate_simulated [OF hk this f(2)]
      from D(2,3) have "heap_step fb na (heap_of w) c res (heap_of w')" using heap_step.free Free f(1) by auto
      then show ?thesis using ready_config [OF r D(1) config_deallocate [OF f(2)]] by simp
    qed
  next
    case (Read x)
    with ok have "owns w x" by simp
    from owns_byte [OF hk this] obtain a k b where b: "byte_of (heap_of w) x a k b" by blast
    with byte_of_access(1) [OF hk b] e Read r show ?thesis by (auto intro: heap_step.read)
  next
    case (Write x v)
    with ok have "owns w x" by simp
    from owns_byte [OF hk this] obtain a k b where b: "byte_of (heap_of w) x a k b" by blast
    from e Write have s: "store pf x v w = Inr w'" "res = Done" by (auto simp: and_then_Inr_iff)
    note S = store_simulated [OF hk b s(1)]
    show ?thesis
      using ready_config [OF r S(1,3)] heap_step.write_byte [OF b] Write s(2) by (simp add: S(2))
  qed
qed

interpretation lib: heap_simulation "exec pf" allowed heap_of "ready pf"
  by unfold_locales (rule exec_simulated)

text \<open>C1: Whatever a program does with \<open>malloc\<close>, \<open>calloc\<close>, \<open>realloc\<close>, \<open>free\<close> and its own blocks, as long as the library
  does not stop it, each result is one the abstract heap allows: new blocks lie apart from all
  others and hold the fill byte or null bytes, a byte reads as what was last written to it, and
  only blocks are freed.  At the end the bytes of every block can be read, and freeing anything
  else stops the program.\<close>

theorem client_refines_heap:
  assumes "ready pf fb na w" and "allowed_all (exec pf) allowed cs w" and "exec_all (exec pf) cs w = Inr (rs, w')"
  shows "heap_run fb na (heap_of w) cs rs (heap_of w') \<and> heap_ok pf w' \<and>
    (\<forall>x a k c. byte_of (heap_of w') x a k c \<longrightarrow> exec pf (Read x) w' = Inr (Value (c ! k), w')) \<and>
    (\<forall>a. heap_of w' a = None \<and> a \<noteq> 0 \<and> a \<noteq> na \<longrightarrow> (\<exists>e. exec pf (Free a) w' = Inl e))"
proof -
  from lib.run_simulated [OF assms] have s: "ready pf fb na w'" "heap_run fb na (heap_of w) cs rs (heap_of w')" by simp_all
  then have ok: "heap_ok pf w'" by (simp add: ready_def)
  have "exec pf (Read x) w' = Inr (Value (c ! k), w')" if "byte_of (heap_of w') x a k c" for x a k c
    using byte_of_access(1) [OF ok that] by simp
  moreover have "\<exists>e. exec pf (Free a) w' = Inl e" if "heap_of w' a = None" "a \<noteq> 0" "a \<noteq> na" for a
    by (rule lib.free_of_unknown_stops [OF s(1) _ that]) simp
  ultimately show ?thesis using s(2) ok by blast
qed

text \<open>A program that runs through on the small platform.\<close>

definition sample_prog :: "cmd list" where
  "sample_prog = [Malloc 4096, Write 0x10010005 7, Read 0x10010005, Free 0]"

lemma sample_ready: "ready sample_pf None 0 (sample_world NoAccess)"
  using sample_os_ok sample_heap_ok [of NoAccess] sample_pow2(1)
  by (simp add: ready_def default_alignment_ok_def fill_of_def sample_world_def initial_world_def)

lemma byte_of_owns: "heap_ok pf w \<Longrightarrow> byte_of (heap_of w) x a k c \<Longrightarrow> owns w x"
  by (auto simp: byte_of_heap owns_def list_ex_iff intro!: bexI [OF _ nth_mem])

lemma sample_glob_malloc: "\<exists>w1. glob_malloc sample_pf 4096 (sample_world NoAccess) = Inr (0x10010000, w1)"
  by (simp add: glob_malloc_def duma_malloc_def duma_defs Let_def upt_conv_Cons check_while_empty fill_while_empty)

lemma sample_prog_runs:
  "\<exists>w'. exec_all (exec sample_pf) sample_prog (sample_world NoAccess) = Inr ([Pointer 0x10010000, Done, Value 7, Done], w') \<and>
     allowed_all (exec sample_pf) allowed sample_prog (sample_world NoAccess)"
proof -
  let ?w = "sample_world NoAccess"
  obtain w1 where "glob_malloc sample_pf 4096 ?w = Inr (0x10010000, w1)" using sample_glob_malloc by blast
  then have m: "exec sample_pf (Malloc 4096) ?w = Inr (Pointer 0x10010000, w1)" by simp
  have am: "allowed (Malloc 4096) ?w" using sample_small_list by simp
  from exec_simulated [OF sample_ready am m] have r1: "ready sample_pf None 0 w1"
    and "heap_step None 0 (heap_of ?w) (Malloc 4096) (Pointer 0x10010000) (heap_of w1)" by simp_all
  then obtain c where "heap_of w1 0x10010000 = Some c" "length c = 4096" by (auto elim: heap_step.cases)
  then have b: "byte_of (heap_of w1) 0x10010005 0x10010000 5 c" by (simp add: byte_of_def)
  have ok1: "heap_ok sample_pf w1" using r1 by (simp add: ready_def)
  obtain w2 where s: "store sample_pf 0x10010005 7 w1 = Inr w2" using byte_of_access(2) [OF ok1 b] by blast
  note S = store_simulated [OF ok1 b s]
  have b2: "byte_of (heap_of w2) 0x10010005 0x10010000 5 (c[5 := 7])" using b by (simp add: S(2) byte_of_def)
  have "load sample_pf 0x10010005 w2 = Inr 7" using byte_of_access(1) [OF S(1) b2] b by (simp add: byte_of_def)
  moreover have "allocList w2 \<noteq> 0" by (rule allocList_nonzero [OF S(1)])
  moreover have "owns w1 0x10010005" "owns w2 0x10010005" using byte_of_owns ok1 S(1) b b2 by blast+
  ultimately show ?thesis
    using m am s by (simp add: sample_prog_def glob_free_def duma_free_def free_with_def ensure_init_def duma_deallocate_def)
qed

theorem client_refines_heap_witness:
  "\<exists>w'. exec_all (exec sample_pf) sample_prog (sample_world NoAccess) = Inr ([Pointer 0x10010000, Done, Value 7, Done], w') \<and>
     heap_run None 0 (heap_of (sample_world NoAccess)) sample_prog [Pointer 0x10010000, Done, Value 7, Done] (heap_of w')"
proof -
  obtain w' where w': "exec_all (exec sample_pf) sample_prog (sample_world NoAccess) = Inr ([Pointer 0x10010000, Done, Value 7, Done], w')"
    "allowed_all (exec sample_pf) allowed sample_prog (sample_world NoAccess)" using sample_prog_runs by blast
  from client_refines_heap [OF sample_ready w'(2,1)] w'(1) show ?thesis by blast
qed

end
