(* ===== verification/Duma_New.thy ===== *)
theory Duma_New
  imports Duma_Client
begin

text \<open>
  \<open>dumapp.cpp\<close>: the C++ operators \<open>new\<close> and \<open>delete\<close>, and the macro \<open>delete\<close> of \<open>dumapp.h\<close> that
  remembers where a deletion was written.

  The new handler belongs to the program: \<open>gh\<close> gives the handler that is installed in a state, and
  a handler either returns or throws \<open>bad_alloc\<close>.  As it may return for ever without having freed
  any memory, the loop is a partial function.
\<close>

section \<open>\<open>new\<close>\<close>

datatype new_result = New_ptr u64 | New_null | Bad_alloc

type_synonym new_handler = "world \<Rightarrow> stop + bool \<times> world"

definition unknown_cxx_pos :: src_pos where
  "unknown_cxx_pos = (Some (''UNKNOWN (use #include '' @ [CHR 0x22] @ ''dumapp.h'' @ [CHR 0x22] @ '')''), 0)"

text \<open>One turn of the loop; \<open>None\<close> goes on.\<close>

definition new_turn ::
  "platform \<Rightarrow> (world \<Rightarrow> new_handler option) \<Rightarrow> u64 \<Rightarrow> DUMA_Allocator \<Rightarrow> bool \<Rightarrow> src_pos \<Rightarrow> world \<Rightarrow>
   stop + new_result option \<times> world" where
  "new_turn pf gh usz alloc dothrow pos w =
     and_then (duma_allocate pf 0 usz (PROTECT_BELOW w) (FILL w) True alloc DUMA_FAIL_NULL pos w) (\<lambda>(ret, w).
       let give_up = Some (if dothrow then Bad_alloc else New_null) in
       if ret \<noteq> 0 then Inr (Some (New_ptr ret), w)
       else case gh w of
           None \<Rightarrow> Inr (give_up, w)
         | Some h \<Rightarrow> and_then (h w) (\<lambda>(thrown, w). Inr (if thrown then give_up else None, w)))"

partial_function (option) until :: "('m \<Rightarrow> 'e + 'r option \<times> 'm) \<Rightarrow> 'm \<Rightarrow> ('e + 'r \<times> 'm) option" where
  "until turn w =
     (case turn w of
        Inl e \<Rightarrow> Some (Inl e)
      | Inr p \<Rightarrow> (case fst p of Some r \<Rightarrow> Some (Inr (r, snd p)) | None \<Rightarrow> until turn (snd p)))"

definition duma_new_operator ::
  "(world \<Rightarrow> stop + world) \<Rightarrow> platform \<Rightarrow> (world \<Rightarrow> new_handler option) \<Rightarrow> u64 \<Rightarrow> DUMA_Allocator \<Rightarrow> bool \<Rightarrow> src_pos \<Rightarrow>
   world \<Rightarrow> (stop + new_result \<times> world) option" where
  "duma_new_operator init pf gh usz alloc dothrow pos w =
     (case ensure_init init w of
        Inl e \<Rightarrow> Some (Inl e)
      | Inr w \<Rightarrow> until (new_turn pf gh usz alloc dothrow pos) w)"

text \<open>The operators, in the order of the file: elements and arrays, throwing or not, without and with the
  position in the source.\<close>

definition op_new_at where "op_new_at pf gh sz pos = duma_new_operator (duma_ctor pf) pf gh sz EFA_NEW_ELEM True pos"
definition op_new_nothrow_at where "op_new_nothrow_at pf gh sz pos = duma_new_operator (duma_ctor pf) pf gh sz EFA_NEW_ELEM False pos"
definition op_new_array_at where "op_new_array_at pf gh sz pos = duma_new_operator (duma_ctor pf) pf gh sz EFA_NEW_ARRAY True pos"
definition op_new_array_nothrow_at where "op_new_array_nothrow_at pf gh sz pos = duma_new_operator (duma_ctor pf) pf gh sz EFA_NEW_ARRAY False pos"

definition op_new where "op_new pf gh sz = duma_new_operator (duma_ctor pf) pf gh sz EFA_NEW_ELEM True unknown_cxx_pos"
definition op_new_nothrow where "op_new_nothrow pf gh sz = duma_new_operator (duma_ctor pf) pf gh sz EFA_NEW_ELEM False unknown_cxx_pos"
definition op_new_array where "op_new_array pf gh sz = duma_new_operator (duma_ctor pf) pf gh sz EFA_NEW_ARRAY True unknown_cxx_pos"
definition op_new_array_nothrow where "op_new_array_nothrow pf gh sz = duma_new_operator (duma_ctor pf) pf gh sz EFA_NEW_ARRAY False unknown_cxx_pos"

section \<open>\<open>delete\<close>\<close>

text \<open>The thread-local stack of the positions of running deletions.\<close>

definition DUMA_MAX_DEL_DEPTH :: nat where "DUMA_MAX_DEL_DEPTH = 256"

record del_vars =
  Magic :: int
  DelPtr :: int
  DelFile :: "string option list"
  DelLine :: "int list"

definition del_pos :: "del_vars \<Rightarrow> src_pos" where
  "del_pos d = (DelFile d ! nat (DelPtr d), DelLine d ! nat (DelPtr d))"

type_synonym cpp = "world \<times> del_vars"

definition op_delete_as :: "platform \<Rightarrow> DUMA_Allocator \<Rightarrow> src_pos \<Rightarrow> u64 \<Rightarrow> cpp \<Rightarrow> stop + cpp" where
  "op_delete_as pf alloc pos ptr = (\<lambda>(w, d). and_then (duma_deallocate pf ptr True alloc pos w) (\<lambda>w. Inr (w, d)))"

definition op_delete where "op_delete pf ptr = (\<lambda>(w, d). op_delete_as pf EFA_DEL_ELEM (del_pos d) ptr (w, d))"
definition op_delete_nothrow where "op_delete_nothrow pf ptr = (\<lambda>(w, d). op_delete_as pf EFA_DEL_ELEM (del_pos d) ptr (w, d))"
definition op_delete_array where "op_delete_array pf ptr = (\<lambda>(w, d). op_delete_as pf EFA_DEL_ARRAY (del_pos d) ptr (w, d))"
definition op_delete_array_nothrow where "op_delete_array_nothrow pf ptr = (\<lambda>(w, d). op_delete_as pf EFA_DEL_ARRAY (del_pos d) ptr (w, d))"
definition op_delete_at where "op_delete_at pf pos ptr = op_delete_as pf EFA_DEL_ELEM pos ptr"
definition op_delete_nothrow_at where "op_delete_nothrow_at pf pos ptr = op_delete_as pf EFA_DEL_ELEM pos ptr"
definition op_delete_array_at where "op_delete_array_at pf pos ptr = op_delete_as pf EFA_DEL_ARRAY pos ptr"
definition op_delete_array_nothrow_at where "op_delete_array_nothrow_at pf pos ptr = op_delete_as pf EFA_DEL_ARRAY pos ptr"

text \<open>The macro \<open>delete\<close>: a \<open>for\<close> statement around the deletion.  It takes the semaphore twice and
  releases it in each of the two tests of its condition, the first of which gives \<open>Magic = 1\<close> and the
  second, after the body, \<open>0\<close>.\<close>

definition delete_stmt :: "platform \<Rightarrow> src_pos \<Rightarrow> (cpp \<Rightarrow> stop + cpp) \<Rightarrow> cpp \<Rightarrow> stop + cpp" where
  "delete_stmt pf pos body = (\<lambda>(w, d).
     and_then (DUMA_get_sem pf w) (\<lambda>w. and_then (DUMA_get_sem pf w) (\<lambda>w.
     let d = d\<lparr>DelPtr := DelPtr d + 1\<rparr> in
     if \<not> DelPtr d < int DUMA_MAX_DEL_DEPTH then Inl (Assert_failed ''_duma_g.TLS.DelPtr < DUMA_MAX_DEL_DEPTH'') else
     let d = d\<lparr>Magic := 1, DelFile := (DelFile d)[nat (DelPtr d) := fst pos], DelLine := (DelLine d)[nat (DelPtr d) := snd pos]\<rparr> in
     and_then (DUMA_rel_sem w) (\<lambda>w.
     and_then (body (w, d)) (\<lambda>(w, d).
     let d = d\<lparr>Magic := 0, DelPtr := DelPtr d - 1\<rparr> in
     and_then (DUMA_rel_sem w) (\<lambda>w. Inr (w, d)))))))"

text \<open>\<open>delete p\<close> of an object: its destructor runs, then the operator; a null pointer has no effect.\<close>

definition delete_object :: "platform \<Rightarrow> src_pos \<Rightarrow> (cpp \<Rightarrow> stop + cpp) \<Rightarrow> u64 \<Rightarrow> cpp \<Rightarrow> stop + cpp" where
  "delete_object pf pos dtor ptr =
     delete_stmt pf pos (\<lambda>s. if ptr = 0 then Inr s else and_then (dtor s) (op_delete pf ptr))"

section \<open>Running a loop until it gives a result\<close>

lemma until_invariant:
  fixes turn :: "'m \<Rightarrow> 'e + 'r option \<times> 'm"
  assumes "until turn w = Some (Inr (r, w'))" and "P w"
    and "\<And>v x v'. P v \<Longrightarrow> turn v = Inr (x, v') \<Longrightarrow> (case x of None \<Rightarrow> P v' | Some r \<Rightarrow> Q r v')"
  shows "Q r w'"
proof -
  define R where "R t v y \<longleftrightarrow> (t = turn \<longrightarrow> P v \<longrightarrow> (\<forall>r w'. y = Inr (r, w') \<longrightarrow> Q r w'))"
    for t :: "'m \<Rightarrow> 'e + 'r option \<times> 'm" and v and y :: "'e + 'r \<times> 'm"
  have "R turn w (Inr (r, w'))"
  proof (rule until.raw_induct [OF _ assms(1)])
    fix un t v y
    assume IH: "\<And>t v y. un t v = Some y \<Longrightarrow> R t v y"
      and st: "(case t v of Inl e \<Rightarrow> Some (Inl e)
        | Inr p \<Rightarrow> (case fst p of None \<Rightarrow> un t (snd p) | Some r \<Rightarrow> Some (Inr (r, snd p)))) = Some y"
    show "R t v y"
      unfolding R_def
    proof (intro impI allI)
      fix r w' assume t: "t = turn" and P: "P v" and y: "y = Inr (r, w')"
      from st y obtain x v' where x: "t v = Inr (x, v')" by (cases "t v") auto
      note K = assms(3) [OF P x [unfolded t]]
      show "Q r w'"
      proof (cases x)
        case None
        with st x have "un t v' = Some y" by simp
        from IH [OF this] t K None y show ?thesis by (simp add: R_def)
      next
        case (Some r')
        with st x y K show ?thesis by simp
      qed
    qed
  qed
  with assms(2) show ?thesis by (simp add: R_def)
qed

text \<open>A loop whose turns always decide ends.\<close>

lemma until_decided:
  assumes "\<And>v'. turn w \<noteq> Inr (None, v')"
  shows "\<exists>y. until turn w = Some y"
proof (cases "turn w")
  case (Inr p)
  with assms obtain r v' where "turn w = Inr (Some r, v')" by (cases p; cases "fst p") auto
  then show ?thesis by (subst until.simps) simp
qed (subst until.simps, simp)

section \<open>What \<open>new\<close> returns\<close>

definition new_ready :: "platform \<Rightarrow> world \<Rightarrow> bool" where
  "new_ready pf w \<longleftrightarrow> os_ok pf \<and> heap_ok pf w \<and> small_list w \<and> default_alignment_ok pf w"

text \<open>A block of \<open>usz\<close> bytes that belongs to the allocator \<open>alloc\<close>, and to it alone.\<close>

definition typed_block :: "platform \<Rightarrow> world \<Rightarrow> u64 \<Rightarrow> u64 \<Rightarrow> DUMA_Allocator \<Rightarrow> bool" where
  "typed_block pf w u usz alloc \<longleftrightarrow>
     (\<exists>i < length (slots w). live (slots w ! i) \<and> userAddress (slots w ! i) = u \<and> userSize (slots w ! i) = usz \<and>
        allocator (slots w ! i) = alloc) \<and>
     (\<forall>x. unat u \<le> unat x \<and> unat x < unat u + unat usz \<longrightarrow> perm_at pf w x = ReadWrite)"

lemma typed_block_mismatch:
  assumes ok: "heap_ok pf w" and b: "typed_block pf w u usz alloc" and u: "u \<noteq> null_addr w"
    and d: "alloc_type d \<noteq> DUMAAT_INTERNAL" "alloc_type d \<noteq> alloc_type alloc"
  shows "\<exists>e. duma_deallocate pf u True d pos w = Inl e"
proof (cases "duma_deallocate pf u True d pos w")
  case (Inr w')
  from b obtain i where i: "i < length (slots w)" "live (slots w ! i)" "userAddress (slots w ! i) = u"
    "allocator (slots w ! i) = alloc" by (auto simp: typed_block_def)
  have u0: "u \<noteq> 0" using live_address_nonzero [OF ok i(1,2)] i(3) by simp
  from duma_deallocate_ok [OF ok u0 u d(1) Inr] obtain j where j: "j < length (slots w)" "userAddress (slots w ! j) = u"
    "alloc_type (allocator (slots w ! j)) = alloc_type d" by metis
  from user_address_unique [OF ok i(1-3) u0 j(1,2)] j(3) i(4) d(2) show ?thesis by simp
qed simp

lemma new_turn_ok:
  assumes r: "new_ready pf w" and n: "usz \<noteq> 0" "unat usz \<le> 2 ^ 29" and al: "alloc \<noteq> EFA_INT_ALLOC"
    and h: "\<And>v h t v'. gh v = Some h \<Longrightarrow> heap_ok pf v \<Longrightarrow> h v = Inr (t, v') \<Longrightarrow> new_ready pf v'"
    and t: "new_turn pf gh usz alloc dothrow pos w = Inr (x, w')"
  shows "case x of None \<Rightarrow> new_ready pf w'
    | Some r \<Rightarrow> heap_ok pf w' \<and> (case r of New_ptr u \<Rightarrow> u \<noteq> 0 \<and> typed_block pf w' u usz alloc
        | New_null \<Rightarrow> \<not> dothrow | Bad_alloc \<Rightarrow> dothrow)"
proof -
  have rq: "request_ok pf (effective_alignment 0 usz w) usz (PROTECT_BELOW w) alloc w"
    using r n al by (intro default_request_ok) (simp_all add: new_ready_def default_alignment_ok_def heap_ok_def)
  from t obtain u w1 where a: "duma_allocate pf 0 usz (PROTECT_BELOW w) (FILL w) True alloc DUMA_FAIL_NULL pos w = Inr (u, w1)"
    and k: "(if u \<noteq> 0 then Inr (Some (New_ptr u), w1)
      else case gh w1 of None \<Rightarrow> Inr (Some (if dothrow then Bad_alloc else New_null), w1)
        | Some h \<Rightarrow> and_then (h w1) (\<lambda>(thrown, w). Inr (if thrown then Some (if dothrow then Bad_alloc else New_null) else None, w))) =
      Inr (x, w')" by (auto simp: new_turn_def and_then_Inr_iff Let_def)
  from r have os: "os_ok pf" "heap_ok pf w" "small_list w" by (simp_all add: new_ready_def)
  from duma_allocate_allocated [OF os rq a] obtain f
    where al': "allocated pf (effective_alignment 0 usz w) usz (PROTECT_BELOW w) (FILL w) alloc pos f u w w1" ..
  then have ok1: "heap_ok pf w1" by (simp add: allocated_def)
  show ?thesis
  proof (cases "u = 0")
    case False
    note F = allocated_facts [OF al' False al]
    have "typed_block pf w1 u usz alloc"
      using F(1,4,6-8) allocated_accessible [OF al' False al] unfolding typed_block_def by blast
    with k False ok1 show ?thesis by auto
  next
    case True
    show ?thesis
    proof (cases "gh w1")
      case None
      with k True ok1 show ?thesis by auto
    next
      case (Some h')
      with k True obtain th where "h' w1 = Inr (th, w')" and x: "x = (if th then Some (if dothrow then Bad_alloc else New_null) else None)"
        by (auto simp: and_then_Inr_iff)
      from h [OF Some ok1 this(1)] x show ?thesis by (auto simp: new_ready_def)
    qed
  qed
qed

lemma new_operator_ok:
  assumes r: "new_ready pf w" and n: "usz \<noteq> 0" "unat usz \<le> 2 ^ 29" and al: "alloc \<noteq> EFA_INT_ALLOC"
    and h: "\<And>v h t v'. gh v = Some h \<Longrightarrow> heap_ok pf v \<Longrightarrow> h v = Inr (t, v') \<Longrightarrow> new_ready pf v'"
    and nw: "duma_new_operator init pf gh usz alloc dothrow pos w = Some (Inr (x, w'))"
  shows "heap_ok pf w' \<and> (case x of New_ptr u \<Rightarrow> u \<noteq> 0 \<and> typed_block pf w' u usz alloc
    | New_null \<Rightarrow> \<not> dothrow | Bad_alloc \<Rightarrow> dothrow)"
proof -
  have "allocList w \<noteq> 0" using r allocList_nonzero by (auto simp: new_ready_def)
  with nw have "until (new_turn pf gh usz alloc dothrow pos) w = Some (Inr (x, w'))"
    by (simp add: duma_new_operator_def ensure_init_def)
  then show ?thesis
    by (rule until_invariant [where P = "new_ready pf", OF _ r]) (rule new_turn_ok [OF _ n al h])
qed


lemma sample_new:
  "\<exists>w'. duma_allocate sample_pf 0 4096 False (- 1) True EFA_NEW_ELEM DUMA_FAIL_NULL pos (sample_world NoAccess) = Inr (0x10010000, w')"
  by (simp add: duma_defs Let_def upt_conv_Cons check_while_empty fill_while_empty)


section \<open>The macro \<open>delete\<close>\<close>

definition del_ok :: "del_vars \<Rightarrow> bool" where
  "del_ok d \<longleftrightarrow> 0 \<le> DelPtr d \<and> DelPtr d < int DUMA_MAX_DEL_DEPTH \<and>
     length (DelFile d) = DUMA_MAX_DEL_DEPTH \<and> length (DelLine d) = DUMA_MAX_DEL_DEPTH"

text \<open>The stack of positions up to the top is the same.\<close>

definition same_stack :: "del_vars \<Rightarrow> del_vars \<Rightarrow> bool" where
  "same_stack d d' \<longleftrightarrow> DelPtr d' = DelPtr d \<and>
     (\<forall>k \<le> nat (DelPtr d). DelFile d' ! k = DelFile d ! k \<and> DelLine d' ! k = DelLine d ! k)"

definition balanced :: "platform \<Rightarrow> (cpp \<Rightarrow> stop + cpp) \<Rightarrow> bool" where
  "balanced pf body \<longleftrightarrow> (\<forall>w d w' d'.
     sem_inv pf (sem_view w) \<and> heap_ok pf w \<and> del_ok d \<and> body (w, d) = Inr (w', d') \<longrightarrow>
       sem_view w' = sem_view w \<and> heap_ok pf w' \<and> del_ok d' \<and> same_stack d d')"

lemma balancedD:
  assumes "balanced pf body" and "sem_inv pf (sem_view w)" and "heap_ok pf w" and "del_ok d" and "body (w, d) = Inr (w', d')"
  shows "sem_view w' = sem_view w" "heap_ok pf w'" "del_ok d'" "same_stack d d'"
  using assms unfolding balanced_def by blast+

lemma same_stack_pos: "same_stack d d' \<Longrightarrow> del_pos d' = del_pos d"
  by (simp add: same_stack_def del_pos_def)

lemma same_stack_trans: "same_stack d d1 \<Longrightarrow> same_stack d1 d2 \<Longrightarrow> same_stack d d2"
  by (simp add: same_stack_def)

lemma balanced_op_delete: "balanced pf (op_delete pf ptr)"
  unfolding balanced_def
proof (intro allI impI)
  fix w d w' d'
  assume a: "sem_inv pf (sem_view w) \<and> heap_ok pf w \<and> del_ok d \<and> op_delete pf ptr (w, d) = Inr (w', d')"
  then have f: "duma_deallocate pf ptr True EFA_DEL_ELEM (del_pos d) w = Inr w'" and d: "d' = d"
    by (auto simp: op_delete_def op_delete_as_def and_then_Inr_iff)
  have i: "alloc_type EFA_DEL_ELEM \<noteq> DUMAAT_INTERNAL" by simp
  have "heap_ok pf w'"
  proof (cases "ptr = 0 \<or> ptr = null_addr w")
    case True
    with f a show ?thesis by (auto simp: duma_deallocate_def split: if_splits)
  next
    case False
    with deallocate_simulated(1) [OF _ _ _ i f] a show ?thesis by blast
  qed
  with deallocate_sem_view [OF _ _ f i] a d
  show "sem_view w' = sem_view w \<and> heap_ok pf w' \<and> del_ok d' \<and> same_stack d d'" by (simp add: same_stack_def)
qed

lemma balanced_then:
  assumes "balanced pf f" and "balanced pf g"
  shows "balanced pf (\<lambda>s. and_then (f s) g)"
  unfolding balanced_def
proof (intro allI impI)
  fix w d w' d'
  assume a: "sem_inv pf (sem_view w) \<and> heap_ok pf w \<and> del_ok d \<and> and_then (f (w, d)) g = Inr (w', d')"
  then obtain w1 d1 where f: "f (w, d) = Inr (w1, d1)" "g (w1, d1) = Inr (w', d')"
    by (auto simp: and_then_Inr_iff)
  note F = balancedD [OF assms(1) _ _ _ f(1)]
  note G = balancedD [OF assms(2) _ _ _ f(2)]
  from F a have "sem_view w1 = sem_view w" "heap_ok pf w1" "del_ok d1" "same_stack d d1" by blast+
  with G a same_stack_trans show "sem_view w' = sem_view w \<and> heap_ok pf w' \<and> del_ok d' \<and> same_stack d d'" by metis
qed

lemma balanced_return: "balanced pf Inr"
  by (simp add: balanced_def same_stack_def)

lemma sem_frame_heap:
  assumes "DUMA_get_sem pf w = Inr w' \<or> DUMA_rel_sem w = Inr w'"
  shows "heap_ok pf w' = heap_ok pf w"
  using assms
proof
  assume "DUMA_get_sem pf w = Inr w'"
  then show ?thesis by (rule DUMA_get_sem_frame) (intro heap_ok_cong, simp_all)
next
  assume "DUMA_rel_sem w = Inr w'"
  then show ?thesis by (rule DUMA_rel_sem_frame) (intro heap_ok_cong, simp_all)
qed

text \<open>The steps of the macro: inside the body the semaphore is held once and the top of the stack is the
  position of the statement.\<close>

lemma delete_stmt_steps:
  assumes st: "delete_stmt pf pos body (w, d) = Inr (w', d')" and inv: "sem_inv pf (sem_view w)"
    and ok: "heap_ok pf w" and d: "del_ok d"
  obtains w1 d1 w2 d2 where "body (w1, d1) = Inr (w2, d2)" "sem_inv pf (sem_view w1)" "mutex_owner w1 = Some (pthread_self pf)"
    "heap_ok pf w1" "del_ok d1" "del_pos d1 = pos" "DelPtr d1 = DelPtr d + 1"
    "\<And>k. k \<le> nat (DelPtr d) \<Longrightarrow> DelFile d1 ! k = DelFile d ! k \<and> DelLine d1 ! k = DelLine d ! k"
    "DUMA_rel_sem w2 = Inr w'" "d' = d2\<lparr>Magic := 0, DelPtr := DelPtr d2 - 1\<rparr>"
    "sem_view w2 = sem_view w1 \<Longrightarrow> sem_view w' = sem_view w"
proof -
  let ?d = "d\<lparr>DelPtr := DelPtr d + 1, Magic := 1, DelFile := (DelFile d)[nat (DelPtr d + 1) := fst pos],
    DelLine := (DelLine d)[nat (DelPtr d + 1) := snd pos]\<rparr>"
  from st obtain v1 v2 w1 w2 d2 where g: "DUMA_get_sem pf w = Inr v1" "DUMA_get_sem pf v1 = Inr v2"
    and lt: "DelPtr d + 1 < int DUMA_MAX_DEL_DEPTH" and r: "DUMA_rel_sem v2 = Inr w1"
    and b: "body (w1, ?d) = Inr (w2, d2)" and e: "DUMA_rel_sem w2 = Inr w'" "d' = d2\<lparr>Magic := 0, DelPtr := DelPtr d2 - 1\<rparr>"
    by (auto simp: delete_stmt_def and_then_Inr_iff Let_def split: if_splits)
  have i1: "sem_inv pf (sem_view v1)" by (rule get_sem_inv [OF inv g(1)])
  have s1: "sem_view w1 = sem_view v1" using rel_sem_undoes [OF i1 g(2) refl] r by auto
  have own: "mutex_owner w1 = Some (pthread_self pf)"
    using g(1) inv s1 by (auto simp: sem_defs sem_view_def split: if_splits)
  have ok1: "heap_ok pf w1" using sem_frame_heap g r ok by metis
  have "del_ok ?d" using d lt by (simp add: del_ok_def)
  moreover have "nat (DelPtr d + 1) < DUMA_MAX_DEL_DEPTH" using d lt by (simp add: del_ok_def nat_less_iff)
  then have "del_pos ?d = pos" using d by (simp add: del_ok_def del_pos_def)
  moreover have "sem_view w' = sem_view w" if "sem_view w2 = sem_view w1"
    using rel_sem_undoes [OF inv g(1), of w2] that s1 e(1) by auto
  moreover have "DelFile ?d ! k = DelFile d ! k \<and> DelLine ?d ! k = DelLine d ! k" if "k \<le> nat (DelPtr d)" for k
  proof -
    have "k \<noteq> nat (DelPtr d + 1)" using that d by (simp add: del_ok_def nat_add_distrib)
    then show ?thesis by simp
  qed
  ultimately show thesis using that [OF b] i1 s1 own ok1 e by simp
qed

lemma balanced_delete_stmt:
  assumes body: "balanced pf body"
  shows "balanced pf (delete_stmt pf pos body)"
  unfolding balanced_def
proof (intro allI impI)
  fix w d w' d'
  assume a: "sem_inv pf (sem_view w) \<and> heap_ok pf w \<and> del_ok d \<and> delete_stmt pf pos body (w, d) = Inr (w', d')"
  then have st: "delete_stmt pf pos body (w, d) = Inr (w', d')" and i: "sem_inv pf (sem_view w)" "heap_ok pf w" "del_ok d" by simp_all
  show "sem_view w' = sem_view w \<and> heap_ok pf w' \<and> del_ok d' \<and> same_stack d d'"
  proof (rule delete_stmt_steps [OF st i])
    fix w1 d1 w2 d2
    assume b: "body (w1, d1) = Inr (w2, d2)" and i1: "sem_inv pf (sem_view w1)" "heap_ok pf w1" "del_ok d1"
      and p: "DelPtr d1 = DelPtr d + 1" and k: "\<And>k. k \<le> nat (DelPtr d) \<Longrightarrow> DelFile d1 ! k = DelFile d ! k \<and> DelLine d1 ! k = DelLine d ! k"
      and e: "DUMA_rel_sem w2 = Inr w'" "d' = d2\<lparr>Magic := 0, DelPtr := DelPtr d2 - 1\<rparr>"
      and sv: "sem_view w2 = sem_view w1 \<Longrightarrow> sem_view w' = sem_view w"
    note B = balancedD [OF body i1 b]
    have p2: "DelPtr d2 = DelPtr d + 1" using B(4) p by (simp add: same_stack_def)
    have "heap_ok pf w'" using sem_frame_heap e(1) B(2) by metis
    moreover have "del_ok d'" using B(3) i(3) p2 by (simp add: del_ok_def e(2))
    moreover have "same_stack d d'"
      using B(4) p p2 k i(3) by (auto simp: same_stack_def e(2) del_ok_def)
    ultimately show ?thesis using sv B(1) by blast
  qed
qed

lemma balanced_delete_object: "balanced pf dtor \<Longrightarrow> balanced pf (delete_object pf pos dtor ptr)"
  using balanced_delete_stmt balanced_then [OF _ balanced_op_delete] balanced_return
  by (cases "ptr = 0") (simp_all add: delete_object_def)

lemma delete_object_nonnull:
  "ptr \<noteq> 0 \<Longrightarrow> delete_object pf pos dtor ptr = delete_stmt pf pos (\<lambda>s. and_then (dtor s) (op_delete pf ptr))"
  by (simp add: delete_object_def cong: if_cong)



end
