(* ===== verification/Duma_Leak.thy ===== *)
theory Duma_Leak
  imports Duma_Frame
begin

text \<open>
  The leak report of \<open>src/duma.c\<close>: \<open>DUMA_newFrame\<close>, \<open>DUMA_delFrame\<close> and \<open>_duma_exit\<close>.

  \<open>DUMA_delFrame\<close> reads the address of the slot array before it takes the semaphore; for one
  thread this is the address afterwards.  Its two \<open>int\<close> counters count slots, of which there
  are fewer than \<open>2 ^ 31\<close>.
\<close>

section \<open>Definitions\<close>

definition DUMA_newFrame :: "world \<Rightarrow> world" where
  "DUMA_newFrame w = w"

text \<open>The loop over the slots, with the counters \<open>nonFreedReported\<close> and \<open>nonFreedTotal\<close>.\<close>

fun report_leaks :: "DUMA_Slot list \<Rightarrow> int \<times> int \<Rightarrow> world \<Rightarrow> (int \<times> int) \<times> world" where
  "report_leaks [] (reported, totalNr) w = ((reported, totalNr), w)"
| "report_leaks (s # ss) (reported, totalNr) w =
     (if state s = DUMAST_IN_USE \<and> allocator s \<noteq> EFA_INT_ALLOC then
        if REPORT_ALL_LEAKS w \<or> lineno s > 0
        then report_leaks ss (reported + 1, totalNr + 1)
               (DUMA_Print (Leak_report (userAddress s) (userSize s) (allocator s) (slot_pos s)) w)
        else report_leaks ss (reported, totalNr + 1) w
      else report_leaks ss (reported, totalNr) w)"

definition leak_summary :: "int \<Rightarrow> int \<Rightarrow> world \<Rightarrow> world" where
  "leak_summary reported totalNr w =
     (let iExtraLeaks = totalNr - reported in
      if reported \<noteq> 0 then DUMA_Print (Leak_summary reported iExtraLeaks) w
      else if reported < totalNr then DUMA_Print (Leak_summary reported iExtraLeaks) w
      else w)"

definition DUMA_delFrame :: "platform \<Rightarrow> world \<Rightarrow> stop + world" where
  "DUMA_delFrame pf w =
     and_then (open_list pf True w) (\<lambda>w.
     and_then (if slots w = [] then Inr w else touch_list pf w) (\<lambda>w.
     case report_leaks (slots w) (0, 0) w of ((reported, totalNr), w) \<Rightarrow>
     let w = leak_summary reported totalNr w in
     and_then (close_list pf True w) (\<lambda>w.
     Inr (if SHOW_ALLOC w then DUMA_Print (Show_counts (numAllocs w) (numDeallocs w)) w else w))))"

definition duma_exit :: "platform \<Rightarrow> world \<Rightarrow> stop + world" where
  "duma_exit pf w = DUMA_delFrame pf w"

declare
  leak_summary_def [duma_defs]
  DUMA_delFrame_def [duma_defs]
  duma_exit_def [duma_defs]

section \<open>What is reported\<close>

definition leaks :: "world \<Rightarrow> DUMA_Slot list" where
  "leaks w = filter live (slots w)"

definition reported_leaks :: "world \<Rightarrow> DUMA_Slot list" where
  "reported_leaks w = filter (\<lambda>s. REPORT_ALL_LEAKS w \<or> lineno s > 0) (leaks w)"

definition leak_msg :: "DUMA_Slot \<Rightarrow> print_msg" where
  "leak_msg s = Leak_report (userAddress s) (userSize s) (allocator s) (slot_pos s)"

lemma report_leaks_out:
  "report_leaks ss (r, t) w =
   ((r + int (length (filter (\<lambda>s. REPORT_ALL_LEAKS w \<or> lineno s > 0) (filter live ss))), t + int (length (filter live ss))),
    w\<lparr>out := out w @ map leak_msg (filter (\<lambda>s. REPORT_ALL_LEAKS w \<or> lineno s > 0) (filter live ss))\<rparr>)"
  by (induction ss arbitrary: r t w) (auto simp: live_def [abs_def] DUMA_Print_def leak_msg_def)

definition leak_output :: "world \<Rightarrow> print_msg list" where
  "leak_output w = map leak_msg (reported_leaks w) @
     (if leaks w = [] then []
      else [Leak_summary (int (length (reported_leaks w))) (int (length (leaks w)) - int (length (reported_leaks w)))])"

lemma report_summary:
  assumes "report_leaks (slots w) (0, 0) w = ((r, t), w1)"
  shows "leak_summary r t w1 = w\<lparr>out := out w @ leak_output w\<rparr>"
proof -
  have w1: "r = int (length (reported_leaks w))" "t = int (length (leaks w))" "w1 = w\<lparr>out := out w @ map leak_msg (reported_leaks w)\<rparr>"
    using assms by (auto simp: report_leaks_out leaks_def reported_leaks_def)
  have le: "length (reported_leaks w) \<le> length (leaks w)" by (simp add: reported_leaks_def)
  show ?thesis
  proof (cases "leaks w")
    case Nil
    then show ?thesis using w1 by (simp add: leak_summary_def leak_output_def reported_leaks_def)
  next
    case (Cons s ss)
    with le show ?thesis
      by (auto simp: w1 leak_summary_def leak_output_def DUMA_Print_def Let_def)
  qed
qed

text \<open>C31: The leak report names the live blocks that have a source position (all of them with
  \<open>DUMA_REPORT_ALL_LEAKS\<close>), in the order of the table, then their number and the number of the
  others, and nothing when every block has been freed.  It changes no block, and gives the
  semaphore back.\<close>

theorem delFrame_reports:
  assumes "heap_ok pf w" and "sem_inv pf (sem_view w)" and "DUMA_delFrame pf w = Inr w'"
  shows "out w' = out w @ leak_output w @ (if SHOW_ALLOC w then [Show_counts (numAllocs w) (numDeallocs w)] else [])
    \<and> heap_ok pf w' \<and> keeps pf {} w w' \<and> sem_view w' = sem_view w"
proof -
  from assms(3) obtain w1 where o: "open_list pf True w = Inr w1" by (auto simp: DUMA_delFrame_def and_then_Inr_iff)
  obtain r t w2 where r: "report_leaks (slots w1) (0, 0) w1 = ((r, t), w2)" by (metis surj_pair)
  let ?show = "\<lambda>w. if SHOW_ALLOC w then DUMA_Print (Show_counts (numAllocs w) (numDeallocs w)) w else w"
  from assms(3) o r have "and_then (close_list pf True (leak_summary r t w2)) (\<lambda>w. Inr (?show w)) = Inr w'"
    by (auto simp: DUMA_delFrame_def Let_def touch_list_def split: if_splits)
  then obtain w3 where cl: "close_list pf True (leak_summary r t w2) = Inr w3" and w': "w' = ?show w3"
    by (auto simp only: and_then_Inr_iff sum.inject)
  let ?w2 = "w1\<lparr>out := out w1 @ leak_output w1\<rparr>"
  from cl have cl: "close_list pf True ?w2 = Inr w3" by (simp add: report_summary [OF r])
  have ok1: "heap_ok pf w1" using open_list_ok [OF o assms(1)] by simp
  have ok2: "heap_ok pf ?w2" using ok1 heap_ok_cong [of ?w2 w1] by simp
  have "keeps pf {} w1 ?w2" by (simp add: keeps_def perm_at_def)
  then have k: "keeps pf {} w w3"
    using open_list_keeps(1) [OF o assms(1)] close_list_keeps(1) [OF cl ok2] keeps_trans by blast
  have e1: "leak_output w1 = leak_output w" "out w1 = out w" "SHOW_ALLOC w1 = SHOW_ALLOC w" "numAllocs w1 = numAllocs w"
    "numDeallocs w1 = numDeallocs w"
    by (rule open_list_frame [OF o], simp add: leak_output_def leaks_def reported_leaks_def)+
  have e3: "out w3 = out ?w2" "SHOW_ALLOC w3 = SHOW_ALLOC ?w2" "numAllocs w3 = numAllocs ?w2" "numDeallocs w3 = numDeallocs ?w2"
    by (rule close_list_frame [OF cl], simp)+
  let ?body = "\<lambda>v. if v = w1 then Inr ?w2 else Inl Blocked"
  from o cl have "and_then (open_list pf True w) (\<lambda>v. and_then (?body v) (close_list pf True)) = Inr w3" by simp
  then have "sem_view w3 = sem_view w"
    by (rule bracket_sem_view [OF _ assms(2)]) (auto simp: sem_view_def split: if_splits)
  moreover obtain ms where p: "w' = w3\<lparr>out := out w3 @ ms\<rparr>" "ms = (if SHOW_ALLOC w3 then [Show_counts (numAllocs w3) (numDeallocs w3)] else [])"
    by (auto simp: w' DUMA_Print_def)
  moreover have "keeps pf {} w3 w'" by (simp add: p(1) keeps_def perm_at_def)
  then have "keeps pf {} w w'" using k keeps_trans by blast
  moreover have "heap_ok pf w'" using close_list_ok [OF cl ok2] heap_ok_cong [of w' w3] by (simp add: p(1))
  ultimately show ?thesis using e1 e3 by (simp add: sem_view_def)
qed

theorem delFrame_reports_witness:
  "\<exists>w'. DUMA_delFrame sample_pf (sample_world NoAccess) = Inr w' \<and>
     out w' = [Leak_report 0x10002000 4096 EFA_MALLOC (Some ''a.c'', 7), Leak_summary 1 0]"
proof -
  let ?w = "sample_world NoAccess"
  have "\<exists>w'. DUMA_delFrame sample_pf ?w = Inr w'"
    by (simp add: duma_defs Let_def upt_conv_Cons)
  then obtain w' where w': "DUMA_delFrame sample_pf ?w = Inr w'" ..
  have "leaks ?w = [sample_block]"
    by (simp add: leaks_def live_def sample_list_slot_def sample_block_def sample_freed_def sample_free_slot_def zero_slot_def)
  moreover from this have "reported_leaks ?w = [sample_block]" by (simp add: reported_leaks_def sample_block_def)
  ultimately have "leak_output ?w = [Leak_report 0x10002000 4096 EFA_MALLOC (Some ''a.c'', 7), Leak_summary 1 0]"
    by (simp add: leak_output_def leak_msg_def sample_block_def)
  moreover have "out ?w = []" "\<not> SHOW_ALLOC ?w" by (simp_all add: sample_world_def initial_world_def)
  ultimately show ?thesis
    using delFrame_reports [OF sample_heap_ok [of NoAccess] sample_sem w'] w' by auto
qed

end
