(* ===== verification/Duma_Print.thy ===== *)
theory Duma_Print
  imports Duma_Env "HOL-Library.Signed_Division"
begin

text \<open>
  \<open>src/print.c\<close>: formatted output without the C library's \<open>printf\<close>.

  A buffer is the list of the bytes written so far and its capacity; a write past the capacity
  is the outcome \<open>Buffer_overflow\<close>.  A string is a list of nonzero bytes.  An argument of
  \<open>va_arg\<close> carries its type, and asking for another type, or for one more argument than there are,
  is \<open>Bad_va_arg\<close>.
\<close>

section \<open>Numbers\<close>

datatype print_stop = Number_abort | Buffer_overflow | Bad_va_arg | Pattern_overread

text \<open>\<open>sizeof(DUMA_ADDR) * NBBY\<close>\<close>

definition NUMBER_BUFFER_SIZE :: nat where
  "NUMBER_BUFFER_SIZE = 8 * 8"

definition STRING_BUFFER_SIZE :: nat where
  "STRING_BUFFER_SIZE = 4096"

definition digit_char :: "int \<Rightarrow> u8" where
  "digit_char digit = word_of_int (if digit < 10 then 48 + digit else 97 + digit - 10)"

text \<open>\<open>s\<close> is the index of the next free place plus one; the digits are written from the end of the
  buffer backwards.\<close>

fun sprintAddr_from :: "u64 \<Rightarrow> u64 \<Rightarrow> nat \<Rightarrow> u8 list \<Rightarrow> print_stop + u8 list" where
  "sprintAddr_from val base 0 acc = Inl Number_abort"
| "sprintAddr_from val base (Suc s) acc =
     (if s = 0 then Inl Number_abort
      else
        let acc = digit_char (uint (val mod base)) # acc; val = val div base
        in if val > 0 then sprintAddr_from val base s acc else Inr acc)"

definition sprintAddr :: "u64 \<Rightarrow> u64 \<Rightarrow> print_stop + u8 list" where
  "sprintAddr val base = sprintAddr_from val base NUMBER_BUFFER_SIZE []"

text \<open>The same on \<open>long\<close>, with C's division, which truncates towards zero.\<close>

fun sprintLong_from :: "int \<Rightarrow> int \<Rightarrow> nat \<Rightarrow> u8 list \<Rightarrow> print_stop + u8 list" where
  "sprintLong_from val base 0 acc = Inl Number_abort"
| "sprintLong_from val base (Suc s) acc =
     (if s = 0 then Inl Number_abort
      else
        let acc = digit_char (val smod base) # acc; val = val sdiv base
        in if val > 0 then sprintLong_from val base s acc else Inr acc)"

definition sprintLong :: "int \<Rightarrow> int \<Rightarrow> print_stop + u8 list" where
  "sprintLong val base = sprintLong_from val base NUMBER_BUFFER_SIZE []"

section \<open>Patterns\<close>

text \<open>\<open>%a\<close> and \<open>%x\<close> take a \<open>DUMA_ADDR\<close>, \<open>%d\<close> a \<open>DUMA_SIZE\<close>, \<open>%i\<close> an \<open>int\<close>, \<open>%l\<close> a \<open>long\<close>, \<open>%s\<close> a string
  or a null pointer, \<open>%c\<close> an \<open>int\<close>.\<close>

datatype arg = Addr_arg u64 | Size_arg u64 | Int_arg u32 | Long_arg u64 | Str_arg "u8 list option"

text \<open>\<open>buffer[len++] = c\<close>, and \<open>strcpy(&buffer[len], s)\<close> with its terminator.\<close>

definition put :: "nat \<Rightarrow> u8 list \<Rightarrow> u8 \<Rightarrow> print_stop + u8 list" where
  "put cap buf c = (if length buf < cap then Inr (buf @ [c]) else Inl Buffer_overflow)"

definition put_string :: "nat \<Rightarrow> u8 list \<Rightarrow> u8 list \<Rightarrow> print_stop + u8 list" where
  "put_string cap buf s = (if length buf + length s < cap then Inr (buf @ s) else Inl Buffer_overflow)"

text \<open>\<open>if (n < 0) { buffer[len++] = '-'; n = -n; }\<close>; the negation wraps.\<close>

definition put_long :: "nat \<Rightarrow> u8 list \<Rightarrow> u64 \<Rightarrow> print_stop + u8 list" where
  "put_long cap buf n =
     (let m = (if sint n < 0 then - n else n) in
      and_then (if sint n < 0 then put cap buf 45 else Inr buf) (\<lambda>buf.
      and_then (sprintLong (sint m) 10) (put_string cap buf)))"

definition put_arg :: "nat \<Rightarrow> u8 list \<Rightarrow> u8 \<Rightarrow> arg \<Rightarrow> print_stop + u8 list" where
  "put_arg cap buf c a =
     (case a of
        Addr_arg n \<Rightarrow> if c = 97 \<or> c = 120 then and_then (sprintAddr n 16) (put_string cap buf) else Inl Bad_va_arg
      | Size_arg n \<Rightarrow> if c = 100 then and_then (sprintAddr n 10) (put_string cap buf) else Inl Bad_va_arg
      | Int_arg n \<Rightarrow> if c = 105 then put_long cap buf (scast n) else if c = 99 then put cap buf (ucast n) else Inl Bad_va_arg
      | Long_arg n \<Rightarrow> if c = 108 then put_long cap buf n else Inl Bad_va_arg
      | Str_arg s \<Rightarrow> if c = 115 then put_string cap buf (case s of Some s \<Rightarrow> s | None \<Rightarrow> bytes_of ''NULL'') else Inl Bad_va_arg)"

definition is_directive :: "u8 \<Rightarrow> bool" where
  "is_directive c \<longleftrightarrow> c \<in> {97, 120, 100, 105, 108, 115, 99}"

text \<open>The loop over the pattern.  \<open>bad\<close> is what \<open>DUMA_Print(bad_pattern, c)\<close> writes meanwhile; after a
  \<open>%\<close> at the very end, it is called with the terminator and the loop goes on behind it.\<close>

fun vsprintf_from ::
  "(u8 \<Rightarrow> print_stop + 'o list) \<Rightarrow> nat \<Rightarrow> u8 list \<Rightarrow> u8 list \<Rightarrow> arg list \<Rightarrow> print_stop + u8 list \<times> 'o list" where
  "vsprintf_from bad cap buf [] args =
     (if length buf < cap then Inr (buf, []) else Inl Buffer_overflow)"
| "vsprintf_from bad cap buf [c] args =
     (if c = 37 then Inl Pattern_overread
      else and_then (put cap buf c) (\<lambda>buf. vsprintf_from bad cap buf [] args))"
| "vsprintf_from bad cap buf (c # d # cs) args =
     (if c = 37 then
        if d = 37 then and_then (put cap buf d) (\<lambda>buf. vsprintf_from bad cap buf cs args)
        else if is_directive d then
          (case args of
             [] \<Rightarrow> Inl Bad_va_arg
           | a # args \<Rightarrow> and_then (put_arg cap buf d a) (\<lambda>buf. vsprintf_from bad cap buf cs args))
        else and_then (bad d) (\<lambda>o1.
             and_then (vsprintf_from bad cap buf cs args) (\<lambda>(r, o2). Inr (r, o1 @ o2)))
      else and_then (put cap buf c) (\<lambda>buf. vsprintf_from bad cap buf (d # cs) args))"

section \<open>Output\<close>

text \<open>What \<open>DUMA_Print\<close> writes to, and the settings that choose: the file is given by the address of its
  name, and its \<open>open\<close> may fail.\<close>

datatype sink = Stdout | Stderr | File u64

record print_conf =
  to_stdout :: bool
  to_stderr :: bool
  to_file :: u64
  file_opens :: bool

definition emit :: "print_conf \<Rightarrow> u8 list \<Rightarrow> (sink \<times> u8 list) list" where
  "emit k buf =
     (if to_stdout k then [(Stdout, buf)] else []) @
     (if to_stderr k then [(Stderr, buf)] else []) @
     (if to_file k \<noteq> 0 \<and> file_opens k then [(File (to_file k), buf)] else [])"

definition bad_pattern :: "u8 list" where
  "bad_pattern = 10 # bytes_of ''DUMA: Bad pattern specifier %%%c in DUMA_Print().'' @ [10]"

text \<open>The pattern of the nested call has no bad specifier itself.\<close>

definition print_bad :: "print_conf \<Rightarrow> u8 \<Rightarrow> print_stop + (sink \<times> u8 list) list" where
  "print_bad k c =
     and_then (vsprintf_from (\<lambda>_. Inr []) STRING_BUFFER_SIZE [] bad_pattern [Int_arg (scast c)])
       (\<lambda>(buf, out). Inr (out @ emit k buf))"

definition DUMA_vsprintf :: "print_conf \<Rightarrow> nat \<Rightarrow> u8 list \<Rightarrow> arg list \<Rightarrow> print_stop + u8 list \<times> (sink \<times> u8 list) list" where
  "DUMA_vsprintf k cap pattern args = vsprintf_from (print_bad k) cap [] pattern args"

definition print_message :: "print_conf \<Rightarrow> u8 list \<Rightarrow> arg list \<Rightarrow> print_stop + (sink \<times> u8 list) list" where
  "print_message k pattern args =
     and_then (DUMA_vsprintf k STRING_BUFFER_SIZE pattern args) (\<lambda>(buf, out). Inr (out @ emit k buf))"

text \<open>The common part of \<open>DUMA_Abort\<close> and \<open>DUMA_Exit\<close>, up to the call that ends the process.  After
  \<open>vsprintf\<close> the buffer is the string up to the first null byte, and \<open>strcat\<close> adds two bytes.\<close>

definition print_final :: "u8 list \<Rightarrow> print_conf \<Rightarrow> u8 list \<Rightarrow> arg list \<Rightarrow> print_stop + (sink \<times> u8 list) list" where
  "print_final prefix k pattern args =
     and_then (DUMA_vsprintf k (STRING_BUFFER_SIZE - length prefix) pattern args) (\<lambda>(buf, out).
     let text = takeWhile (\<lambda>c. c \<noteq> 0) (prefix @ buf) in
     if length text + 2 > STRING_BUFFER_SIZE then Inl Buffer_overflow
     else and_then (print_message k (bytes_of ''%s'') [Str_arg (Some (text @ [10]))]) (\<lambda>out2. Inr (out @ out2)))"

definition DUMA_Abort :: "print_conf \<Rightarrow> u8 list \<Rightarrow> arg list \<Rightarrow> print_stop + (sink \<times> u8 list) list" where
  "DUMA_Abort = print_final (10 # bytes_of ''DUMA Aborting: '')"

definition DUMA_Exit :: "print_conf \<Rightarrow> u8 list \<Rightarrow> arg list \<Rightarrow> print_stop + (sink \<times> u8 list) list" where
  "DUMA_Exit = print_final (10 # bytes_of ''DUMA Exiting: '')"

text \<open>The caller's buffer as a string, terminator included.\<close>

definition DUMA_sprintf :: "print_conf \<Rightarrow> nat \<Rightarrow> u8 list \<Rightarrow> arg list \<Rightarrow> print_stop + u8 list \<times> (sink \<times> u8 list) list" where
  "DUMA_sprintf k cap pattern args =
     and_then (DUMA_vsprintf k cap pattern args) (\<lambda>(buf, out).
       Inr (if length buf \<le> 0 then [0] else buf @ [0], out))"

definition DUMA_strerror :: "print_conf \<Rightarrow> u32 \<Rightarrow> print_stop + u8 list \<times> (sink \<times> u8 list) list" where
  "DUMA_strerror k duma_errno =
     DUMA_sprintf k STRING_BUFFER_SIZE
       (bytes_of ''System Error Number '' @ [39] @ bytes_of ''errno'' @ [39] @ bytes_of '' from Standard C Library is %i'' @ [10])
       [Int_arg duma_errno]"


section \<open>Digits\<close>

fun digits :: "nat \<Rightarrow> nat \<Rightarrow> nat list" where
  "digits b n = (if b < 2 \<or> n < b then [n] else digits b (n div b) @ [n mod b])"

declare digits.simps [simp del]

lemma digits_value: "foldl (\<lambda>a d. a * b + d) 0 (digits b n) = n"
proof (induction b n rule: digits.induct)
  case (1 b n)
  then show ?case by (subst digits.simps) auto
qed

lemma digits_nonempty: "digits b n \<noteq> []"
  by (subst digits.simps) simp

lemma digits_less: "2 \<le> b \<Longrightarrow> d \<in> set (digits b n) \<Longrightarrow> d < b"
proof (induction b n rule: digits.induct)
  case (1 b n)
  then show ?case by (subst (asm) (2) digits.simps) (auto split: if_splits)
qed

lemma digits_length: "2 \<le> b \<Longrightarrow> length (digits b n) \<le> Suc k \<longleftrightarrow> n < b ^ Suc k"
proof (induction k arbitrary: n)
  case 0
  then show ?case by (subst digits.simps) (use digits_nonempty in auto)
next
  case (Suc k)
  have "n div b < b ^ Suc k \<longleftrightarrow> n < b ^ Suc (Suc k)"
    using Suc.prems by (subst div_less_iff_less_mult) (simp_all add: ac_simps)
  moreover have "b ^ 1 \<le> b ^ Suc (Suc k)" using Suc.prems by (intro power_increasing) simp_all
  then have "n < b \<Longrightarrow> n < b ^ Suc (Suc k)" by (simp only: power_one_right)
  ultimately show ?case using Suc by (subst digits.simps) auto
qed

definition number_text :: "nat \<Rightarrow> nat \<Rightarrow> u8 list" where
  "number_text b n = map (\<lambda>d. digit_char (int d)) (digits b n)"

lemma number_text_length: "length (number_text b n) = length (digits b n)"
  by (simp add: number_text_def)

lemma sprintAddr_from_eq:
  "2 \<le> unat b \<Longrightarrow> sprintAddr_from v b s acc =
     (if length (digits (unat b) (unat v)) < s then Inr (number_text (unat b) (unat v) @ acc) else Inl Number_abort)"
proof (induction s arbitrary: v acc)
  case 0
  then show ?case by simp
next
  case (Suc s)
  have u: "uint (v mod b) = int (unat v mod unat b)" "unat (v div b) = unat v div unat b"
    by (simp only: uint_nat unat_mod_distrib) (simp add: unat_div_distrib)
  have z: "v div b > 0 \<longleftrightarrow> \<not> unat v < unat b"
    using Suc.prems by (simp add: word_less_nat_alt u(2) div_greater_zero_iff not_less)
  have d: "digits (unat b) (unat v) = (if unat v < unat b then [unat v] else digits (unat b) (unat v div unat b) @ [unat v mod unat b])"
    using Suc.prems by (subst digits.simps) simp
  show ?case
    using Suc digits_nonempty [of "unat b" "unat v div unat b"]
    by (auto simp: Let_def z u d number_text_def Suc_le_eq)
qed

lemma sprintAddr_eq:
  "2 \<le> unat b \<Longrightarrow> sprintAddr v b = (if unat v < unat b ^ 63 then Inr (number_text (unat b) (unat v)) else Inl Number_abort)"
  using digits_length [of "unat b" "unat v" 62]
  by (auto simp: sprintAddr_def sprintAddr_from_eq NUMBER_BUFFER_SIZE_def)

lemma sprintLong_from_eq:
  "2 \<le> b \<Longrightarrow> sprintLong_from (int n) (int b) s acc =
     (if length (digits b n) < s then Inr (number_text b n @ acc) else Inl Number_abort)"
proof (induction s arbitrary: n acc)
  case 0
  then show ?case by simp
next
  case (Suc s)
  have u: "int n smod int b = int (n mod b)" "int n sdiv int b = int (n div b)"
    using Suc.prems by (simp_all add: signed_divide_int_def signed_modulo_int_def zdiv_int zmod_int
        minus_div_mult_eq_mod sgn_if)
  have d: "digits b n = (if n < b then [n] else digits b (n div b) @ [n mod b])"
    using Suc.prems by (subst digits.simps) simp
  show ?case
    using Suc digits_nonempty [of b "n div b"]
    by (auto simp: Let_def u d number_text_def div_greater_zero_iff)
qed

lemma sprintLong_eq:
  "n < 2 ^ 64 \<Longrightarrow> sprintLong (int n) 10 = Inr (number_text 10 n)"
proof -
  assume "n < 2 ^ 64"
  then have "length (digits 10 n) < 64" using digits_length [of 10 n 62] by (auto simp: less_Suc_eq_le)
  with sprintLong_from_eq [of 10 n 64 "[]"] show ?thesis by (simp add: sprintLong_def NUMBER_BUFFER_SIZE_def)
qed

section \<open>Reading numbers back\<close>

definition char_value :: "u8 \<Rightarrow> nat" where
  "char_value c = (if c \<le> 57 then unat c - 48 else unat c - 87)"

definition number_of_text :: "nat \<Rightarrow> u8 list \<Rightarrow> nat" where
  "number_of_text b s = foldl (\<lambda>a c. a * b + char_value c) 0 s"

lemma unat_digit_char: "d < 36 \<Longrightarrow> unat (digit_char (int d)) = (if d < 10 then 48 + d else 87 + d)"
proof -
  assume d: "d < 36"
  have "digit_char (int d) = word_of_nat (if d < 10 then 48 + d else 87 + d)"
    by (auto simp: digit_char_def)
  then show ?thesis using d by (simp add: unsigned_of_nat take_bit_nat_eq_self)
qed

lemma char_value_digit: "d < 36 \<Longrightarrow> char_value (digit_char (int d)) = d"
  by (auto simp: char_value_def word_le_nat_alt unat_digit_char)

lemma foldl_cong_set: "(\<And>a d. d \<in> set ds \<Longrightarrow> f a d = g a d) \<Longrightarrow> foldl f a ds = foldl g a ds"
  by (induction ds arbitrary: a) auto

lemma number_text_value:
  assumes "2 \<le> b" and "b \<le> 36"
  shows "number_of_text b (number_text b n) = n"
proof -
  have "foldl (\<lambda>a d. a * b + char_value (digit_char (int d))) 0 (digits b n) = foldl (\<lambda>a d. a * b + d) 0 (digits b n)"
    using digits_less [OF assms(1)] assms(2) by (intro foldl_cong_set) (fastforce simp: char_value_digit)
  then show ?thesis by (simp add: number_of_text_def number_text_def foldl_map digits_value)
qed

text \<open>C32: \<open>sprintAddr\<close> prints every number that has at most 63 digits, and the digits are those of the
  number; it aborts on longer ones.\<close>

theorem sprintAddr_correct:
  assumes "2 \<le> base" and "base \<le> 36"
  shows "case sprintAddr val base of
       Inr s \<Rightarrow> number_of_text (unat base) s = unat val \<and> 0 < length s \<and> length s \<le> 63
     | Inl e \<Rightarrow> e = Number_abort \<and> unat base ^ 63 \<le> unat val"
proof -
  have b: "2 \<le> unat base" "unat base \<le> 36" using assms by (simp_all add: word_le_nat_alt)
  show ?thesis
    using b digits_length [of "unat base" "unat val" 62] digits_nonempty [of "unat base" "unat val"]
    by (auto simp: sprintAddr_eq number_text_value number_text_length)
qed

theorem sprintAddr_correct_witness:
  "number_of_text 16 (case sprintAddr 0xBEEF 16 of Inr s \<Rightarrow> s | Inl e \<Rightarrow> []) = 0xBEEF"
  using sprintAddr_correct [of 16 "0xBEEF"] by (simp add: sprintAddr_eq split: sum.splits)

text \<open>In base two the buffer is one byte short of the longest number.\<close>

theorem sprintAddr_base_2: "sprintAddr (2 ^ 63) 2 = Inl Number_abort"
  by (simp add: sprintAddr_eq)

section \<open>Decimal numbers and the C library's reader\<close>

definition signed_text :: "int \<Rightarrow> u8 list" where
  "signed_text n = (if n < 0 then 45 # number_text 10 (nat (- n)) else number_text 10 (nat n))"

lemma digits_value_text:
  "\<forall>d \<in> set ds. d < 10 \<Longrightarrow> digits_value k (map (\<lambda>d. digit_char (int d)) ds) = foldl (\<lambda>a d. a * 10 + int d) k ds"
proof (induction ds arbitrary: k)
  case Nil
  then show ?case by simp
next
  case (Cons d ds)
  then have "unat (digit_char (int d)) = 48 + d" by (simp add: unat_digit_char)
  then have "is_digit (digit_char (int d))" "uint (digit_char (int d)) = 48 + int d"
    using Cons.prems by (auto simp: is_digit_def word_le_nat_alt uint_nat)
  with Cons show ?case by (simp add: ac_simps)
qed

lemma foldl_int: "foldl (\<lambda>a d. a * 10 + int d) (int k) ds = int (foldl (\<lambda>a d. a * 10 + d) k ds)"
proof (induction ds arbitrary: k)
  case (Cons d ds)
  from Cons [of "k * 10 + d"] show ?case by simp
qed simp

lemma digits_value_number: "digits_value 0 (number_text 10 n) = int n"
  using digits_value_text [of "digits 10 n" 0] digits_less [of 10 _ n] foldl_int [of 0 "digits 10 n"]
  by (simp add: number_text_def digits_value)

lemma number_text_head:
  obtains c cs where "number_text 10 n = c # cs" "is_digit c"
proof -
  obtain d ds where d: "digits 10 n = d # ds" using digits_nonempty by (metis neq_Nil_conv)
  then have "d < 10" using digits_less [of 10 d n] by simp
  then have "is_digit (digit_char (int d))" by (simp add: is_digit_def word_le_nat_alt unat_digit_char)
  with d that show thesis by (simp add: number_text_def)
qed

lemma atol_signed_text:
  assumes "- (2 ^ 63) \<le> n" and "n < 2 ^ 63"
  shows "atol (signed_text n) = n"
proof -
  have dg: "\<not> is_space c \<and> c \<noteq> 45 \<and> c \<noteq> 43" if "is_digit c" for c
    using that by (auto simp: is_digit_def is_space_def word_le_nat_alt)
  have sp: "\<not> is_space 45" by (simp add: is_space_def word_le_nat_alt)
  show ?thesis
  proof (cases "n < 0")
    case True
    then show ?thesis using assms sp by (simp add: atol_def signed_text_def digits_value_number Let_def)
  next
    case False
    obtain c cs where c: "number_text 10 (nat n) = c # cs" "is_digit c" by (rule number_text_head)
    with dg [OF c(2)] have "atol (signed_text n) = max (- (2 ^ 63)) (min (2 ^ 63 - 1) (digits_value 0 (number_text 10 (nat n))))"
      using False by (simp add: atol_def signed_text_def Let_def)
    with False assms show ?thesis by (simp add: digits_value_number)
  qed
qed


section \<open>What a pattern prints\<close>

text \<open>A message as its writer means it: characters, and values with their directives.\<close>

datatype piece = Text u8 | Directive u8 arg

fun piece_pattern :: "piece \<Rightarrow> u8 list" where
  "piece_pattern (Text c) = (if c = 37 then [37, 37] else [c])"
| "piece_pattern (Directive d a) = [37, d]"

fun piece_args :: "piece \<Rightarrow> arg list" where
  "piece_args (Text c) = []"
| "piece_args (Directive d a) = [a]"

fun arg_text :: "u8 \<Rightarrow> arg \<Rightarrow> u8 list" where
  "arg_text d (Addr_arg n) = number_text 16 (unat n)"
| "arg_text d (Size_arg n) = number_text 10 (unat n)"
| "arg_text d (Int_arg n) = (if d = 99 then [ucast n] else signed_text (sint n))"
| "arg_text d (Long_arg n) = signed_text (sint n)"
| "arg_text d (Str_arg s) = (case s of Some s \<Rightarrow> s | None \<Rightarrow> bytes_of ''NULL'')"

fun piece_text :: "piece \<Rightarrow> u8 list" where
  "piece_text (Text c) = [c]"
| "piece_text (Directive d a) = arg_text d a"

text \<open>The directive fits the argument's type; the one \<open>long\<close> whose negation overflows is left out.\<close>

fun piece_ok :: "piece \<Rightarrow> bool" where
  "piece_ok (Text c) \<longleftrightarrow> True"
| "piece_ok (Directive d a) \<longleftrightarrow>
     (case a of Addr_arg n \<Rightarrow> d = 97 \<or> d = 120
      | Size_arg n \<Rightarrow> d = 100
      | Int_arg n \<Rightarrow> d = 105 \<or> d = 99
      | Long_arg n \<Rightarrow> d = 108 \<and> sint n \<noteq> - (2 ^ 63)
      | Str_arg s \<Rightarrow> d = 115)"

definition pieces_pattern :: "piece list \<Rightarrow> u8 list" where
  "pieces_pattern ps = concat (map piece_pattern ps)"

definition pieces_args :: "piece list \<Rightarrow> arg list" where
  "pieces_args ps = concat (map piece_args ps)"

definition pieces_text :: "piece list \<Rightarrow> u8 list" where
  "pieces_text ps = concat (map piece_text ps)"

text \<open>Writing a text that does not leave room for the terminator fails at once or later.\<close>

definition written :: "nat \<Rightarrow> u8 list \<Rightarrow> u8 list \<Rightarrow> print_stop + u8 list \<Rightarrow> bool" where
  "written cap buf s r \<longleftrightarrow> r = Inr (buf @ s) \<or> (r = Inl Buffer_overflow \<and> cap \<le> length buf + length s)"

lemma put_written: "written cap buf [c] (put cap buf c)"
  by (auto simp: written_def put_def)

lemma put_string_written: "written cap buf s (put_string cap buf s)"
  by (auto simp: written_def put_string_def)

lemma sint_word_bounds: "- (2 ^ 63) \<le> sint (n :: u64)" "sint (n :: u64) < 2 ^ 63"
  using sint_range_size [of n] by (simp_all add: word_size)

lemma sint_word_of_int: "- (2 ^ 63) \<le> k \<Longrightarrow> k < 2 ^ 63 \<Longrightarrow> sint (word_of_int k :: u64) = k"
  by (simp add: signed_of_int signed_take_bit_int_eq_self)

lemma sint_neg: "sint (n :: u64) \<noteq> - (2 ^ 63) \<Longrightarrow> sint (- n) = - sint n"
proof -
  assume "sint n \<noteq> - (2 ^ 63)"
  with sint_word_bounds [of n] have "sint (word_of_int (- sint n) :: u64) = - sint n" by (intro sint_word_of_int) auto
  then show ?thesis by simp
qed

lemma put_long_written:
  assumes "sint n \<noteq> - (2 ^ 63)"
  shows "written cap buf (signed_text (sint n)) (put_long cap buf n)"
proof (cases "sint n < 0")
  case True
  define k where "k = nat (- sint n)"
  have k: "sint (- n) = int k" "k < 2 ^ 64" using True sint_neg [OF assms] sint_word_bounds [of n] by (auto simp: k_def)
  have "put_long cap buf n = and_then (put cap buf 45) (\<lambda>buf. put_string cap buf (number_text 10 k))"
    using True k by (simp add: put_long_def Let_def sprintLong_eq)
  moreover have "signed_text (sint n) = 45 # number_text 10 k" using True by (simp add: signed_text_def k_def)
  ultimately show ?thesis by (auto simp: written_def put_def put_string_def)
next
  case False
  define k where "k = nat (sint n)"
  have k: "sint n = int k" "k < 2 ^ 64" using False sint_word_bounds [of n] by (auto simp: k_def)
  then have "put_long cap buf n = put_string cap buf (number_text 10 k)"
    by (simp add: put_long_def Let_def sprintLong_eq)
  with k put_string_written show ?thesis by (simp add: signed_text_def)
qed

lemma sint_scast_32: "sint (scast (n :: u32) :: u64) = sint n"
proof -
  have "- (2 ^ 31) \<le> sint n" "sint n < 2 ^ 31" using sint_range_size [of n] by (simp_all add: word_size)
  then have "sint (word_of_int (sint n) :: u64) = sint n" by (intro sint_word_of_int) simp_all
  then show ?thesis by (simp only: scast_eq)
qed

lemma put_arg_written:
  assumes "piece_ok (Directive d a)"
  shows "written cap buf (arg_text d a) (put_arg cap buf d a)"
proof (cases a)
  case (Int_arg n)
  have "- (2 ^ 31) \<le> sint n" "sint n < 2 ^ 31" using sint_range_size [of n] by (simp_all add: word_size)
  with put_long_written [of "scast n" cap buf] assms put_written Int_arg
  show ?thesis by (auto simp: put_arg_def sint_scast_32)
next
  case (Addr_arg n)
  have "unat n < 16 ^ 63" using unsigned_less [of n, where 'a = nat] by simp
  with assms Addr_arg put_string_written show ?thesis by (auto simp: put_arg_def sprintAddr_eq)
next
  case (Size_arg n)
  have "unat n < 10 ^ 63" using unsigned_less [of n, where 'a = nat] by simp
  with assms Size_arg put_string_written show ?thesis by (auto simp: put_arg_def sprintAddr_eq)
qed (use assms put_long_written put_string_written in \<open>auto simp: put_arg_def split: option.splits\<close>)

lemma vsprintf_pieces:
  assumes "\<forall>p \<in> set ps. piece_ok p"
  shows "vsprintf_from bad cap buf (pieces_pattern ps) (pieces_args ps) =
    (if length buf + length (pieces_text ps) < cap then Inr (buf @ pieces_text ps, []) else Inl Buffer_overflow)"
  using assms
proof (induction ps arbitrary: buf)
  case Nil
  then show ?case by (simp add: pieces_pattern_def pieces_args_def pieces_text_def)
next
  case (Cons p ps)
  have step: "and_then r (\<lambda>buf. vsprintf_from bad cap buf (pieces_pattern ps) (pieces_args ps)) =
      (if length buf + length (pieces_text (p # ps)) < cap then Inr (buf @ pieces_text (p # ps), []) else Inl Buffer_overflow)"
    if "written cap buf (piece_text p) r" for r
    using that Cons by (auto simp: written_def pieces_text_def)
  show ?case
  proof (cases p)
    case (Text c)
    have "vsprintf_from bad cap buf (piece_pattern p @ cs) args =
        and_then (put cap buf c) (\<lambda>buf. vsprintf_from bad cap buf cs args)" for cs args
      using Text by (cases cs) auto
    with step [of "put cap buf c"] put_written Text show ?thesis
      by (simp add: pieces_pattern_def pieces_args_def)
  next
    case (Directive d a)
    have "piece_ok (Directive d a)" using Cons.prems Directive by simp
    moreover from this have "d \<noteq> 37" "is_directive d" by (auto simp: is_directive_def split: arg.splits)
    ultimately show ?thesis
      using step [of "put_arg cap buf d a"] put_arg_written [of d a cap buf] Directive
      by (simp add: pieces_pattern_def pieces_args_def)
  qed
qed

lemma vsprintf_ok:
  "\<forall>p \<in> set ps. piece_ok p \<Longrightarrow> DUMA_vsprintf k cap (pieces_pattern ps) (pieces_args ps) =
    (if length (pieces_text ps) < cap then Inr (pieces_text ps, []) else Inl Buffer_overflow)"
  using vsprintf_pieces [of ps "print_bad k" cap "[]"] by (simp add: DUMA_vsprintf_def)

lemmas pieces_defs = pieces_pattern_def pieces_args_def pieces_text_def bytes_of_def

text \<open>A final message fits with its prefix, a line end and the terminator.\<close>

lemma print_final_ok:
  assumes "\<forall>p \<in> set ps. piece_ok p" and "0 \<notin> set (prefix @ pieces_text ps)"
    and "length prefix + length (pieces_text ps) + 2 \<le> STRING_BUFFER_SIZE"
  shows "print_final prefix k (pieces_pattern ps) (pieces_args ps) = Inr (emit k (prefix @ pieces_text ps @ [10]))"
proof -
  let ?t = "prefix @ pieces_text ps"
  have "\<And>c. c \<in> set ?t \<Longrightarrow> c \<noteq> 0" using assms(2) by metis
  then have tw: "takeWhile (\<lambda>c. c \<noteq> 0) ?t = ?t" by (rule takeWhile_eq_all_conv [THEN iffD2, rule_format])
  have v: "DUMA_vsprintf k (STRING_BUFFER_SIZE - length prefix) (pieces_pattern ps) (pieces_args ps) = Inr (pieces_text ps, [])"
    using vsprintf_ok [OF assms(1), of k "STRING_BUFFER_SIZE - length prefix"] assms(3) by simp
  have "print_message k (bytes_of ''%s'') [Str_arg (Some (?t @ [10]))] = Inr (emit k (?t @ [10]))"
    using vsprintf_ok [of "[Directive 115 (Str_arg (Some (?t @ [10])))]" k STRING_BUFFER_SIZE] assms(3)
    by (simp add: print_message_def pieces_defs)
  then show ?thesis
    unfolding print_final_def v and_then.simps prod.case Let_def tw using assms(3) by simp
qed

text \<open>C33: Formatted output prints what was meant: for a pattern made of characters (\<open>%\<close> doubled) and directives
  that fit their arguments, the text is the characters and the values in order, nothing else is
  printed, and the call overflows the buffer exactly when the text and its terminator do not fit.\<close>

theorem vsprintf_correct:
  assumes "\<forall>p \<in> set ps. piece_ok p"
  shows "DUMA_vsprintf k cap (pieces_pattern ps) (pieces_args ps) =
    (if length (pieces_text ps) < cap then Inr (pieces_text ps, []) else Inl Buffer_overflow)"
  by (rule vsprintf_ok [OF assms])

theorem vsprintf_correct_witness:
  "\<forall>k. DUMA_vsprintf k 16 (bytes_of ''%%=%i!'') [Int_arg (- 42)] = Inr (bytes_of ''%=-42!'', [])"
proof
  fix k
  have "sint (- 42 :: u32) = - 42" by simp
  then show "DUMA_vsprintf k 16 (bytes_of ''%%=%i!'') [Int_arg (- 42)] = Inr (bytes_of ''%=-42!'', [])"
    using vsprintf_correct [of "[Text 37, Text 61, Directive 105 (Int_arg (- 42)), Text 33]" k 16]
    by (simp add: pieces_defs signed_text_def number_text_def
        digits.simps digit_char_def)
qed

text \<open>What \<open>%l\<close> prints, \<open>atol\<close> reads back: a number in the settings has the same meaning in a message.\<close>

theorem print_atol:
  assumes "sint n \<noteq> - (2 ^ 63)" and "DUMA_vsprintf k cap (bytes_of ''%l'') [Long_arg n] = Inr (s, ws)"
  shows "atol s = sint n"
proof -
  have "piece_ok (Directive 108 (Long_arg n))" using assms(1) by simp
  with vsprintf_ok [of "[Directive 108 (Long_arg n)]" k cap] assms(2) have "s = signed_text (sint n)"
    by (simp add: pieces_defs split: if_splits)
  with atol_signed_text sint_word_bounds [of n] show ?thesis by simp
qed

lemma vsprintf_long:
  "DUMA_vsprintf k cap (bytes_of ''%l'') [Long_arg n] =
   and_then (put_long cap [] n) (\<lambda>buf. if length buf < cap then Inr (buf, []) else Inl Buffer_overflow)"
  by (simp add: DUMA_vsprintf_def bytes_of_def is_directive_def put_arg_def)

theorem print_atol_witness:
  "\<forall>k. \<exists>s. DUMA_vsprintf k 8 (bytes_of ''%l'') [Long_arg (- 7)] = Inr (s, []) \<and> atol s = - 7"
proof
  fix k
  have "sprintLong 7 10 = Inr [55]"
    using sprintLong_eq [of 7] by (simp add: number_text_def digits.simps digit_char_def)
  then have v: "DUMA_vsprintf k 8 (bytes_of ''%l'') [Long_arg (- 7)] = Inr ([45, 55], [])"
    by (simp add: vsprintf_long put_long_def put_def put_string_def Let_def)
  from print_atol [OF _ v] v show "\<exists>s. DUMA_vsprintf k 8 (bytes_of ''%l'') [Long_arg (- 7)] = Inr (s, []) \<and> atol s = - 7" by simp
qed

text \<open>The most negative \<open>long\<close> is printed as a minus sign and one wrong character, as the negation
  leaves it negative.\<close>

theorem print_long_min: "DUMA_vsprintf k 8 (bytes_of ''%l'') [Long_arg (2 ^ 63)] = Inr (bytes_of ''-('', [])"
proof -
  have "sprintLong_from (- (2 ^ 63)) 10 (Suc 63) [] = Inr [40]"
    by (subst sprintLong_from.simps) (simp add: digit_char_def Let_def signed_divide_int_def signed_modulo_int_def)
  then have "sprintLong (- (2 ^ 63)) 10 = Inr [40]" by (simp add: sprintLong_def NUMBER_BUFFER_SIZE_def)
  then show ?thesis unfolding vsprintf_long by (simp add: put_long_def put_def put_string_def Let_def bytes_of_def)
qed

text \<open>An abort message reaches every sink that is switched on, as a whole, with its prefix and a line end,
  when it fits the buffer.\<close>

theorem abort_prints:
  assumes "\<forall>p \<in> set ps. piece_ok p" and "0 \<notin> set (pieces_text ps)" and "length (pieces_text ps) + 18 \<le> STRING_BUFFER_SIZE"
  shows "DUMA_Abort k (pieces_pattern ps) (pieces_args ps) =
    Inr (emit k (10 # bytes_of ''DUMA Aborting: '' @ pieces_text ps @ [10]))"
  unfolding DUMA_Abort_def
  by (subst print_final_ok) (use assms in \<open>simp_all add: bytes_of_def\<close>)

theorem abort_prints_witness:
  "DUMA_Abort \<lparr>to_stdout = True, to_stderr = True, to_file = 0, file_opens = False\<rparr> (bytes_of ''page %d'') [Size_arg 7] =
   Inr (let s = 10 # bytes_of ''DUMA Aborting: page 7'' @ [10] in [(Stdout, s), (Stderr, s)])"
  using abort_prints [of "map Text (bytes_of ''page '') @ [Directive 100 (Size_arg 7)]"
      "\<lparr>to_stdout = True, to_stderr = True, to_file = 0, file_opens = False\<rparr>"]
  by (simp add: pieces_defs number_text_def digits.simps digit_char_def STRING_BUFFER_SIZE_def emit_def Let_def)

end
