(* ===== verification/Duma_Createconf.thy ===== *)
theory Duma_Createconf
  imports Duma_Init Duma_Print
begin

text \<open>
  \<open>createconf.c\<close>: the program of the build that writes \<open>duma_config.h\<close>.

  What the compiler and the machine decide is an argument: the sizes of the types, the macros
  the program was compiled with, the addresses \<open>malloc(0)\<close> returns, and which accesses the
  processor performs without a fault.  The file is the list of its lines.  The Windows branches
  are left out.
\<close>

section \<open>The choice of the types\<close>

record target =
  sizeof_ulong :: nat
  sizeof_ullong :: nat
  sizeof_fast32 :: nat
  sizeof_fast64 :: nat
  sizeof_ptr :: nat
  sizeof_size_t :: nat
  sizeof_ushort :: nat
  sizeof_uint :: nat
  sizeof_float :: nat
  sizeof_double :: nat
  sizeof_ldouble :: nat
  have_c99 :: bool
  gnuc :: bool
  initattr_ok :: bool
  buffer :: nat
  access_ok :: "nat \<Rightarrow> nat \<Rightarrow> bool"

record DataType_T =
  dt_id :: int
  dt_size :: nat
  dt_type :: string
  c99 :: bool

definition sIntTypes :: "target \<Rightarrow> DataType_T list" where
  "sIntTypes t =
     [\<lparr>dt_id = 0, dt_size = sizeof_ulong t, dt_type = ''unsigned long int'', c99 = False\<rparr>] @
     (if have_c99 t
      then [\<lparr>dt_id = 1, dt_size = sizeof_fast32 t, dt_type = ''uint_fast32_t'', c99 = True\<rparr>,
            \<lparr>dt_id = 2, dt_size = sizeof_fast64 t, dt_type = ''uint_fast64_t'', c99 = True\<rparr>] else []) @
     (if gnuc t then [\<lparr>dt_id = 4, dt_size = sizeof_ullong t, dt_type = ''unsigned long long int'', c99 = False\<rparr>] else [])"

text \<open>The first type that is large enough; \<open>None\<close> is \<open>-1\<close>.\<close>

fun find_type :: "nat \<Rightarrow> nat \<Rightarrow> DataType_T list \<Rightarrow> nat option" where
  "find_type n i [] = None"
| "find_type n i (d # ds) = (if dt_size d \<ge> n then Some i else find_type n (Suc i) ds)"

definition max_sizeof :: "target \<Rightarrow> nat" where
  "max_sizeof t =
     (let m = fold (\<lambda>d m. if m < dt_size d then dt_size d else m) (sIntTypes t) 0;
          m = (if m < sizeof_float t then sizeof_float t else m);
          m = (if m < sizeof_double t then sizeof_double t else m)
      in if m < sizeof_ldouble t then sizeof_ldouble t else m)"

section \<open>The alignment test\<close>

text \<open>One write of every type at an address.\<close>

definition accesses :: "target \<Rightarrow> nat list" where
  "accesses t =
     [1, sizeof_ushort t, sizeof_uint t, sizeof_ulong t, sizeof_float t, sizeof_double t, sizeof_ldouble t] @
     (if have_c99 t then [sizeof_fast32 t, sizeof_fast64 t] else []) @
     (if gnuc t then [sizeof_ullong t] else [])"

text \<open>Whether \<open>testAlignment\<close> returns; otherwise the process dies of the access.  The branches of its
  \<open>switch\<close> differ in the integer type the address is cast to, which holds a pointer.\<close>

definition testAlignment :: "target \<Rightarrow> nat \<Rightarrow> nat \<Rightarrow> bool" where
  "testAlignment t alignment maxs =
     list_all (\<lambda>offset. (buffer t + offset) mod alignment = 0 \<longrightarrow>
        list_all (\<lambda>sz. access_ok t sz (buffer t + offset)) (accesses t)) [0 ..< maxs]"

section \<open>The file\<close>

text \<open>\<open>%d\<close> and \<open>%lu\<close> of the C library.\<close>

definition dec :: "nat \<Rightarrow> string" where
  "dec n = map (\<lambda>d. char_of (48 + d)) (digits 10 n)"

text \<open>The text that switches one macro off or on.\<close>

definition flag :: "bool \<Rightarrow> string \<Rightarrow> string list" where
  "flag on name =
     (if on then [''#ifndef '' @ name, ''#define '' @ name, ''#endif'', '''']
      else [''#ifdef '' @ name, ''#undef '' @ name, ''#endif'', ''''])"

definition file_head :: "string \<Rightarrow> string list" where
  "file_head date =
     [''/*'', '' * WARNING: DO NOT CHANGE THIS FILE!'', '' * This file is automatically generated from createconf'',
      '' * under Linux on '' @ date, '' */'', '''', ''#ifndef _DUMA_CONFIG_H_'', ''#define _DUMA_CONFIG_H_'',
      '''', ''/*'', '' * Configuration of DUMA:'', '' */'']"

text \<open>\<open>b\<close> says with which macros \<open>createconf\<close> itself was compiled.\<close>

definition so_section :: "(string \<Rightarrow> bool) \<Rightarrow> string list" where
  "so_section b =
     [''#ifdef DUMA_SO_LIBRARY'', ''''] @
     flag False ''DUMA_NO_GLOBAL_MALLOC_FREE'' @ flag False ''DUMA_EXPLICIT_INIT'' @
     flag False ''DUMA_NO_THREAD_SAFETY'' @ flag (b ''DUMA_SEMAPHORES'') ''DUMA_SEMAPHORES'' @
     flag (b ''DUMA_SO_NO_CPP_SUPPORT'') ''DUMA_NO_CPP_SUPPORT'' @
     flag (b ''DUMA_SO_NO_LEAKDETECTION'') ''DUMA_NO_LEAKDETECTION'' @
     flag (b ''DUMA_SO_PREFER_ATEXIT'') ''DUMA_PREFER_ATEXIT'' @
     flag (b ''DUMA_SO_PREFER_GETENV'') ''DUMA_PREFER_GETENV'' @
     flag False ''DUMA_OLD_NEW_MACRO'' @ flag False ''DUMA_OLD_DEL_MACRO'' @
     flag (b ''DUMA_NO_STRERROR'') ''DUMA_NO_STRERROR'' @
     flag (b ''DUMA_SO_NO_HANG_MSG'') ''DUMA_NO_HANG_MSG''"

definition dll_section :: "(string \<Rightarrow> bool) \<Rightarrow> string list" where
  "dll_section b =
     [''#elif defined(DUMA_DLL_LIBRARY)'', '''', ''#define DUMA_SKIP_SETUP 1'',
      ''#define DUMA_NO_GLOBAL_MALLOC_FREE 1'', ''#define DUMA_EXPLICIT_INIT 1''] @
     flag False ''DUMA_NO_THREAD_SAFETY'' @
     flag (b ''DUMA_SO_NO_CPP_SUPPORT'') ''DUMA_NO_CPP_SUPPORT'' @
     flag (b ''DUMA_SO_NO_LEAKDETECTION'') ''DUMA_NO_LEAKDETECTION'' @
     flag (b ''DUMA_SO_PREFER_ATEXIT'') ''DUMA_PREFER_ATEXIT'' @
     flag (b ''DUMA_SO_PREFER_GETENV'') ''DUMA_PREFER_GETENV'' @
     flag False ''DUMA_OLD_NEW_MACRO'' @ flag False ''DUMA_OLD_DEL_MACRO'' @
     flag (b ''DUMA_SO_NO_HANG_MSG'') ''DUMA_NO_HANG_MSG''"

definition detours_section :: "(string \<Rightarrow> bool) \<Rightarrow> string list" where
  "detours_section b =
     [''#elif defined(DUMA_DETOURS)'', '''', ''#define DUMA_SKIP_SETUP 1'',
      ''#define DUMA_NO_GLOBAL_MALLOC_FREE 1'', ''#define DUMA_EXPLICIT_INIT 1''] @
     flag False ''DUMA_NO_THREAD_SAFETY'' @
     flag (b ''DUMA_SO_NO_CPP_SUPPORT'') ''DUMA_NO_CPP_SUPPORT'' @
     flag (b ''DUMA_SO_NO_LEAKDETECTION'') ''DUMA_NO_LEAKDETECTION'' @
     flag (b ''DUMA_SO_PREFER_ATEXIT'') ''DUMA_PREFER_ATEXIT'' @
     flag (b ''DUMA_SO_PREFER_GETENV'') ''DUMA_PREFER_GETENV'' @
     flag False ''DUMA_OLD_NEW_MACRO'' @ flag False ''DUMA_OLD_DEL_MACRO'' @
     flag (b ''DUMA_SO_NO_HANG_MSG'') ''DUMA_NO_HANG_MSG''"

definition regular_section :: "(string \<Rightarrow> bool) \<Rightarrow> string list" where
  "regular_section b =
     [''#else'', ''''] @
     flag (b ''DUMA_NO_GLOBAL_MALLOC_FREE'') ''DUMA_NO_GLOBAL_MALLOC_FREE'' @
     flag (b ''DUMA_EXPLICIT_INIT'') ''DUMA_EXPLICIT_INIT'' @
     flag (b ''DUMA_NO_THREAD_SAFETY'') ''DUMA_NO_THREAD_SAFETY'' @
     flag (b ''DUMA_LIB_NO_CPP_SUPPORT'') ''DUMA_NO_CPP_SUPPORT'' @
     flag (b ''DUMA_LIB_NO_LEAKDETECTION'') ''DUMA_NO_LEAKDETECTION'' @
     flag (b ''DUMA_LIB_PREFER_ATEXIT'') ''DUMA_PREFER_ATEXIT'' @
     flag (b ''DUMA_LIB_PREFER_GETENV'') ''DUMA_PREFER_GETENV'' @
     flag (b ''DUMA_OLD_NEW_MACRO'') ''DUMA_OLD_NEW_MACRO'' @
     flag (b ''DUMA_OLD_DEL_MACRO'') ''DUMA_OLD_DEL_MACRO'' @
     flag (b ''DUMA_NO_STRERROR'') ''DUMA_NO_STRERROR'' @
     flag (b ''DUMA_LIB_NO_HANG_MSG'') ''DUMA_NO_HANG_MSG'' @
     [''#endif'', '''', '''']"

definition value_section :: "target \<Rightarrow> nat \<Rightarrow> nat option \<Rightarrow> nat option \<Rightarrow> nat \<Rightarrow> nat \<Rightarrow> string list" where
  "value_section t pagesize addrIdx sizeIdx alignment malloc0strategy =
     (case addrIdx of Some i \<Rightarrow> if c99 (sIntTypes t ! i) then [''#include <stdint.h>'', ''''] else [] | None \<Rightarrow> []) @
     [''/*'', '' * Number of bytes per virtual-memory page, as returned by Page_Size().'', '' */'',
      ''#define DUMA_PAGE_SIZE '' @ dec pagesize, '''',
      ''/*'', '' * Minimum required alignment by CPU.'', '' */'',
      ''#define DUMA_MIN_ALIGNMENT '' @ dec alignment, '''',
      ''/*'', '' * Build environment supports the '' @ [CHR 0x27] @ ''__attribute ((constructor))'' @ [CHR 0x27] @ ''?'', '' */'',
      (if initattr_ok t then ''#define DUMA_GNU_INIT_ATTR 1'' else ''/* #define DUMA_GNU_INIT_ATTR 0 */''), '''',
      ''/*'', '' * An integer type with same size as '' @ [CHR 0x27] @ ''void *'' @ [CHR 0x27], '' */'',
      (case addrIdx of Some i \<Rightarrow> ''typedef '' @ dt_type (sIntTypes t ! i) @ '' DUMA_ADDR;''
       | None \<Rightarrow> ''/* Error: No datatype for DUMA_ADDR found! */''), '''',
      ''/*'', '' * An integer type with same size as '' @ [CHR 0x27] @ ''size_t'' @ [CHR 0x27], '' */'',
      (case sizeIdx of Some i \<Rightarrow> ''typedef '' @ dt_type (sIntTypes t ! i) @ '' DUMA_SIZE;''
       | None \<Rightarrow> ''/* No datatype for DUMA_SIZE found! */''), '''',
      ''/*'', '' * Default behaviour on malloc(0).'', '' */'',
      ''#define DUMA_DEFAULT_MALLOC_0_STRATEGY '' @ dec malloc0strategy, '''',
      ''#endif /* _DUMA_CONFIG_H_ */'']"

definition writeFile ::
  "target \<Rightarrow> (string \<Rightarrow> bool) \<Rightarrow> string \<Rightarrow> nat \<Rightarrow> nat option \<Rightarrow> nat option \<Rightarrow> nat \<Rightarrow> nat \<Rightarrow> string list" where
  "writeFile t b date pagesize addrIdx sizeIdx alignment malloc0strategy =
     file_head date @ so_section b @ dll_section b @ detours_section b @ regular_section b @
     value_section t pagesize addrIdx sizeIdx alignment malloc0strategy"

section \<open>The program\<close>

definition malloc_0_strategy :: "u64 \<Rightarrow> u64 \<Rightarrow> nat" where
  "malloc_0_strategy ptrA ptrB = (if ptrA = 0 then 1 else if ptrA = ptrB then 2 else 3)"

text \<open>The loop over the alignments.  Each file replaces the one before; when a test dies, the last file
  stays.  The result is the file and whether the program came to its end.\<close>

function align_loop :: "(nat \<Rightarrow> bool) \<Rightarrow> (nat \<Rightarrow> string list) \<Rightarrow> nat \<Rightarrow> string list option \<Rightarrow> string list option \<times> bool" where
  "align_loop test write alignment file =
     (if \<not> test alignment then (file, False)
      else if alignment div 2 > 0 then align_loop test write (alignment div 2) (Some (write alignment))
      else (Some (write alignment), True))"
  by pat_completeness auto
termination
  by (relation "measure (\<lambda>(test, write, alignment, file). alignment)") auto

declare align_loop.simps [simp del]

text \<open>Without a type for an address \<open>testAlignment\<close> reads before its table: no result.\<close>

definition createconf ::
  "target \<Rightarrow> (string \<Rightarrow> bool) \<Rightarrow> string \<Rightarrow> nat \<Rightarrow> u64 \<Rightarrow> u64 \<Rightarrow> (string list option \<times> bool) option" where
  "createconf t b date pagesize ptrA ptrB =
     (let addrIdx = find_type (sizeof_ptr t) 0 (sIntTypes t);
          sizeIdx = find_type (sizeof_size_t t) 0 (sIntTypes t);
          maxs = max_sizeof t
      in if addrIdx = None then None
         else Some (align_loop (\<lambda>a. testAlignment t a maxs)
                (\<lambda>a. writeFile t b date pagesize addrIdx sizeIdx a (malloc_0_strategy ptrA ptrB)) maxs None))"

section \<open>The alignment that is chosen\<close>

lemma align_loop_result:
  assumes "align_loop test write a fl = (r, fin)"
  shows "(r = fl \<and> \<not> fin \<and> \<not> test a) \<or>
    (\<exists>k. r = Some (write (a div 2 ^ k)) \<and> (\<forall>j \<le> k. test (a div 2 ^ j)) \<and> (0 < a \<longrightarrow> 0 < a div 2 ^ k) \<and>
         (if fin then a div 2 ^ k \<le> 1 else \<not> test (a div 2 ^ Suc k) \<and> 0 < a div 2 ^ Suc k))"
  using assms
proof (induction test "write" a fl arbitrary: r fin rule: align_loop.induct)
  case (1 test "write" a fl)
  show ?case
  proof (cases "test a \<and> a div 2 > 0")
    case False
    with "1.prems" show ?thesis by (subst (asm) align_loop.simps) (auto intro!: exI [of _ 0] split: if_splits)
  next
    case True
    with "1.prems" have r: "align_loop test write (a div 2) (Some (write a)) = (r, fin)"
      by (subst (asm) align_loop.simps) simp
    have d: "a div 2 div 2 ^ k = a div 2 ^ Suc k" for k by (simp add: div_mult2_eq)
    from True have "\<not> \<not> test a" "0 < a div 2" by simp_all
    from "1.IH" [OF this r, unfolded d] have
      "(r = Some (write a) \<and> \<not> fin \<and> \<not> test (a div 2)) \<or>
       (\<exists>k. r = Some (write (a div 2 ^ Suc k)) \<and> (\<forall>j \<le> k. test (a div 2 ^ Suc j)) \<and>
          (0 < a div 2 \<longrightarrow> 0 < a div 2 ^ Suc k) \<and>
          (if fin then a div 2 ^ Suc k \<le> 1
           else \<not> test (a div 2 ^ Suc (Suc k)) \<and> 0 < a div 2 ^ Suc (Suc k)))" .
    then consider "r = Some (write a)" "\<not> fin" "\<not> test (a div 2)"
      | k where "r = Some (write (a div 2 ^ Suc k))" "\<forall>j \<le> k. test (a div 2 ^ Suc j)" "0 < a div 2 \<longrightarrow> 0 < a div 2 ^ Suc k"
        "if fin then a div 2 ^ Suc k \<le> 1 else \<not> test (a div 2 ^ Suc (Suc k)) \<and> 0 < a div 2 ^ Suc (Suc k)"
      by (elim disjE exE conjE)
    then show ?thesis
    proof cases
      case 1
      with True show ?thesis by (intro disjI2 exI [of _ 0]) simp
    next
      case (2 k)
      have "\<forall>j \<le> Suc k. test (a div 2 ^ j)"
      proof (intro allI impI)
        fix j assume "j \<le> Suc k"
        with 2(2) True show "test (a div 2 ^ j)" by (cases j) auto
      qed
      with 2 True show ?thesis
        by (intro disjI2 exI [of _ "Suc k"]) (simp cong: if_cong split: if_splits)
    qed
  qed
qed

lemma createconf_result:
  assumes "createconf t b date pagesize ptrA ptrB = Some (Some cfg, fin)"
  shows "\<exists>k. cfg = writeFile t b date pagesize (find_type (sizeof_ptr t) 0 (sIntTypes t))
        (find_type (sizeof_size_t t) 0 (sIntTypes t)) (max_sizeof t div 2 ^ k) (malloc_0_strategy ptrA ptrB) \<and>
      (\<forall>j \<le> k. testAlignment t (max_sizeof t div 2 ^ j) (max_sizeof t)) \<and>
      (0 < max_sizeof t \<longrightarrow> 0 < max_sizeof t div 2 ^ k) \<and>
      (if fin then max_sizeof t div 2 ^ k \<le> 1
       else 0 < max_sizeof t div 2 ^ Suc k \<and> \<not> testAlignment t (max_sizeof t div 2 ^ Suc k) (max_sizeof t))"
proof -
  from assms have "align_loop (\<lambda>a. testAlignment t a (max_sizeof t))
      (\<lambda>a. writeFile t b date pagesize (find_type (sizeof_ptr t) 0 (sIntTypes t))
        (find_type (sizeof_size_t t) 0 (sIntTypes t)) a (malloc_0_strategy ptrA ptrB)) (max_sizeof t) None = (Some cfg, fin)"
    by (auto simp: createconf_def Let_def split: if_splits)
  from align_loop_result [OF this] show ?thesis by auto
qed

text \<open>C34: The file \<open>createconf\<close> leaves behind is the one for the smallest alignment, counted down from
  the largest by halving, at which every test so far passed; it is complete even if the next
  test kills the process.\<close>

theorem createconf_alignment:
  assumes "createconf t b date pagesize ptrA ptrB = Some (Some cfg, fin)"
  shows "\<exists>k. cfg = writeFile t b date pagesize (find_type (sizeof_ptr t) 0 (sIntTypes t))
        (find_type (sizeof_size_t t) 0 (sIntTypes t)) (max_sizeof t div 2 ^ k) (malloc_0_strategy ptrA ptrB) \<and>
      (\<forall>j \<le> k. testAlignment t (max_sizeof t div 2 ^ j) (max_sizeof t)) \<and>
      (if fin then max_sizeof t div 2 ^ k \<le> 1
       else 0 < max_sizeof t div 2 ^ Suc k \<and> \<not> testAlignment t (max_sizeof t div 2 ^ Suc k) (max_sizeof t))"
  using createconf_result [OF assms] by blast

text \<open>A 64-bit machine on which an access is aligned to its size, up to eight bytes.\<close>

definition sample_target :: target where
  "sample_target = \<lparr>sizeof_ulong = 8, sizeof_ullong = 8, sizeof_fast32 = 8, sizeof_fast64 = 8, sizeof_ptr = 8,
     sizeof_size_t = 8, sizeof_ushort = 2, sizeof_uint = 4, sizeof_float = 4, sizeof_double = 8, sizeof_ldouble = 16,
     have_c99 = True, gnuc = True, initattr_ok = True, buffer = 4096,
     access_ok = (\<lambda>sz a. a mod min sz 8 = 0)\<rparr>"

definition sample_cfg :: "string list" where
  "sample_cfg = writeFile sample_target (\<lambda>_. False) ''Jan  1 2024'' 4096 (Some 0) (Some 0) 8 3"

lemma sample_offsets: "[0 ..< 16] = [0, 1, 2, 3, 4, 5, 6, 7, 8, 9, 10, 11, 12, 13, 14, 15]"
  by (simp add: upt_rec)

lemma sample_tests:
  "max_sizeof sample_target = 16" "testAlignment sample_target 16 16" "testAlignment sample_target 8 16"
  "\<not> testAlignment sample_target 4 16"
  by (simp_all add: max_sizeof_def sIntTypes_def testAlignment_def accesses_def sample_target_def Let_def sample_offsets)

lemma sample_createconf:
  "createconf sample_target (\<lambda>_. False) ''Jan  1 2024'' 4096 1000 2000 = Some (Some sample_cfg, False)"
proof -
  have f: "find_type (sizeof_ptr sample_target) 0 (sIntTypes sample_target) = Some 0"
    "find_type (sizeof_size_t sample_target) 0 (sIntTypes sample_target) = Some 0"
    by (simp_all add: sIntTypes_def sample_target_def)
  show ?thesis
    by (simp add: createconf_def f sample_tests align_loop.simps [of _ _ 16] align_loop.simps [of _ _ 8]
        align_loop.simps [of _ _ 4] sample_cfg_def malloc_0_strategy_def Let_def)
qed

theorem createconf_alignment_witness:
  "\<exists>k. sample_cfg = writeFile sample_target (\<lambda>_. False) ''Jan  1 2024'' 4096
        (find_type (sizeof_ptr sample_target) 0 (sIntTypes sample_target))
        (find_type (sizeof_size_t sample_target) 0 (sIntTypes sample_target))
        (max_sizeof sample_target div 2 ^ k) (malloc_0_strategy 1000 2000) \<and>
      (\<forall>j \<le> k. testAlignment sample_target (max_sizeof sample_target div 2 ^ j) (max_sizeof sample_target)) \<and>
      (if False then max_sizeof sample_target div 2 ^ k \<le> 1
       else 0 < max_sizeof sample_target div 2 ^ Suc k \<and>
         \<not> testAlignment sample_target (max_sizeof sample_target div 2 ^ Suc k) (max_sizeof sample_target))"
  by (rule createconf_alignment [OF sample_createconf])

section \<open>What a compiler reads in the file\<close>

text \<open>The part of the C preprocessor the file uses: conditionals on whether a macro is defined, and
  definitions.  A conditional is the pair of whether its current branch is read and whether no
  later branch can be.\<close>

datatype directive =
  Ifdef string | Ifndef string | Elif_defined string | Else | Endif | Define string string | Undef string | Other

fun strip :: "string \<Rightarrow> string \<Rightarrow> string option" where
  "strip [] s = Some s"
| "strip (p # ps) [] = None"
| "strip (p # ps) (c # cs) = (if p = c then strip ps cs else None)"

definition parse_line :: "string \<Rightarrow> directive" where
  "parse_line s =
     (case strip ''#ifdef '' s of Some n \<Rightarrow> Ifdef n | None \<Rightarrow>
      case strip ''#ifndef '' s of Some n \<Rightarrow> Ifndef n | None \<Rightarrow>
      case strip ''#elif defined('' s of Some n \<Rightarrow> Elif_defined (takeWhile (\<lambda>c. c \<noteq> CHR '')'') n) | None \<Rightarrow>
      case strip ''#else'' s of Some n \<Rightarrow> Else | None \<Rightarrow>
      case strip ''#endif'' s of Some n \<Rightarrow> Endif | None \<Rightarrow>
      case strip ''#define '' s of
        Some r \<Rightarrow> Define (takeWhile (\<lambda>c. c \<noteq> CHR '' '') r) (drop 1 (dropWhile (\<lambda>c. c \<noteq> CHR '' '') r)) | None \<Rightarrow>
      case strip ''#undef '' s of Some n \<Rightarrow> Undef n | None \<Rightarrow> Other)"

type_synonym pp_state = "(string \<Rightarrow> string option) \<times> (bool \<times> bool) list"

definition reading :: "(bool \<times> bool) list \<Rightarrow> bool" where
  "reading st \<longleftrightarrow> st = [] \<or> fst (hd st)"

fun pp :: "directive \<Rightarrow> pp_state \<Rightarrow> pp_state option" where
  "pp (Ifdef n) (m, st) = Some (m, (reading st \<and> m n \<noteq> None, \<not> reading st \<or> m n \<noteq> None) # st)"
| "pp (Ifndef n) (m, st) = Some (m, (reading st \<and> m n = None, \<not> reading st \<or> m n = None) # st)"
| "pp (Elif_defined n) (m, (a, d) # st) = Some (m, (\<not> d \<and> m n \<noteq> None, d \<or> m n \<noteq> None) # st)"
| "pp Else (m, (a, d) # st) = Some (m, (\<not> d, True) # st)"
| "pp Endif (m, c # st) = Some (m, st)"
| "pp (Define n v) (m, st) = Some (if reading st then m(n := Some v) else m, st)"
| "pp (Undef n) (m, st) = Some (if reading st then m(n := None) else m, st)"
| "pp Other x = Some x"
| "pp d (m, []) = None"

fun preprocess :: "string list \<Rightarrow> pp_state \<Rightarrow> pp_state option" where
  "preprocess [] x = Some x"
| "preprocess (l # ls) x = (case pp (parse_line l) x of None \<Rightarrow> None | Some y \<Rightarrow> preprocess ls y)"

lemma preprocess_append [simp]:
  "preprocess (ls @ ks) x = (case preprocess ls x of None \<Rightarrow> None | Some y \<Rightarrow> preprocess ks y)"
  by (induction ls arbitrary: x) (auto split: option.splits)

definition read_dec :: "string \<Rightarrow> nat" where
  "read_dec s = foldl (\<lambda>a c. a * 10 + (of_char c - 48)) 0 s"

lemma read_dec_dec: "read_dec (dec n) = n"
proof -
  have "foldl (\<lambda>a d. a * 10 + (of_char (char_of (48 + d) :: char) - 48)) 0 (digits 10 n) = foldl (\<lambda>a d. a * 10 + d) 0 (digits 10 n)"
    using digits_less [of 10 _ n] by (intro foldl_cong_set) fastforce
  then show ?thesis by (simp add: read_dec_def dec_def foldl_map digits_value)
qed

definition switched :: "bool \<Rightarrow> string \<Rightarrow> (string \<Rightarrow> string option) \<Rightarrow> string \<Rightarrow> string option" where
  "switched on n m = m(n := if on then Some (case m n of Some v \<Rightarrow> v | None \<Rightarrow> []) else None)"

lemma preprocess_flag:
  assumes "CHR '' '' \<notin> set n"
  shows "preprocess (flag on n) (m, st) = Some (if reading st then switched on n m else m, st)"
proof -
  have n: "takeWhile (\<lambda>c. c \<noteq> CHR '' '') n = n" "dropWhile (\<lambda>c. c \<noteq> CHR '' '') n = []"
    using assms by (auto simp: takeWhile_eq_all_conv dropWhile_eq_Nil_conv)
  have p: "parse_line (''#ifdef '' @ n) = Ifdef n" "parse_line (''#ifndef '' @ n) = Ifndef n"
    "parse_line (''#define '' @ n) = Define n []" "parse_line (''#undef '' @ n) = Undef n"
    "parse_line ''#endif'' = Endif" "parse_line [] = Other"
    by (simp_all add: parse_line_def n)
  show ?thesis
    by (cases "m n"; cases on; cases "reading st")
      (simp_all add: flag_def p switched_def del: append.simps, simp_all add: reading_def fun_upd_idem)
qed


text \<open>A part of the file that is not read is skipped; the flags of a section act one after the other.\<close>

definition section_flags :: "(string \<times> bool) list \<Rightarrow> string list" where
  "section_flags fs = concat (map (\<lambda>(n, on). flag on n) fs)"

definition switch_all :: "(string \<times> bool) list \<Rightarrow> (string \<Rightarrow> string option) \<Rightarrow> string \<Rightarrow> string option" where
  "switch_all fs m = fold (\<lambda>(n, on). switched on n) fs m"

lemma preprocess_section_flags:
  "list_all (\<lambda>(n, on). CHR '' '' \<notin> set n) fs \<Longrightarrow>
   preprocess (section_flags fs) (m, st) = Some (if reading st then switch_all fs m else m, st)"
proof (induction fs arbitrary: m)
  case Nil
  then show ?case by (simp add: section_flags_def switch_all_def)
next
  case (Cons f fs)
  obtain n on where f: "f = (n, on)" by (cases f)
  have "section_flags (f # fs) = flag on n @ section_flags fs" by (simp add: section_flags_def f)
  then show ?case using Cons by (simp add: f preprocess_flag switch_all_def)
qed

text \<open>The lines of the sections that are not flags.\<close>

lemma parse_lines:
  "parse_line ''#ifdef DUMA_SO_LIBRARY'' = Ifdef ''DUMA_SO_LIBRARY''"
  "parse_line ''#elif defined(DUMA_DLL_LIBRARY)'' = Elif_defined ''DUMA_DLL_LIBRARY''"
  "parse_line ''#elif defined(DUMA_DETOURS)'' = Elif_defined ''DUMA_DETOURS''"
  "parse_line ''#define DUMA_SKIP_SETUP 1'' = Define ''DUMA_SKIP_SETUP'' ''1''"
  "parse_line ''#define DUMA_NO_GLOBAL_MALLOC_FREE 1'' = Define ''DUMA_NO_GLOBAL_MALLOC_FREE'' ''1''"
  "parse_line ''#define DUMA_EXPLICIT_INIT 1'' = Define ''DUMA_EXPLICIT_INIT'' ''1''"
  "parse_line ''#else'' = Else" "parse_line ''#endif'' = Endif" "parse_line [] = Other"
  "parse_line ''#ifndef _DUMA_CONFIG_H_'' = Ifndef ''_DUMA_CONFIG_H_''"
  "parse_line ''#define _DUMA_CONFIG_H_'' = Define ''_DUMA_CONFIG_H_'' []"
  "parse_line (''#define DUMA_PAGE_SIZE '' @ v) = Define ''DUMA_PAGE_SIZE'' v"
  "parse_line (''#define DUMA_MIN_ALIGNMENT '' @ v) = Define ''DUMA_MIN_ALIGNMENT'' v"
  "parse_line (''#define DUMA_DEFAULT_MALLOC_0_STRATEGY '' @ v) = Define ''DUMA_DEFAULT_MALLOC_0_STRATEGY'' v"
  "parse_line ''#define DUMA_GNU_INIT_ATTR 1'' = Define ''DUMA_GNU_INIT_ATTR'' ''1''"
  "parse_line ''#endif /* _DUMA_CONFIG_H_ */'' = Endif"
  "parse_line (CHR ''/'' # s) = Other" "parse_line (CHR '' '' # s) = Other" "parse_line (CHR ''t'' # s) = Other"
  "parse_line ''#include <stdint.h>'' = Other"
  by (simp_all add: parse_line_def)

definition regular_flags :: "(string \<Rightarrow> bool) \<Rightarrow> (string \<times> bool) list" where
  "regular_flags b =
     [(''DUMA_NO_GLOBAL_MALLOC_FREE'', b ''DUMA_NO_GLOBAL_MALLOC_FREE''), (''DUMA_EXPLICIT_INIT'', b ''DUMA_EXPLICIT_INIT''),
      (''DUMA_NO_THREAD_SAFETY'', b ''DUMA_NO_THREAD_SAFETY''), (''DUMA_NO_CPP_SUPPORT'', b ''DUMA_LIB_NO_CPP_SUPPORT''),
      (''DUMA_NO_LEAKDETECTION'', b ''DUMA_LIB_NO_LEAKDETECTION''), (''DUMA_PREFER_ATEXIT'', b ''DUMA_LIB_PREFER_ATEXIT''),
      (''DUMA_PREFER_GETENV'', b ''DUMA_LIB_PREFER_GETENV''), (''DUMA_OLD_NEW_MACRO'', b ''DUMA_OLD_NEW_MACRO''),
      (''DUMA_OLD_DEL_MACRO'', b ''DUMA_OLD_DEL_MACRO''), (''DUMA_NO_STRERROR'', b ''DUMA_NO_STRERROR''),
      (''DUMA_NO_HANG_MSG'', b ''DUMA_LIB_NO_HANG_MSG'')]"

definition so_flags :: "(string \<Rightarrow> bool) \<Rightarrow> (string \<times> bool) list" where
  "so_flags b =
     [(''DUMA_NO_GLOBAL_MALLOC_FREE'', False), (''DUMA_EXPLICIT_INIT'', False), (''DUMA_NO_THREAD_SAFETY'', False),
      (''DUMA_SEMAPHORES'', b ''DUMA_SEMAPHORES''), (''DUMA_NO_CPP_SUPPORT'', b ''DUMA_SO_NO_CPP_SUPPORT''),
      (''DUMA_NO_LEAKDETECTION'', b ''DUMA_SO_NO_LEAKDETECTION''), (''DUMA_PREFER_ATEXIT'', b ''DUMA_SO_PREFER_ATEXIT''),
      (''DUMA_PREFER_GETENV'', b ''DUMA_SO_PREFER_GETENV''), (''DUMA_OLD_NEW_MACRO'', False), (''DUMA_OLD_DEL_MACRO'', False),
      (''DUMA_NO_STRERROR'', b ''DUMA_NO_STRERROR''), (''DUMA_NO_HANG_MSG'', b ''DUMA_SO_NO_HANG_MSG'')]"

definition dll_flags :: "(string \<Rightarrow> bool) \<Rightarrow> (string \<times> bool) list" where
  "dll_flags b =
     [(''DUMA_NO_THREAD_SAFETY'', False), (''DUMA_NO_CPP_SUPPORT'', b ''DUMA_SO_NO_CPP_SUPPORT''),
      (''DUMA_NO_LEAKDETECTION'', b ''DUMA_SO_NO_LEAKDETECTION''), (''DUMA_PREFER_ATEXIT'', b ''DUMA_SO_PREFER_ATEXIT''),
      (''DUMA_PREFER_GETENV'', b ''DUMA_SO_PREFER_GETENV''), (''DUMA_OLD_NEW_MACRO'', False), (''DUMA_OLD_DEL_MACRO'', False),
      (''DUMA_NO_HANG_MSG'', b ''DUMA_SO_NO_HANG_MSG'')]"

lemma no_blanks:
  "list_all (\<lambda>(n, on). CHR '' '' \<notin> set n) (regular_flags b)" "list_all (\<lambda>(n, on). CHR '' '' \<notin> set n) (so_flags b)"
  "list_all (\<lambda>(n, on). CHR '' '' \<notin> set n) (dll_flags b)"
  by (simp_all add: regular_flags_def so_flags_def dll_flags_def)

lemma sections:
  "so_section b = [''#ifdef DUMA_SO_LIBRARY'', ''''] @ section_flags (so_flags b)"
  "dll_section b = [''#elif defined(DUMA_DLL_LIBRARY)'', '''', ''#define DUMA_SKIP_SETUP 1'',
      ''#define DUMA_NO_GLOBAL_MALLOC_FREE 1'', ''#define DUMA_EXPLICIT_INIT 1''] @ section_flags (dll_flags b)"
  "detours_section b = [''#elif defined(DUMA_DETOURS)'', '''', ''#define DUMA_SKIP_SETUP 1'',
      ''#define DUMA_NO_GLOBAL_MALLOC_FREE 1'', ''#define DUMA_EXPLICIT_INIT 1''] @ section_flags (dll_flags b)"
  "regular_section b = [''#else'', ''''] @ section_flags (regular_flags b) @ [''#endif'', '''', '''']"
  by (simp_all add: so_section_def dll_section_def detours_section_def regular_section_def section_flags_def
      so_flags_def dll_flags_def regular_flags_def)

text \<open>The four sections: read by nobody when the file has been read before, and otherwise by one of the
  four kinds of library.\<close>

definition all_sections :: "(string \<Rightarrow> bool) \<Rightarrow> string list" where
  "all_sections b = so_section b @ dll_section b @ detours_section b @ regular_section b"

lemma reading_simps [simp]: "reading []" "reading ((a, d) # st) = a"
  by (simp_all add: reading_def)

lemma preprocess_sections:
  "preprocess (all_sections b) (m, st) =
     Some (if \<not> reading st then m
           else if m ''DUMA_SO_LIBRARY'' \<noteq> None then switch_all (so_flags b) m
           else if m ''DUMA_DLL_LIBRARY'' \<noteq> None \<or> m ''DUMA_DETOURS'' \<noteq> None
           then switch_all (dll_flags b) (m(''DUMA_SKIP_SETUP'' \<mapsto> ''1'', ''DUMA_NO_GLOBAL_MALLOC_FREE'' \<mapsto> ''1'', ''DUMA_EXPLICIT_INIT'' \<mapsto> ''1''))
           else switch_all (regular_flags b) m, st)"
  by (cases "reading st"; cases "m ''DUMA_SO_LIBRARY''"; cases "m ''DUMA_DLL_LIBRARY''"; cases "m ''DUMA_DETOURS''")
    (simp_all add: all_sections_def sections parse_lines preprocess_section_flags no_blanks)

text \<open>What is defined after the flags have been switched.\<close>

lemma switch_all_other: "n \<notin> fst ` set fs \<Longrightarrow> switch_all fs m n = m n"
  by (induction fs arbitrary: m) (auto simp: switch_all_def switched_def)

lemma switch_all_flag: "distinct (map fst fs) \<Longrightarrow> (n, on) \<in> set fs \<Longrightarrow> (switch_all fs m n \<noteq> None) = on"
proof (induction fs arbitrary: m)
  case (Cons f fs)
  obtain k b where f: "f = (k, b)" by (cases f)
  have u: "switch_all (f # fs) m = switch_all fs (switched b k m)" by (simp add: switch_all_def f)
  show ?case
  proof (cases "(n, on) = f")
    case True
    with Cons.prems(1) f have "n \<notin> fst ` set fs" by auto
    then show ?thesis using True f unfolding u by (simp add: switch_all_other switched_def)
  qed (use Cons u in auto)
qed simp

lemma distinct_flags: "distinct (map fst (regular_flags b))" "distinct (map fst (so_flags b))"
  by (simp_all add: regular_flags_def so_flags_def)

text \<open>The macros that hold values.\<close>

definition values_defined :: "target \<Rightarrow> nat \<Rightarrow> nat \<Rightarrow> nat \<Rightarrow> (string \<Rightarrow> string option) \<Rightarrow> string \<Rightarrow> string option" where
  "values_defined t pagesize alignment strategy m =
     (let m = m(''DUMA_PAGE_SIZE'' \<mapsto> dec pagesize, ''DUMA_MIN_ALIGNMENT'' \<mapsto> dec alignment);
          m = (if initattr_ok t then m(''DUMA_GNU_INIT_ATTR'' \<mapsto> ''1'') else m)
      in m(''DUMA_DEFAULT_MALLOC_0_STRATEGY'' \<mapsto> dec strategy))"

lemma preprocess_values:
  "preprocess (value_section t pagesize addrIdx sizeIdx alignment strategy) (m, c # st) =
     Some (if reading (c # st) then values_defined t pagesize alignment strategy m else m, st)"
  by (cases c; cases addrIdx; cases sizeIdx)
    (simp_all add: value_section_def values_defined_def parse_lines [simplified] Let_def)

lemma preprocess_file:
  "preprocess (writeFile t b date pagesize addrIdx sizeIdx alignment strategy) (m, []) =
     Some (if m ''_DUMA_CONFIG_H_'' = None
           then values_defined t pagesize alignment strategy
                  (fst (the (preprocess (all_sections b) (m(''_DUMA_CONFIG_H_'' \<mapsto> []), []))))
           else m, [])"
proof -
  have "writeFile t b date pagesize addrIdx sizeIdx alignment strategy =
      file_head date @ all_sections b @ value_section t pagesize addrIdx sizeIdx alignment strategy"
    by (simp add: writeFile_def all_sections_def)
  moreover have "preprocess (file_head date) (m, []) =
      Some (if m ''_DUMA_CONFIG_H_'' = None then m(''_DUMA_CONFIG_H_'' \<mapsto> []) else m,
        [(m ''_DUMA_CONFIG_H_'' = None, m ''_DUMA_CONFIG_H_'' = None)])"
    by (simp add: file_head_def parse_lines [simplified])
  ultimately show ?thesis
    by (cases "m ''_DUMA_CONFIG_H_''") (simp_all add: preprocess_sections preprocess_values)
qed


section \<open>The library built with the file\<close>

text \<open>The constants \<open>duma.c\<close> takes from \<open>duma_config.h\<close>.\<close>

definition configured :: "(string \<Rightarrow> string option) \<Rightarrow> platform \<Rightarrow> platform" where
  "configured m pf =
     pf\<lparr>DUMA_PAGE_SIZE := of_nat (case m ''DUMA_PAGE_SIZE'' of Some v \<Rightarrow> read_dec v | None \<Rightarrow> 0),
        DUMA_MIN_ALIGNMENT := of_nat (case m ''DUMA_MIN_ALIGNMENT'' of Some v \<Rightarrow> read_dec v | None \<Rightarrow> 0)\<rparr>"

lemma scast_pow2:
  assumes "k < 31" shows "(scast (2 ^ k :: u32) :: u64) = 2 ^ k"
proof -
  have "(2 :: int) ^ k < 2 ^ 31" using assms by (intro power_strict_increasing) auto
  then have "sint (word_of_int (2 ^ k) :: u32) = 2 ^ k"
    unfolding sint_uint uint_word_of_int by (simp add: signed_take_bit_int_eq_self order_trans [of _ 0])
  then have "(scast (word_of_int (2 ^ k) :: u32) :: u64) = word_of_int (2 ^ k)" by (simp only: scast_eq)
  then show ?thesis by simp
qed

lemma preprocess_fresh:
  "m ''_DUMA_CONFIG_H_'' = None \<Longrightarrow>
   \<exists>m'. preprocess (writeFile t b date pagesize addrIdx sizeIdx alignment strategy) (m, []) = Some (m', []) \<and>
     m' ''DUMA_PAGE_SIZE'' = Some (dec pagesize) \<and> m' ''DUMA_MIN_ALIGNMENT'' = Some (dec alignment)"
  by (simp add: preprocess_file values_defined_def Let_def)

text \<open>C36: When the largest type of the machine has a power of two as its size and fits into a page, the
  library compiled with the file that \<open>createconf\<close> leaves behind meets the assumptions under which the
  constructor brings it up, whatever accesses the processor faults on.\<close>

theorem createconf_configures:
  assumes "createconf t b date (psz pf) ptrA ptrB = Some (Some cfg, fin)"
    and "max_sizeof t = 2 ^ j" and "j < 31" and "2 ^ j \<le> psz pf"
    and "is_pow2 (os_pagesize pf)" and "2 ^ 12 \<le> psz pf" and "psz pf \<le> 2 ^ 20"
    and "m ''_DUMA_CONFIG_H_'' = None" and "preprocess cfg (m, []) = Some (m', st)"
  shows "page_ok (configured m' pf) \<and> min_alignment_ok (configured m' pf)"
proof -
  obtain k where cfg: "cfg = writeFile t b date (psz pf) (find_type (sizeof_ptr t) 0 (sIntTypes t))
        (find_type (sizeof_size_t t) 0 (sIntTypes t)) (2 ^ j div 2 ^ k) (malloc_0_strategy ptrA ptrB)"
    and pos: "0 < (2 :: nat) ^ j div 2 ^ k"
    using createconf_result [OF assms(1)] assms(2) by (auto split: if_splits)
  have "k \<le> j"
  proof (rule ccontr)
    assume "\<not> k \<le> j"
    then have "(2 :: nat) ^ j < 2 ^ k" by simp
    with pos show False by simp
  qed
  then have a: "(2 :: nat) ^ j div 2 ^ k = 2 ^ (j - k)" by (simp add: power_diff)
  have m': "m' ''DUMA_PAGE_SIZE'' = Some (dec (psz pf))" "m' ''DUMA_MIN_ALIGNMENT'' = Some (dec (2 ^ (j - k)))"
    using preprocess_fresh [of m, OF assms(8)] assms(9) unfolding cfg a by (metis Pair_inject option.inject)+
  have s: "(scast (2 ^ (j - k) :: u32) :: u64) = 2 ^ (j - k)" using assms(3) by (intro scast_pow2) simp
  have "(2 :: nat) ^ (j - k) \<le> 2 ^ j" by (intro power_increasing) auto
  then have "(2 :: nat) ^ (j - k) \<le> psz pf" using assms(4) by (rule order_trans)
  moreover have "unat (2 ^ (j - k) :: u64) = 2 ^ (j - k)" using assms(3) by (intro unat_pow2) simp
  ultimately show ?thesis
    using assms(3-7) by (simp add: configured_def m' read_dec_dec page_ok_def min_alignment_ok_def s is_pow2_exp)
qed

text \<open>On a machine whose largest type has twelve bytes, and which faults on odd addresses, the file
  asks for an alignment of six bytes, which is no power of two: the constructor's assumption
  fails.\<close>

definition sample_target12 :: target where
  "sample_target12 = sample_target\<lparr>sizeof_ulong := 4, sizeof_fast32 := 4, sizeof_ptr := 4, sizeof_size_t := 4,
     sizeof_ldouble := 12, access_ok := (\<lambda>sz a. a mod min sz 2 = 0)\<rparr>"

definition sample_cfg12 :: "string list" where
  "sample_cfg12 = writeFile sample_target12 (\<lambda>_. False) ''Jan  1 2024'' 4096 (Some 0) (Some 0) 6 3"

lemma sample_tests12:
  "max_sizeof sample_target12 = 12" "testAlignment sample_target12 12 12" "testAlignment sample_target12 6 12"
  "\<not> testAlignment sample_target12 3 12"
proof -
  have "[0 ..< 12] = [0, 1, 2, 3, 4, 5, 6, 7, 8, 9, 10, 11]" by (simp add: upt_rec)
  then show "max_sizeof sample_target12 = 12" "testAlignment sample_target12 12 12" "testAlignment sample_target12 6 12"
    "\<not> testAlignment sample_target12 3 12"
    by (simp_all add: max_sizeof_def sIntTypes_def testAlignment_def accesses_def sample_target12_def sample_target_def Let_def)
qed

lemma sample_createconf12:
  "createconf sample_target12 (\<lambda>_. False) ''Jan  1 2024'' 4096 1000 2000 = Some (Some sample_cfg12, False)"
proof -
  have f: "find_type (sizeof_ptr sample_target12) 0 (sIntTypes sample_target12) = Some 0"
    "find_type (sizeof_size_t sample_target12) 0 (sIntTypes sample_target12) = Some 0"
    by (simp_all add: sIntTypes_def sample_target12_def sample_target_def)
  show ?thesis
    by (simp add: createconf_def f sample_tests12 align_loop.simps [of _ _ 12] align_loop.simps [of _ _ 6]
        align_loop.simps [of _ _ 3] sample_cfg12_def malloc_0_strategy_def Let_def)
qed

theorem createconf_no_power_of_two:
  "\<exists>m'. createconf sample_target12 (\<lambda>_. False) ''Jan  1 2024'' 4096 1000 2000 = Some (Some sample_cfg12, False) \<and>
     preprocess sample_cfg12 (Map.empty, []) = Some (m', []) \<and> \<not> min_alignment_ok (configured m' sample_pf)"
proof -
  obtain m' where m': "preprocess sample_cfg12 (Map.empty, []) = Some (m', [])" "m' ''DUMA_MIN_ALIGNMENT'' = Some (dec 6)"
    using preprocess_fresh [of Map.empty] unfolding sample_cfg12_def by blast
  have "\<not> is_pow2 (6 :: u64)" by (simp add: is_pow2_def)
  then have "\<not> min_alignment_ok (configured m' sample_pf)"
    by (simp add: min_alignment_ok_def configured_def m'(2) read_dec_dec)
  with m'(1) sample_createconf12 show ?thesis by blast
qed


theorem createconf_configures_witness:
  "\<exists>m'. preprocess sample_cfg (Map.empty, []) = Some (m', []) \<and>
     page_ok (configured m' sample_pf) \<and> min_alignment_ok (configured m' sample_pf)"
proof -
  obtain m' where m': "preprocess sample_cfg (Map.empty, []) = Some (m', [])"
    using preprocess_fresh [of Map.empty] unfolding sample_cfg_def by blast
  have p: "psz sample_pf = 4096" "is_pow2 (os_pagesize sample_pf)"
    by (simp_all add: sample_pf_def is_pow2_def)
  have "page_ok (configured m' sample_pf) \<and> min_alignment_ok (configured m' sample_pf)"
    by (rule createconf_configures [OF sample_createconf [folded p(1)], of 4 Map.empty])
      (use m' p in \<open>simp_all add: sample_tests\<close>)
  with m' show ?thesis by blast
qed

end
