(* ===== verification/Duma_Threads.thy ===== *)
theory Duma_Threads
  imports Duma_Sample
begin

text \<open>
  The lock of \<open>sem_inc.c\<close> when several threads call it.

  \<open>Duma_Sem\<close> describes the calls as one thread sees them.  Here every read and write of a
  shared variable and every operation of the mutex is a step of its own, and the threads
  interleave freely.  A thread is identified by its \<open>pthread_self\<close>, which is not null; it keeps
  its place in the code and how often it has entered.  Clients are balanced: a thread calls
  \<open>DUMA_rel_sem\<close> only after \<open>DUMA_get_sem\<close>.
\<close>

section \<open>The steps\<close>

datatype pc =
    Idle
  | Try | Test_id | Wait | Set_id | Set_nr | Add_nr | Add_depth
  | Test_depth | Sub_depth | Sub_nr | Test_nr | Clear_id | Unlock
  | Stopped

type_synonym threads = "nat \<Rightarrow> pc \<times> nat"

text \<open>\<open>lock\<close>, then the increment of \<open>semDepth\<close>; the test of \<open>semDepth\<close> and its decrement, then \<open>unlock\<close>.\<close>

inductive thread_step :: "nat \<Rightarrow> sem_state \<times> pc \<times> nat \<Rightarrow> sem_state \<times> pc \<times> nat \<Rightarrow> bool" for t where
  get: "\<not> semInInit m \<Longrightarrow> semInited m \<Longrightarrow> thread_step t (m, Idle, n) (m, Try, n)"
| try_free: "mutex_owner m = None \<Longrightarrow> thread_step t (m, Try, n) (m\<lparr>mutex_owner := Some t\<rparr>, Set_id, n)"
| try_busy: "mutex_owner m \<noteq> None \<Longrightarrow> thread_step t (m, Try, n) (m, Test_id, n)"
| own: "mutextid m = t \<Longrightarrow> thread_step t (m, Test_id, n) (m, Add_nr, n)"
| other: "mutextid m \<noteq> t \<Longrightarrow> thread_step t (m, Test_id, n) (m, Wait, n)"
| wait: "mutex_owner m = None \<Longrightarrow> thread_step t (m, Wait, n) (m\<lparr>mutex_owner := Some t\<rparr>, Set_id, n)"
| set_id: "thread_step t (m, Set_id, n) (m\<lparr>mutextid := t\<rparr>, Set_nr, n)"
| set_nr: "thread_step t (m, Set_nr, n) (m\<lparr>locknr := 1\<rparr>, Add_depth, n)"
| add_nr: "thread_step t (m, Add_nr, n) (m\<lparr>locknr := locknr m + 1\<rparr>, Add_depth, n)"
| add_depth: "thread_step t (m, Add_depth, n) (m\<lparr>semDepth := semDepth m + 1\<rparr>, Idle, Suc n)"
| rel: "\<not> semInInit m \<Longrightarrow> semInited m \<Longrightarrow> 0 < n \<Longrightarrow> thread_step t (m, Idle, n) (m, Test_depth, n)"
| not_locked: "semDepth m \<le> 0 \<Longrightarrow> thread_step t (m, Test_depth, n) (m, Stopped, n)"
| locked: "0 < semDepth m \<Longrightarrow> thread_step t (m, Test_depth, n) (m, Sub_depth, n)"
| sub_depth: "thread_step t (m, Sub_depth, n) (m\<lparr>semDepth := semDepth m - 1\<rparr>, Sub_nr, n - 1)"
| sub_nr: "thread_step t (m, Sub_nr, n) (m\<lparr>locknr := locknr m - 1\<rparr>, Test_nr, n)"
| nr_left: "locknr m \<noteq> 0 \<Longrightarrow> thread_step t (m, Test_nr, n) (m, Idle, n)"
| nr_zero: "locknr m = 0 \<Longrightarrow> thread_step t (m, Test_nr, n) (m, Clear_id, n)"
| clear_id: "thread_step t (m, Clear_id, n) (m\<lparr>mutextid := 0\<rparr>, Unlock, n)"
| unlock: "thread_step t (m, Unlock, n) (m\<lparr>mutex_owner := None\<rparr>, Idle, n)"

inductive_cases thread_stepE: "thread_step t (m, p, n) s'"
inductive_simps wait_step: "thread_step t (m, Wait, n) s'"

inductive sys_step :: "sem_state \<times> threads \<Rightarrow> sem_state \<times> threads \<Rightarrow> bool" where
  sys_step: "t \<noteq> 0 \<Longrightarrow> thread_step t (m, ls t) (m', l) \<Longrightarrow> sys_step (m, ls) (m', ls(t := l))"

definition unlocked :: "sem_state \<Rightarrow> bool" where
  "unlocked m \<longleftrightarrow> mutex_owner m = None \<and> mutextid m = 0 \<and> locknr m = 0 \<and> \<not> semInInit m \<and> semInited m \<and> semDepth m = 0"

definition reachable :: "sem_state \<times> threads \<Rightarrow> bool" where
  "reachable s \<longleftrightarrow> (\<exists>m. unlocked m \<and> sys_step\<^sup>*\<^sup>* (m, \<lambda>_. (Idle, 0)) s)"

section \<open>The invariant\<close>

text \<open>What holds of the shared variables while a thread that owns the mutex is at each place; a thread
  that does not own it is outside, or on its way in.\<close>

fun owner_ok :: "nat \<Rightarrow> sem_state \<Rightarrow> pc \<Rightarrow> nat \<Rightarrow> bool" where
  "owner_ok t m Set_id n \<longleftrightarrow> n = 0 \<and> mutextid m = 0 \<and> locknr m = 0 \<and> semDepth m = 0"
| "owner_ok t m Set_nr n \<longleftrightarrow> n = 0 \<and> mutextid m = t \<and> locknr m = 0 \<and> semDepth m = 0"
| "owner_ok t m Add_depth n \<longleftrightarrow> mutextid m = t \<and> locknr m = int n + 1 \<and> semDepth m = int n"
| "owner_ok t m Sub_nr n \<longleftrightarrow> mutextid m = t \<and> locknr m = int n + 1 \<and> semDepth m = int n"
| "owner_ok t m Test_nr n \<longleftrightarrow> mutextid m = t \<and> locknr m = int n \<and> semDepth m = int n"
| "owner_ok t m Clear_id n \<longleftrightarrow> n = 0 \<and> mutextid m = t \<and> locknr m = 0 \<and> semDepth m = 0"
| "owner_ok t m Unlock n \<longleftrightarrow> n = 0 \<and> mutextid m = 0 \<and> locknr m = 0 \<and> semDepth m = 0"
| "owner_ok t m Wait n \<longleftrightarrow> False"
| "owner_ok t m Stopped n \<longleftrightarrow> False"
| "owner_ok t m p n \<longleftrightarrow> 0 < n \<and> mutextid m = t \<and> locknr m = int n \<and> semDepth m = int n"

definition thread_ok :: "nat \<Rightarrow> sem_state \<Rightarrow> pc \<times> nat \<Rightarrow> bool" where
  "thread_ok t m l \<longleftrightarrow>
     (if mutex_owner m = Some t then owner_ok t m (fst l) (snd l)
      else fst l \<in> {Idle, Try, Test_id, Wait} \<and> snd l = 0)"

definition shared_ok :: "sem_state \<Rightarrow> bool" where
  "shared_ok m \<longleftrightarrow> \<not> semInInit m \<and> semInited m \<and>
     (case mutex_owner m of None \<Rightarrow> mutextid m = 0 \<and> locknr m = 0 \<and> semDepth m = 0 | Some h \<Rightarrow> h \<noteq> 0 \<and> mutextid m \<in> {0, h})"

definition lock_ok :: "sem_state \<times> threads \<Rightarrow> bool" where
  "lock_ok s \<longleftrightarrow> shared_ok (fst s) \<and> (\<forall>t. t \<noteq> 0 \<longrightarrow> thread_ok t (fst s) (snd s t))"

text \<open>A step of a thread: what it may do to the mutex, and that it keeps its own part.\<close>

lemma step_shared:
  assumes "thread_step t (m, p, n) (m', l')" and "shared_ok m" and "thread_ok t m (p, n)" and "t \<noteq> 0"
  shows "shared_ok m'"
  using assms(1)
  by (cases rule: thread_stepE)
    (use assms(2-4) in \<open>auto simp: shared_ok_def thread_ok_def split: if_splits option.splits\<close>)

lemma step_own:
  assumes "thread_step t (m, p, n) (m', l')" and "shared_ok m" and "thread_ok t m (p, n)" and "t \<noteq> 0"
  shows "thread_ok t m' l'"
  using assms(1)
  by (cases rule: thread_stepE)
    (use assms(2-4) in \<open>auto simp: shared_ok_def thread_ok_def split: if_splits option.splits\<close>)

lemma step_other:
  assumes "thread_step t (m, p, n) (m', l')" and "thread_ok t m (p, n)" and "u \<noteq> t" and "thread_ok u m l"
  shows "thread_ok u m' l"
  using assms(1)
  by (cases rule: thread_stepE)
    (use assms(2-4) in \<open>auto simp: thread_ok_def split: if_splits\<close>)

lemma thread_step_ok:
  assumes st: "thread_step t (m, ls t) (m', l')" and ok: "lock_ok (m, ls)" and t: "t \<noteq> 0"
  shows "lock_ok (m', ls(t := l'))"
proof -
  obtain p n where l: "ls t = (p, n)" by (cases "ls t")
  have own: "thread_ok t m (p, n)" using ok t l by (metis lock_ok_def fst_conv snd_conv)
  have sh: "shared_ok m" using ok by (simp add: lock_ok_def)
  note st = st [unfolded l]
  have "thread_ok u m' ((ls(t := l')) u)" if "u \<noteq> 0" for u
    using step_own [OF st sh own t] step_other [OF st own] ok that by (cases "u = t") (simp_all add: lock_ok_def)
  with step_shared [OF st sh own t] show ?thesis by (simp add: lock_ok_def)
qed

lemma steps_ok: "sys_step\<^sup>*\<^sup>* s s' \<Longrightarrow> lock_ok s \<Longrightarrow> lock_ok s'"
proof (induction rule: rtranclp_induct)
  case (step s s')
  from step.hyps(2) step.IH [OF step.prems] show ?case by (cases rule: sys_step.cases) (auto intro: thread_step_ok)
qed simp

lemma reachable_ok: "reachable s \<Longrightarrow> lock_ok s"
proof -
  assume "reachable s"
  then obtain m where m: "unlocked m" "sys_step\<^sup>*\<^sup>* (m, \<lambda>_. (Idle, 0)) s" by (auto simp: reachable_def)
  have "lock_ok (m, \<lambda>_. (Idle, 0))" using m(1) by (simp add: lock_ok_def shared_ok_def thread_ok_def unlocked_def)
  with m(2) show ?thesis by (rule steps_ok)
qed

text \<open>The places at which a thread is past the lock and not yet past the unlock.\<close>

definition inside :: "pc \<times> nat \<Rightarrow> bool" where
  "inside l \<longleftrightarrow> 0 < snd l \<or> fst l \<in> {Set_id, Set_nr, Add_depth, Sub_nr, Test_nr, Clear_id, Unlock}"

text \<open>C13: However the threads interleave, at most one of them is inside the lock; \<open>semDepth\<close> and \<open>locknr\<close>
  count its nested entries whenever it runs the library's code; and no balanced thread is ever
  told that the semaphore is not locked.\<close>

theorem sem_exclusive:
  assumes "reachable (m, ls)"
  shows "(\<forall>t u. t \<noteq> 0 \<and> u \<noteq> 0 \<and> inside (ls t) \<and> inside (ls u) \<longrightarrow> t = u) \<and>
    (\<forall>t n. t \<noteq> 0 \<and> ls t = (Idle, n) \<and> 0 < n \<longrightarrow> mutextid m = t \<and> semDepth m = int n \<and> locknr m = int n) \<and>
    (\<forall>t. t \<noteq> 0 \<longrightarrow> fst (ls t) \<noteq> Stopped)"
proof -
  have ok: "thread_ok t m (ls t)" if "t \<noteq> 0" for t using reachable_ok [OF assms] that by (simp add: lock_ok_def)
  have own: "mutex_owner m = Some t" if "t \<noteq> 0" "inside (ls t)" for t
    using ok [OF that(1)] that(2) by (auto simp: inside_def thread_ok_def split: if_splits)
  have "t = u" if "t \<noteq> 0" "u \<noteq> 0" "inside (ls t)" "inside (ls u)" for t u
    using own [OF that(1,3)] own [OF that(2,4)] by simp
  moreover have "mutextid m = t \<and> semDepth m = int n \<and> locknr m = int n" if "t \<noteq> 0" "ls t = (Idle, n)" "0 < n" for t n
    using ok [OF that(1)] that(2,3) by (simp add: thread_ok_def split: if_splits)
  moreover have "fst (ls t) \<noteq> Stopped" if "t \<noteq> 0" for t
    using ok [OF that] by (cases "ls t") (auto simp: thread_ok_def split: if_splits)
  ultimately show ?thesis by blast
qed

section \<open>Progress\<close>

text \<open>How far a thread inside the lock is from leaving it.\<close>

fun distance :: "pc \<times> nat \<Rightarrow> nat" where
  "distance (Try, n) = 20 * n + 24"
| "distance (Test_id, n) = 20 * n + 23"
| "distance (Add_nr, n) = 20 * n + 22"
| "distance (Set_id, n) = 20 * n + 23"
| "distance (Set_nr, n) = 20 * n + 22"
| "distance (Add_depth, n) = 20 * n + 21"
| "distance (Test_depth, n) = 20 * n - 1"
| "distance (Sub_depth, n) = 20 * n - 2"
| "distance (Sub_nr, n) = 20 * n + 17"
| "distance (Test_nr, n) = 20 * n + 16"
| "distance (Clear_id, n) = 10"
| "distance (Unlock, n) = 9"
| "distance (p, n) = 20 * n"

lemma owner_moves:
  assumes sh: "shared_ok m" and own: "mutex_owner m = Some h" and ok: "owner_ok h m p n"
  shows "\<exists>m' l'. thread_step h (m, p, n) (m', l') \<and> distance l' < distance (p, n)"
proof -
  have "\<not> semInInit m" "semInited m" using sh by (simp_all add: shared_ok_def)
  with own ok show ?thesis
  proof (cases p)
    case Test_nr
    then show ?thesis
      using ok thread_step.nr_left [of m h n] thread_step.nr_zero [of m h n] by (cases "n = 0") fastforce+
  qed (fastforce intro: thread_step.intros)+
qed

text \<open>From every state, the thread inside can leave by steps of its own, and nothing else happens to the
  other threads.\<close>

lemma owner_leaves:
  assumes "lock_ok (m, ls)" and "mutex_owner m = Some h"
  shows "\<exists>m' l'. sys_step\<^sup>*\<^sup>* (m, ls) (m', ls(h := l')) \<and> mutex_owner m' = None"
  using assms
proof (induction "distance (ls h)" arbitrary: m ls rule: less_induct)
  case less
  have h: "h \<noteq> 0" "shared_ok m" using less.prems by (auto simp: lock_ok_def shared_ok_def)
  obtain p n where l: "ls h = (p, n)" by (cases "ls h")
  have "thread_ok h m (ls h)" using less.prems(1) h(1) by (simp add: lock_ok_def)
  then have "owner_ok h m p n" using less.prems(2) by (simp add: thread_ok_def l)
  from owner_moves [OF h(2) less.prems(2) this] obtain m1 l1
    where s: "thread_step h (m, ls h) (m1, l1)" "distance l1 < distance (ls h)" by (auto simp: l)
  have st: "sys_step (m, ls) (m1, ls(h := l1))" using h(1) s(1) by (rule sys_step.intros)
  have ok1: "lock_ok (m1, ls(h := l1))" by (rule thread_step_ok [OF s(1) less.prems(1) h(1)])
  show ?case
  proof (cases "mutex_owner m1")
    case None
    with st show ?thesis by blast
  next
    case (Some k)
    have "k = h" using s(1) less.prems(2) Some unfolding l by (cases rule: thread_stepE) auto
    with less.hyps [OF _ ok1] s(2) Some obtain m' l'
      where "sys_step\<^sup>*\<^sup>* (m1, ls(h := l1)) (m', (ls(h := l1))(h := l'))" "mutex_owner m' = None" by auto
    with st show ?thesis by (metis converse_rtranclp_into_rtranclp fun_upd_upd)
  qed
qed

text \<open>C14: No deadlock: from every reachable state in which a thread waits for the lock, the threads can go
  on so that this thread has it; only the thread that is inside has to move before.\<close>

theorem sem_no_deadlock:
  assumes "reachable (m, ls)" and "t \<noteq> 0" and "ls t = (Wait, n)"
  shows "\<exists>m' ls'. sys_step\<^sup>*\<^sup>* (m, ls) (m', ls') \<and> ls' t = (Set_id, n) \<and> mutex_owner m' = Some t \<and>
    (\<forall>u. u \<noteq> t \<and> mutex_owner m \<noteq> Some u \<longrightarrow> ls' u = ls u)"
proof -
  note ok = reachable_ok [OF assms(1)]
  then have "thread_ok t m (ls t)" using assms(2) by (simp add: lock_ok_def)
  then have nt: "mutex_owner m \<noteq> Some t" using assms(3) by (auto simp: thread_ok_def)
  have go: "sys_step (m1, l1) (m1\<lparr>mutex_owner := Some t\<rparr>, l1(t := (Set_id, n)))"
    if "mutex_owner m1 = None" "l1 t = (Wait, n)" for m1 l1
    using that assms(2) by (intro sys_step.intros) (simp_all add: wait_step)
  show ?thesis
  proof (cases "mutex_owner m")
    case None
    from go [of m ls] assms(3) None show ?thesis
      by (intro exI [of _ "m\<lparr>mutex_owner := Some t\<rparr>"] exI [of _ "ls(t := (Set_id, n))"]) auto
  next
    case (Some h)
    from owner_leaves [OF ok Some] obtain m1 l1 where s: "sys_step\<^sup>*\<^sup>* (m, ls) (m1, ls(h := l1))" "mutex_owner m1 = None" by blast
    have "h \<noteq> t" using Some nt by auto
    with go [OF s(2), of "ls(h := l1)"] assms(3) s(1) Some show ?thesis
      by (intro exI [of _ "m1\<lparr>mutex_owner := Some t\<rparr>"] exI [of _ "(ls(h := l1))(t := (Set_id, n))"])
        (auto intro: rtranclp.rtrancl_into_rtrancl)
  qed
qed

section \<open>One thread alone\<close>

text \<open>A call that is not interrupted does to the shared variables what \<open>Duma_Sem\<close> says.\<close>

lemma thread_stepsI:
  "thread_step t s s1 \<Longrightarrow> (thread_step t)\<^sup>*\<^sup>* s1 s2 \<Longrightarrow> (thread_step t)\<^sup>*\<^sup>* s s2"
  by (rule converse_rtranclp_into_rtranclp)

lemma get_alone:
  assumes "pthread_self pf = t" and "shared_ok m" and "DUMA_get_sem pf m = Inr m'"
    and "mutex_owner m = None \<or> mutextid m = t"
  shows "(thread_step t)\<^sup>*\<^sup>* (m, Idle, n) (m', Idle, Suc n)"
proof -
  have i: "\<not> semInInit m" "semInited m" using assms(2) by (simp_all add: shared_ok_def)
  show ?thesis
  proof (cases "mutex_owner m")
    case None
    with assms(1,3) i have m': "m' = m\<lparr>mutex_owner := Some t, mutextid := t, locknr := 1, semDepth := semDepth m + 1\<rparr>"
      by (auto simp: DUMA_get_sem_def lock_def)
    have "thread_step t (m\<lparr>mutex_owner := Some t, mutextid := t, locknr := 1\<rparr>, Add_depth, n) (m', Idle, Suc n)"
      using thread_step.add_depth [of t "m\<lparr>mutex_owner := Some t, mutextid := t, locknr := 1\<rparr>" n] by (simp add: m')
    then show ?thesis
      by (intro thread_stepsI [OF thread_step.get [OF i]] thread_stepsI [OF thread_step.try_free [OF None]]
          thread_stepsI [OF thread_step.set_id] thread_stepsI [OF thread_step.set_nr]) simp
  next
    case (Some h)
    with assms(1,3,4) i have m': "m' = m\<lparr>locknr := locknr m + 1, semDepth := semDepth m + 1\<rparr>" and id: "mutextid m = t"
      by (auto simp: DUMA_get_sem_def lock_def)
    have "thread_step t (m\<lparr>locknr := locknr m + 1\<rparr>, Add_depth, n) (m', Idle, Suc n)"
      using thread_step.add_depth [of t "m\<lparr>locknr := locknr m + 1\<rparr>" n] by (simp add: m')
    moreover have "mutex_owner m \<noteq> None" using Some by simp
    ultimately show ?thesis
      by (intro thread_stepsI [OF thread_step.get [OF i]] thread_stepsI [OF thread_step.try_busy]
          thread_stepsI [OF thread_step.own [OF id]] thread_stepsI [OF thread_step.add_nr]) simp_all
  qed
qed

lemma rel_alone:
  assumes "shared_ok m" and "DUMA_rel_sem m = Inr m'" and "0 < n"
  shows "(thread_step t)\<^sup>*\<^sup>* (m, Idle, n) (m', Idle, n - 1)"
proof -
  have i: "\<not> semInInit m" "semInited m" using assms(1) by (simp_all add: shared_ok_def)
  with assms(2) have d: "0 < semDepth m" and m': "m' = Duma_Sem.unlock (m\<lparr>semDepth := semDepth m - 1\<rparr>)"
    by (auto simp: DUMA_rel_sem_def split: if_splits)
  let ?m = "m\<lparr>semDepth := semDepth m - 1, locknr := locknr m - 1\<rparr>"
  have "(thread_step t)\<^sup>*\<^sup>* (?m, Test_nr, n - 1) (m', Idle, n - 1)"
  proof (cases "locknr m = 1")
    case True
    then have "thread_step t (?m\<lparr>mutextid := 0\<rparr>, Unlock, n - 1) (m', Idle, n - 1)"
      using thread_step.unlock [of t "?m\<lparr>mutextid := 0\<rparr>" "n - 1"] by (simp add: m' unlock_def)
    then show ?thesis
      using True by (intro thread_stepsI [OF thread_step.nr_zero] thread_stepsI [OF thread_step.clear_id]) simp_all
  next
    case False
    then have "thread_step t (?m, Test_nr, n - 1) (m', Idle, n - 1)"
      using thread_step.nr_left [of ?m t "n - 1"] by (simp add: m' unlock_def)
    then show ?thesis by simp
  qed
  moreover have "thread_step t (m\<lparr>semDepth := semDepth m - 1\<rparr>, Sub_nr, n - 1) (?m, Test_nr, n - 1)"
    using thread_step.sub_nr [of t "m\<lparr>semDepth := semDepth m - 1\<rparr>" "n - 1"] by simp
  ultimately have "(thread_step t)\<^sup>*\<^sup>* (m\<lparr>semDepth := semDepth m - 1\<rparr>, Sub_nr, n - 1) (m', Idle, n - 1)"
    by (rule thread_stepsI [rotated])
  then show ?thesis
    by (intro thread_stepsI [OF thread_step.rel [OF i assms(3)]] thread_stepsI [OF thread_step.locked [OF d]]
        thread_stepsI [OF thread_step.sub_depth])
qed

lemma sys_steps:
  assumes "(thread_step t)\<^sup>*\<^sup>* (m, l) (m', l')" and "t \<noteq> 0"
  shows "sys_step\<^sup>*\<^sup>* (m, ls(t := l)) (m', ls(t := l'))"
  using assms(1)
proof (induction rule: rtranclp_induct2)
  case (step m1 l1 m2 l2)
  have "sys_step (m1, ls(t := l1)) (m2, ls(t := l2))"
    using sys_step.intros [OF assms(2), of m1 "ls(t := l1)" m2 l2] step.hyps(2) by simp
  with step.IH show ?case by (rule rtranclp.rtrancl_into_rtrancl)
qed simp

section \<open>Two threads\<close>

text \<open>Thread 1 has entered, thread 2 waits.\<close>

definition sample_lock :: sem_state where
  "sample_lock = \<lparr>pages = (\<lambda>_. Unmapped), bytes = (\<lambda>_. 0), startAddr = 0, clock = 0, out = [],
     mutex_owner = None, mutextid = 0, locknr = 0, semInInit = False, semInited = True, semDepth = 0\<rparr>"

definition sample_entered :: sem_state where
  "sample_entered = sample_lock\<lparr>mutex_owner := Some 1, mutextid := 1, locknr := 1, semDepth := 1\<rparr>"

definition sample_threads :: threads where
  "sample_threads = (\<lambda>_. (Idle, 0))(1 := (Idle, 1), 2 := (Wait, 0))"

lemma sample_reachable: "reachable (sample_entered, sample_threads)"
proof -
  have u: "unlocked sample_lock" by (simp add: unlocked_def sample_lock_def)
  have "(thread_step 1)\<^sup>*\<^sup>* (sample_lock, Idle, 0) (sample_entered, Idle, Suc 0)"
    by (rule get_alone [where pf = "sample_pf"])
      (simp_all add: sample_pf_def shared_ok_def sample_lock_def sample_entered_def DUMA_get_sem_def lock_def)
  from sys_steps [OF this, of "\<lambda>_. (Idle, 0)"]
  have "sys_step\<^sup>*\<^sup>* (sample_lock, \<lambda>_. (Idle, 0)) (sample_entered, (\<lambda>_. (Idle, 0))(1 := (Idle, 1)))"
    by (simp add: fun_upd_idem [of "\<lambda>_. (Idle, 0)", OF refl])
  moreover have i: "\<not> semInInit sample_entered" "semInited sample_entered" "mutex_owner sample_entered \<noteq> None"
    "mutextid sample_entered \<noteq> 2" by (simp_all add: sample_entered_def sample_lock_def)
  have "(thread_step 2)\<^sup>*\<^sup>* (sample_entered, Idle, 0) (sample_entered, Wait, 0)"
    by (rule thread_stepsI [OF thread_step.get [OF i(1,2)]] thread_stepsI [OF thread_step.try_busy [OF i(3)]]
        thread_stepsI [OF thread_step.other [OF i(4)]] rtranclp.rtrancl_refl)+
  from sys_steps [OF this, of "(\<lambda>_. (Idle, 0))(1 := (Idle, 1))"]
  have "sys_step\<^sup>*\<^sup>* (sample_entered, (\<lambda>_. (Idle, 0))(1 := (Idle, 1))) (sample_entered, sample_threads)"
    by (simp add: sample_threads_def fun_upd_idem)
  ultimately show ?thesis using u by (auto simp: reachable_def)
qed

theorem sem_exclusive_witness:
  "reachable (sample_entered, sample_threads) \<and> inside (sample_threads 1) \<and> \<not> inside (sample_threads 2) \<and>
     semDepth sample_entered = 1 \<and> fst (sample_threads 2) \<noteq> Stopped"
proof -
  note e = sem_exclusive [OF sample_reachable]
  have "inside (sample_threads 1)" by (simp add: inside_def sample_threads_def)
  with e have "\<not> inside (sample_threads 2)" by (metis one_neq_zero numeral_eq_one_iff semiring_norm(85) zero_neq_numeral)
  moreover have "semDepth sample_entered = 1" "fst (sample_threads 2) \<noteq> Stopped"
    by (simp_all add: sample_entered_def sample_threads_def)
  ultimately show ?thesis using sample_reachable \<open>inside (sample_threads 1)\<close> by blast
qed

theorem sem_no_deadlock_witness:
  "\<exists>m' ls'. sys_step\<^sup>*\<^sup>* (sample_entered, sample_threads) (m', ls') \<and> ls' 2 = (Set_id, 0) \<and> mutex_owner m' = Some 2"
  using sem_no_deadlock [OF sample_reachable, of 2 0] by (auto simp: sample_threads_def)

end
