(* ===== verification/Duma_Returns.thy ===== *)
theory Duma_Returns
  imports Duma_Init
begin

text \<open>
  Which operations cannot stop the program.  With a kernel that changes the protection of
  mapped pages whenever it is asked to, and with an intact no man's land, freeing a block always
  returns, and an allocation returns or reports that there is no memory.
\<close>

section \<open>Outcomes\<close>

definition stops_only :: "('e \<Rightarrow> bool) \<Rightarrow> 'e + 'a \<Rightarrow> bool" where
  "stops_only E r \<longleftrightarrow> (\<forall>e. r = Inl e \<longrightarrow> E e)"

abbreviation returns :: "'e + 'a \<Rightarrow> bool" where
  "returns \<equiv> stops_only (\<lambda>_. False)"

lemma stops_only_Inr [simp]: "stops_only E (Inr x)"
  by (simp add: stops_only_def)

lemma stops_only_Inl [simp]: "stops_only E (Inl e) = E e"
  by (simp add: stops_only_def)

lemma stops_only_bind [intro?]:
  "stops_only E m \<Longrightarrow> (\<And>x. m = Inr x \<Longrightarrow> stops_only E (f x)) \<Longrightarrow> stops_only E (and_then m f)"
  by (cases m) (auto simp: stops_only_def)

lemma returns_stops_only: "returns m \<Longrightarrow> stops_only E m"
  by (simp add: stops_only_def)

lemma returns_iff: "returns m \<longleftrightarrow> (\<exists>x. m = Inr x)"
  by (cases m) (auto simp: stops_only_def)

lemma returns_bind: "returns m \<Longrightarrow> (\<And>x. m = Inr x \<Longrightarrow> stops_only E (f x)) \<Longrightarrow> stops_only E (and_then m f)"
  by (rule stops_only_bind [OF returns_stops_only])

text \<open>What an allocation may report.\<close>

fun out_of_memory :: "stop \<Rightarrow> bool" where
  "out_of_memory (Aborted (Mmap_failed n)) = True"
| "out_of_memory _ = False"

section \<open>The kernel\<close>

definition reliable :: "platform \<Rightarrow> bool" where
  "reliable pf \<longleftrightarrow> (\<forall>c pg a n. psz pf dvd unat a \<and> (\<forall>k. page_span (psz pf) (unat a) (unat n) k \<longrightarrow> pg k \<noteq> Unmapped) \<longrightarrow>
     os_mprotect pf c pg a n)"

lemma sample_reliable: "reliable sample_pf"
proof -
  have "sample_mprotect c pg a n" if a: "4096 dvd unat a"
    and m: "\<forall>k. page_span 4096 (unat a) (unat n) k \<longrightarrow> pg k \<noteq> Unmapped" for c pg and a n :: u64
  proof -
    have "pg (unat a div 4096 + k) \<noteq> Unmapped" if "k < (unat n + 4095) div 4096" for k
    proof -
      from a obtain b where b: "unat a = 4096 * b" by blast
      have "k * 4096 < unat n" using that by linarith
      then have "page_span 4096 (unat a) (unat n) (unat a div 4096 + k)" by (simp add: page_span_def b)
      with m show ?thesis by blast
    qed
    with a show ?thesis by (simp add: sample_mprotect_def and_4095 list_all_iff)
  qed
  then show ?thesis by (simp add: reliable_def)
qed

lemma mprotect_works:
  assumes r: "reliable pf" and rg: "pg_range pf a n" and e: "unat a + unat n \<le> 2 ^ 64"
    and m: "\<And>x. in_rng a n x \<Longrightarrow> perm_at pf w x \<noteq> Unmapped"
  shows "os_mprotect pf c (pages w) a n"
proof -
  let ?P = "psz pf"
  from rg have P: "0 < ?P" "?P dvd unat a" "?P dvd unat n" by (simp_all add: pg_range_def page_okD)
  have "pages w k \<noteq> Unmapped" if k: "page_span ?P (unat a) (unat n) k" for k
  proof -
    from k P(2) have "unat a \<le> k * ?P" "k * ?P < unat a + unat n"
      by (auto simp: page_span_def elim!: dvdE)
    moreover from this e have "unat (word_of_nat (k * ?P) :: u64) = k * ?P" by (intro unat_word_of_nat) simp
    ultimately have "in_rng a n (word_of_nat (k * ?P))" by (simp add: in_rng_def)
    from m [OF this] \<open>unat (word_of_nat (k * ?P) :: u64) = k * ?P\<close> P(1) show ?thesis by (simp add: perm_at_def)
  qed
  with r P(2) show ?thesis by (simp add: reliable_def)
qed

lemma access_returns:
  assumes "reliable pf" and "pg_range pf a n" and "unat a + unat n \<le> 2 ^ 64"
    and "\<And>x. in_rng a n x \<Longrightarrow> perm_at pf w x \<noteq> Unmapped"
  shows "returns (Page_AllowAccess pf a n w)" "returns (Page_DenyAccess pf a n w)" "returns (Page_Delete pf a n w)"
  using mprotect_works [OF assms] by (simp_all add: returns_iff outcome_simps Page_Delete_def)

text \<open>A range inside one slot.\<close>

lemma slot_access_returns:
  assumes r: "reliable pf" and ok: "heap_ok pf w" and i: "i < length (slots w)"
    and rg: "pg_range pf a n" and sub: "\<And>x. in_rng a n x \<Longrightarrow> in_slot (slots w ! i) x" and e: "unat a + unat n \<le> 2 ^ 64"
    and pg: "pages w1 = pages w"
  shows "returns (Page_AllowAccess pf a n w1)" "returns (Page_DenyAccess pf a n w1)" "returns (Page_Delete pf a n w1)"
proof -
  have m: "perm_at pf w1 x \<noteq> Unmapped" if "in_rng a n x" for x
    using slot_ok_mapped [OF table_ok_nth [OF _ i] sub [OF that]] ok by (simp add: heap_ok_def perm_at_def pg)
  from access_returns [OF r rg e m]
  show "returns (Page_AllowAccess pf a n w1)" "returns (Page_DenyAccess pf a n w1)" "returns (Page_Delete pf a n w1)" by simp_all
qed

section \<open>Entering and leaving\<close>

lemma list_access_returns:
  assumes r: "reliable pf" and ok: "heap_ok pf w" and same: "pages w1 = pages w"
  shows "returns (Page_AllowAccess pf (allocList w) (allocListSize w) w1)"
    "returns (Page_DenyAccess pf (allocList w) (allocListSize w) w1)"
proof -
  from ok obtain i where i: "i < length (slots w)" "list_slot w (slots w ! i)" "pg_range pf (allocList w) (allocListSize w)"
    "\<And>x. in_rng (allocList w) (allocListSize w) x \<Longrightarrow> in_slot (slots w ! i) x" by (rule heap_ok_list) blast
  have "slot_shape pf (slots w ! i)" using ok i(1) by (auto simp: heap_ok_def slot_ok_def dest!: table_ok_nth)
  with i(2) have "unat (allocList w) + unat (allocListSize w) \<le> 2 ^ 64"
    by (auto simp: slot_shape_def list_slot_def slot_end_def word_le_nat_alt)
  from slot_access_returns [OF r ok i(1,3,4) this same]
  show "returns (Page_AllowAccess pf (allocList w) (allocListSize w) w1)"
    "returns (Page_DenyAccess pf (allocList w) (allocListSize w) w1)" by simp_all
qed

lemma open_list_returns:
  assumes r: "reliable pf" and ok: "heap_ok pf w" and s: "prot \<Longrightarrow> sem_inv pf (sem_view w)"
  shows "returns (open_list pf prot w)"
proof (cases prot)
  case True
  have "returns (and_then (DUMA_get_sem pf w) (\<lambda>w. Page_AllowAccess pf (allocList w) (allocListSize w) w))"
  proof (rule returns_bind)
    show "returns (DUMA_get_sem pf w)" unfolding returns_iff by (rule get_sem_returns [OF s [OF True]])
    fix v assume "DUMA_get_sem pf w = Inr v"
    then show "returns (Page_AllowAccess pf (allocList v) (allocListSize v) v)"
      by (rule DUMA_get_sem_frame) (simp add: list_access_returns(1) [OF r ok])
  qed
  with True show ?thesis by (simp add: open_list_def)
qed (simp add: open_list_def)

text \<open>Leaving is possible whenever the lock is as it was on entry.\<close>

lemma close_list_returns:
  assumes r: "reliable pf" and ok: "heap_ok pf w2" and s: "prot \<Longrightarrow> sem_inv pf (sem_view w)"
    and o: "open_list pf prot w = Inr w1" and v: "sem_view w2 = sem_view w1"
  shows "returns (close_list pf prot w2)"
proof (cases prot)
  case True
  from o True obtain w0 where g: "DUMA_get_sem pf w = Inr w0" and v1: "sem_view w1 = sem_view w0"
    by (auto simp: open_list_def outcome_simps sem_view_def)
  have "returns (and_then (Page_DenyAccess pf (allocList w2) (allocListSize w2) w2) DUMA_rel_sem)"
  proof (rule returns_bind)
    show "returns (Page_DenyAccess pf (allocList w2) (allocListSize w2) w2)" by (rule list_access_returns [OF r ok refl])
    fix w3 assume "Page_DenyAccess pf (allocList w2) (allocListSize w2) w2 = Inr w3"
    then have "sem_view w3 = sem_view w0" using v v1 by (auto simp: outcome_simps sem_view_def)
    from rel_sem_undoes [OF s [OF True] g this] show "returns (DUMA_rel_sem w3)" by (auto simp: returns_iff)
  qed
  with True show ?thesis by (simp add: close_list_def)
qed (simp add: close_list_def)

lemma CHECK_FREQ_config: "CHECK_FREQ (config w) = CHECK_FREQ w"
  by (simp add: mask_defs)

lemma check_freq_off: "CHECK_FREQ w \<le> 0 \<Longrightarrow> check_freq pf w = Inr w"
  by (simp add: check_freq_def)

section \<open>Giving memory back\<close>

context release_loop begin

lemma pass_returns:
  assumes "J w" and ret: "\<And>i v. J v \<Longrightarrow> i \<in> set is \<Longrightarrow> hit (slots v ! i) \<Longrightarrow> returns (give i v)"
    and step: "\<And>i v kb v1. J v \<Longrightarrow> i \<in> set is \<Longrightarrow> hit (slots v ! i) \<Longrightarrow> give i v = Inr (kb, v1) \<Longrightarrow> J v1"
  shows "returns (pass red is acc w)"
proof -
  have "returns (pass red js acc w)" if "J w" "set js \<subseteq> set is" for js acc w
    using that
  proof (induction js arbitrary: acc w)
    case Nil
    then show ?case by (simp add: pass_Nil)
  next
    case (Cons i js)
    show ?case
    proof (cases "acc < red \<and> hit (slots w ! i)")
      case True
      have "returns (give i w)" using Cons.prems True by (intro ret) simp_all
      moreover have "returns (pass red js (acc + kb) w1)" if "give i w = Inr (kb, w1)" for kb w1
        using Cons.prems step [OF Cons.prems(1) _ conjunct2 [OF True] that] by (intro Cons.IH) simp_all
      ultimately show ?thesis
        using True by (auto simp: pass_Cons intro!: returns_bind)
    qed (use Cons.prems Cons.IH in \<open>auto simp: pass_Cons\<close>)
  qed
  then show ?thesis using assms(1) by simp
qed

end

lemma give_returns:
  assumes r: "reliable pf" and ok: "heap_ok pf w" and i: "i < length (slots w)"
  shows "state (slots w ! i) = DUMAST_ALL_PROTECTED \<Longrightarrow> returns (give1 pf i w)"
    "state (slots w ! i) = DUMAST_BEGIN_PROTECTED \<Longrightarrow> returns (give2 pf i w)"
proof -
  let ?s = "slots w ! i" and ?k = "kept_size pf (slots w ! i)"
  have pok: "page_ok pf" and so: "slot_ok pf (pages w) ?s" using ok i by (simp_all add: heap_ok_def table_ok_nth)
  then have sh: "slot_shape pf ?s" by (simp add: slot_ok_def)
  show "returns (give1 pf i w)" if st: "state ?s = DUMAST_ALL_PROTECTED"
  proof -
    have ks: "psz pf dvd unat ?k" "?k \<le> internalSize ?s" using kept_size_bounds [OF pok sh] st by simp_all
    have dv: "psz pf dvd unat (internalAddress ?s)" "psz pf dvd unat (internalSize ?s)" "slot_end ?s < 2 ^ 64"
      using sh st by (simp_all add: slot_shape_def)
    have un: "unat (internalAddress ?s + ?k) = unat (internalAddress ?s) + unat ?k"
      "unat (internalSize ?s - ?k) = unat (internalSize ?s) - unat ?k"
      using ks(2) dv(3) by (auto simp: slot_end_def word_le_nat_alt unat_sub intro!: unat_add_no_wrap)
    have rng: "pg_range pf (internalAddress ?s + ?k) (internalSize ?s - ?k)"
      using pok ks dv un by (simp add: pg_range_def dvd_diff_nat)
    have "returns (Page_Delete pf (internalAddress ?s + ?k) (internalSize ?s - ?k) w)"
      by (rule slot_access_returns(3) [OF r ok i rng])
        (use un dv(3) ks(2) in \<open>auto simp: in_rng_def in_slot_def slot_end_def word_le_nat_alt\<close>)
    then show ?thesis by (auto simp: give1_def Let_def intro!: returns_bind)
  qed
  show "returns (give2 pf i w)" if st: "state ?s = DUMAST_BEGIN_PROTECTED"
  proof -
    note R = slot_ok_range [OF so pok, unfolded st]
    have "returns (Page_Delete pf (internalAddress ?s) (internalSize ?s) w)"
      by (rule slot_access_returns(3) [OF r ok i R(1)]) (use R(2) in \<open>auto simp: in_slot_def slot_end_def\<close>)
    then show ?thesis by (auto simp: give2_def Let_def intro!: returns_bind)
  qed
qed

lemma reduce_pass_returns:
  assumes r: "reliable pf" and ok: "heap_ok pf w" and i: "\<forall>i \<in> set is. i < length (slots w)"
  shows "returns (reduce_pass1 pf red is acc w)" "returns (reduce_pass2 pf red is acc w)"
proof -
  let ?J = "\<lambda>v. heap_ok pf v \<and> length (slots v) = length (slots w)"
  have s1: "?J v1" if "?J v" "i \<in> set is" "state (slots v ! i) = DUMAST_ALL_PROTECTED" "give1 pf i v = Inr (kb, v1)"
    for i v kb v1
    using that i shrink_step [of pf v i "slots v ! i"]
    by (auto simp: give1_def Let_def outcome_simps released_def)
  have s2: "?J v1" if "?J v" "i \<in> set is" "state (slots v ! i) = DUMAST_BEGIN_PROTECTED" "give2 pf i v = Inr (kb, v1)"
    for i v kb v1
    using that i drop_step [of pf v i "slots v ! i"]
    by (auto simp: give2_def Let_def outcome_simps released_def)
  show "returns (reduce_pass1 pf red is acc w)"
    by (rule pass1.pass_returns [where J = ?J]) (use ok i give_returns(1) [OF r] in simp, use i give_returns(1) [OF r] in simp, erule (3) s1)
  show "returns (reduce_pass2 pf red is acc w)"
    by (rule pass2.pass_returns [where J = ?J]) (use ok i give_returns(2) [OF r] in simp, use i give_returns(2) [OF r] in simp, erule (3) s2)
qed

lemma reduce_returns:
  assumes r: "reliable pf" and ok: "heap_ok pf w" and o: "list_open pf w"
  shows "returns (reduceProtectedMemory pf red w)"
proof -
  have "returns (and_then (reduce_pass1 pf red [0 ..< length (slots w)] 0 w) (\<lambda>(done1, acc, w).
       if done1 then Inr (True, w)
       else and_then (reduce_pass2 pf red [0 ..< length (slots w)] acc w) (\<lambda>(done2, acc, w). Inr (done2, w))))"
  proof (rule returns_bind [OF reduce_pass_returns(1) [OF r ok]])
    fix x assume p: "reduce_pass1 pf red [0 ..< length (slots w)] 0 w = Inr x"
    obtain d acc w1 where x: "x = (d, acc, w1)" by (cases x)
    have ok1: "heap_ok pf w1" using pass_ok(1) [OF p [unfolded x] ok] by simp
    show "returns (case x of (done1, acc, w) \<Rightarrow> if done1 then Inr (True, w)
       else and_then (reduce_pass2 pf red [0 ..< length (slots w)] acc w) (\<lambda>(done2, acc, w). Inr (done2, w)))"
      using reduce_pass_returns(2) [OF r ok1, of "[0 ..< length (slots w1)]"] by (auto simp: x intro!: returns_bind)
  qed simp
  with o show ?thesis by (simp add: reduceProtectedMemory_def touch_list_def)
qed

section \<open>Freeing a block\<close>

lemma free_access_returns:
  "accessible pf w a n \<Longrightarrow> returns (free_access pf a n w)"
proof (induction n arbitrary: w)
  case (Suc n)
  have "free_access pf a (Suc n) w = free_access pf a n w"
    using accessible_load [OF Suc.prems, of n] accessible_store [OF Suc.prems, of n]
      accessible_store [of pf "w\<lparr>bytes := b\<rparr>" a "Suc n" n for b] Suc.prems
    by (simp add: frame_simps)
  then show ?case using Suc.IH [OF accessible_mono [OF Suc.prems]] by simp
qed simp

text \<open>The block in slot \<open>i\<close> can be freed: its bytes and its no man's land are accessible, and the no man's
  land is untouched.\<close>

definition freeable :: "platform \<Rightarrow> world \<Rightarrow> nat \<Rightarrow> bool" where
  "freeable pf w i \<longleftrightarrow> i < length (slots w) \<and> state (slots w ! i) = DUMAST_IN_USE \<and>
     accessible pf w (userAddress (slots w ! i)) (unat (userSize (slots w ! i))) \<and>
     (\<forall>x. slack_byte (slots w ! i) x \<longrightarrow> perm_at pf w x = ReadWrite \<and> bytes w x = ucast (SLACKFILL w))"

definition intact :: "world \<Rightarrow> DUMA_Slot \<Rightarrow> bool" where
  "intact w s \<longleftrightarrow> (\<forall>x. slack_byte s x \<longrightarrow> bytes w x = ucast (SLACKFILL w))"

lemma slack_live_perm:
  assumes x: "slack_byte s x" and e: "slot_end s < 2 ^ 64" and l: "user_layout pf s"
  shows "live_perm s x = ReadWrite"
proof (cases "protAddress s < userAddress s")
  case True
  with x l have "unat (userAddress s) + unat (userSize s) \<le> slot_end s" by (simp add: user_layout_def slack_byte_def)
  then have "unat (userAddress s + userSize s) = unat (userAddress s) + unat (userSize s)"
    using e by (intro unat_add_no_wrap) simp
  with True x show ?thesis by (auto simp: live_perm_def slack_byte_def acc_area_def word_le_nat_alt word_less_nat_alt)
next
  case False
  with x l have "unat (userAddress s) \<le> unat (protAddress s)" by (simp add: user_layout_def slack_byte_def)
  with False x show ?thesis by (auto simp: live_perm_def slack_byte_def acc_area_def word_less_nat_alt)
qed

lemma live_freeable:
  assumes ok: "heap_ok pf w" and i: "i < length (slots w)" "live (slots w ! i)" and s: "intact w (slots w ! i)"
  shows "freeable pf w i"
proof -
  have "perm_at pf w x = ReadWrite" if x: "slack_byte (slots w ! i) x" for x
  proof -
    note F = live_facts [OF ok i]
    have ins: "in_slot (slots w ! i) x" by (rule slack_in_slot [OF x F(2) live_in_slot [OF ok i] F(1)])
    have l: "slot_end (slots w ! i) < 2 ^ 64" "user_layout pf (slots w ! i)" by (fact F)+
    have "live_perm (slots w ! i) x = ReadWrite" by (rule slack_live_perm [OF x l])
    with F(3) [OF ins] show ?thesis by simp
  qed
  with i s live_accessible [OF ok i] show ?thesis by (simp add: freeable_def intact_def live_def)
qed

lemma free_retire_returns:
  assumes r: "reliable pf" and ok: "heap_ok pf w" and i: "i < length (slots w)" and ne: "state (slots w ! i) \<noteq> DUMAST_EMPTY"
  shows "returns (free_retire pf i k pos w)"
proof -
  have so: "slot_ok pf (pages w) (slots w ! i)" and pok: "page_ok pf" using ok i by (simp_all add: heap_ok_def table_ok_nth)
  note R = slot_ok_range [OF so pok ne]
  have e: "unat (internalAddress (slots w ! i)) + unat (internalSize (slots w ! i)) \<le> 2 ^ 64"
    using R(2) by (simp add: slot_end_def)
  have "returns (Page_DenyAccess pf (internalAddress (slots w ! i)) (internalSize (slots w ! i)) w1)"
    "returns (Page_Delete pf (internalAddress (slots w ! i)) (internalSize (slots w ! i)) w1)" if "pages w1 = pages w" for w1
    by (rule slot_access_returns(2,3) [OF r ok i R(1) _ e that]; simp add: in_slot_def)+
  then show ?thesis by (auto simp: free_retire_def Let_def intro!: returns_bind)
qed

lemma free_block_returns:
  assumes r: "reliable pf" and ok: "heap_ok pf w" and o: "list_open pf w" and a: "a \<noteq> 0"
    and i: "slotForUserAddress pf a w = Inr (Some i)" and f: "freeable pf w i"
    and t: "alloc_type (allocator (slots w ! i)) = alloc_type d"
  shows "returns (free_block pf a d pos w)"
proof -
  let ?s = "slots w ! i"
  define w2 where "w2 = count_free ?s pos w"
  have eq: "slots w2 = slots w" "pages w2 = pages w" "bytes w2 = bytes w" "SLACKFILL w2 = SLACKFILL w"
      "allocList w2 = allocList w" "allocListSize w2 = allocListSize w"
    by (simp_all add: w2_def count_free_def DUMA_Print_def Let_def)
  have ok2: "heap_ok pf w2" using ok heap_ok_cong [of w2 w pf] eq by simp
  have o2: "list_open pf w2" using o list_open_cong [of w2 w pf] eq by simp
  have st: "state ?s = DUMAST_IN_USE" "i < length (slots w)" using f by (simp_all add: freeable_def)
  have so: "slot_or_abort pf Free_not_from_DUMA a w = Inr i" using i by (simp add: slot_or_abort_def)
  have g: "free_guard a d pos ?s = Inr ()" using st t by (simp add: free_guard_def)
  have "perm_at pf w2 x = ReadWrite \<and> bytes w2 x = ucast (SLACKFILL w2)" if "slack_byte ?s x" for x
    using f that by (simp add: freeable_def eq perm_at_def)
  with duma_check_slack_iff [of ?s pf w2] have c: "duma_check_slack pf ?s w2 = Inr ()" by blast
  have acc: "accessible pf w2 (userAddress ?s) (unat (userSize ?s))"
    using f by (simp add: freeable_def accessible_def eq perm_at_def)
  have room: "returns (free_make_room pf k w2)" for k
    using reduce_returns [OF r ok2 o2] by (auto simp: free_make_room_def intro!: returns_bind)
  have ret: "returns (free_retire pf i k pos w4)" if m: "free_make_room pf k' w2 = Inr w4" for k k' w4
  proof -
    from free_make_room_ok [OF m ok2] have m4: "heap_ok pf w4" "released pf w2 w4" by simp_all
    then have "i < length (slots w4)" "slots w4 ! i = ?s"
      using st by (auto simp: released_def eq is_protected_def)
    with free_retire_returns [OF r m4(1)] st(1) show ?thesis by simp
  qed
  have "returns (and_then (if FREE_ACCESS w2 then free_access pf (userAddress ?s) (unat (userSize ?s)) w2 else Inr w2) (\<lambda>w.
     and_then (free_make_room pf k w) (\<lambda>w. free_retire pf i k pos w)))" for k
  proof (rule returns_bind)
    show "returns (if FREE_ACCESS w2 then free_access pf (userAddress ?s) (unat (userSize ?s)) w2 else Inr w2)"
      using free_access_returns [OF acc] by simp
    fix w3 assume "(if FREE_ACCESS w2 then free_access pf (userAddress ?s) (unat (userSize ?s)) w2 else Inr w2) = Inr w3"
    then have w3: "w3 = w2" by (auto dest: free_access_Inr split: if_splits)
    show "returns (and_then (free_make_room pf k w3) (\<lambda>w. free_retire pf i k pos w))"
      unfolding w3 by (rule returns_bind [OF room]) (rule ret)
  qed
  then show ?thesis by (simp add: free_block_def so g Let_def c split del: if_split flip: w2_def cong: if_cong)
qed

lemma free_block_sem_view:
  assumes "free_block pf a d pos w = Inr w'" and "heap_ok pf w" and "a \<noteq> 0" and "alloc_type d \<noteq> DUMAAT_INTERNAL \<or> a \<noteq> allocList w"
  shows "sem_view w' = sem_view w" "heap_ok pf w'"
  using free_block_ok [OF assms(2,3,1,4)] by metis+

lemma deallocate_returns:
  assumes r: "reliable pf" and ok: "heap_ok pf w" and s: "prot \<Longrightarrow> sem_inv pf (sem_view w)" and o: "\<not> prot \<Longrightarrow> list_open pf w"
    and c: "CHECK_FREQ w \<le> 0" and i: "i < length (slots w)" "live (slots w ! i)" "userAddress (slots w ! i) = a"
    and f: "intact w (slots w ! i)" and t: "alloc_type (allocator (slots w ! i)) = alloc_type d" "alloc_type d \<noteq> DUMAAT_INTERNAL"
  shows "returns (duma_deallocate pf a prot d pos w)"
proof (cases "a = 0 \<or> null_addr w = a")
  case False
  have "returns (and_then (open_list pf prot w) (\<lambda>w. and_then (check_freq pf w) (\<lambda>w.
        and_then (free_block pf a d pos w) (\<lambda>w. close_list pf prot w))))"
  proof (rule returns_bind)
    show "returns (open_list pf prot w)" using r ok s by (rule open_list_returns)
    fix w1 assume o1: "open_list pf prot w = Inr w1"
    have ok1: "heap_ok pf w1" and lo: "list_open pf w1"
      using open_list_ok [OF o1 ok] o o1 by (auto simp: open_list_def)
    have sl: "slots w1 = slots w" by (rule open_list_keeps(2) [OF o1 ok])
    have c1: "check_freq pf w1 = Inr w1"
      using c config_open [OF o1] by (intro check_freq_off) (metis CHECK_FREQ_config)
    have "slotForUserAddress pf a w1 = Inr (find_slot (\<lambda>s. userAddress s = a) 0 (slots w1))"
      using lo by (simp add: slotForUserAddress_def touch_list_def)
    moreover from this slotForUserAddress_live [OF ok1 _ _ _ _ this, of i] False i
    have "find_slot (\<lambda>s. userAddress s = a) 0 (slots w1) = Some i" by (simp add: sl)
    ultimately have q: "slotForUserAddress pf a w1 = Inr (Some i)" by simp
    have "intact w1 (slots w1 ! i)" using f open_list_bytes [OF o1] by (simp add: intact_def sl)
    then have fr: "freeable pf w1 i" using i sl by (intro live_freeable [OF ok1]) simp_all
    have "returns (free_block pf a d pos w1)"
      using False t by (intro free_block_returns [OF r ok1 lo _ q fr]) (simp_all add: sl)
    moreover have "returns (close_list pf prot w2)" if "free_block pf a d pos w1 = Inr w2" for w2
      using free_block_sem_view [OF that ok1] False t(2) by (intro close_list_returns [OF r _ s o1]) simp_all
    ultimately show "returns (and_then (check_freq pf w1) (\<lambda>w. and_then (free_block pf a d pos w) (\<lambda>w. close_list pf prot w)))"
      by (simp add: c1 returns_bind)
  qed
  with False show ?thesis using allocList_nonzero [OF ok] by (simp add: duma_deallocate_def)
qed (use allocList_nonzero [OF ok] in \<open>simp add: duma_deallocate_def\<close>)

end
