(* ===== verification/Duma_Alloc_Returns.thy ===== *)
theory Duma_Alloc_Returns
  imports Duma_Returns
begin

text \<open>
  Allocation stops only when there is no memory: the steps of \<open>_duma_allocate\<close> in the order of the
  code, then the growth of the slot array, stated as an extension of the locale of
  \<open>Duma_Grow\<close>.
\<close>

section \<open>Empty slots\<close>

definition spare :: "DUMA_Slot list \<Rightarrow> nat" where
  "spare ss = length (filter (\<lambda>s. state s = DUMAST_EMPTY) ss)"

lemma spare_simps [simp]:
  "spare [] = 0" "spare (s # ss) = (if state s = DUMAST_EMPTY then Suc (spare ss) else spare ss)"
  "spare (ss @ ts) = spare ss + spare ts" "spare (replicate n zero_slot) = n"
  by (simp_all add: spare_def zero_slot_def)

lemma spare_mono:
  assumes "length ss \<le> length ts"
    and "\<And>j. j < length ss \<Longrightarrow> state (ss ! j) = DUMAST_EMPTY \<Longrightarrow> state (ts ! j) = DUMAST_EMPTY"
  shows "spare ss \<le> spare ts"
proof -
  have "{j. j < length ss \<and> state (ss ! j) = DUMAST_EMPTY} \<subseteq> {j. j < length ts \<and> state (ts ! j) = DUMAST_EMPTY}"
    using assms by auto
  then show ?thesis by (simp add: spare_def length_filter_conv_card card_mono)
qed

fun seen :: "nat option \<Rightarrow> nat option \<Rightarrow> nat" where
  "seen None e = 0"
| "seen (Some i) None = 1"
| "seen (Some i) (Some j) = 2"

text \<open>A search that does not end with an exact fit has seen every slot.\<close>

lemma scan_slots_complete:
  "scan_slots sz ss i (full, e0, e1) = (full', e0', e1') \<Longrightarrow>
   (\<exists>k. full' = Some (k, sz)) \<or> min 2 (seen e0 e1 + spare ss) \<le> seen e0' e1'"
proof (induction ss arbitrary: i full e0 e1)
  case Nil
  then show ?case by simp
next
  case (Cons s ss)
  show ?case
  proof (cases "state s = DUMAST_FREE \<and> sz \<le> internalSize s")
    case True
    with Cons.prems Cons.IH show ?thesis
      by (auto simp: Let_def split: if_splits option.splits)
  next
    case False
    with Cons.prems Cons.IH show ?thesis
      by (cases e0; cases e1) (fastforce split: if_splits)+
  qed
qed

section \<open>A chunk of memory\<close>

lemma Page_Create_stops:
  "stops_only out_of_memory (Page_Create pf n ex pr w)" "\<not> ex \<Longrightarrow> returns (Page_Create pf n ex pr w)"
  by (auto simp: Page_Create_def Let_def split: option.splits)

lemma chunk_retry_returns:
  "reliable pf \<Longrightarrow> os_ok pf \<Longrightarrow> heap_ok pf w \<Longrightarrow> list_open pf w \<Longrightarrow> returns (chunk_retry pf red len w)"
proof (induction pf red len w rule: chunk_retry.induct)
  case (1 pf red len w)
  show ?case
    unfolding chunk_retry.simps [of pf red len w]
  proof (rule returns_bind [OF reduce_returns [OF "1.prems"(1,3,4)]])
    fix x assume r: "reduceProtectedMemory pf red w = Inr x"
    obtain more w1 where x: "x = (more, w1)" by (cases x)
    have q1: "quiet pf w w1" using r [unfolded x] "1.prems"(3) by (rule reduce_quiet)
    have "returns (and_then (Page_Create pf len False False w1) (\<lambda>(address, w).
        if more \<and> address = 0 then chunk_retry pf red len w else Inr (address, w)))"
    proof (rule returns_bind [OF Page_Create_stops(2)])
      fix y assume c: "Page_Create pf len False False w1 = Inr y"
      obtain a w2 where y: "y = (a, w2)" by (cases y)
      have "returns (chunk_retry pf red len w2)" if m: "more \<and> a = 0"
      proof -
        have q2: "quiet pf w1 w2"
          using c m "1.prems"(2) q1 unfolding y by (intro create_fail_quiet) (auto simp: quiet_def)
        show ?thesis
          using "1.IH" [OF r [unfolded x] refl c [unfolded y] refl m] "1.prems" q1 q2 by (auto simp: quiet_def)
      qed
      then show "returns (case y of (address, w) \<Rightarrow> if more \<and> address = 0 then chunk_retry pf red len w else Inr (address, w))"
        by (simp add: y)
    qed simp
    then show "returns (case x of (reduce_more, w) \<Rightarrow> and_then (Page_Create pf len False False w) (\<lambda>(address, w).
        if reduce_more \<and> address = 0 then chunk_retry pf red len w else Inr (address, w)))" by (simp add: x)
  qed
qed

lemma create_chunk_stops:
  assumes r: "reliable pf" and os: "os_ok pf" and ok: "heap_ok pf w" and o: "list_open pf w"
    and isz: "psz pf dvd unat isz" "unat isz \<le> 2 ^ 30 + 2 ^ 20" "usz = 0 \<or> usz < isz"
  shows "stops_only out_of_memory (create_chunk pf usz isz fail f w)"
proof -
  have pok: "page_ok pf" using ok by (simp add: heap_ok_def)
  let ?C = "chunk_size pf isz"
  have "stops_only out_of_memory (chunk_address pf fail (kB ?C) ?C False w1)" if q1: "quiet pf w w1" for w1
    unfolding chunk_address_def
  proof (rule stops_only_bind)
    fix y assume c: "(if False then Inr (0, w1) else Page_Create pf ?C False False w1) = Inr y"
    obtain a w2 where y: "y = (a, w2)" by (cases y)
    have "returns (chunk_retry pf (kB ?C) ?C w2)" if "a = 0"
    proof -
      have "quiet pf w1 w2" using c that os q1 unfolding y by (intro create_fail_quiet) (auto simp: quiet_def)
      with q1 o show ?thesis by (intro chunk_retry_returns [OF r os]) (auto simp: quiet_def)
    qed
    then show "stops_only out_of_memory (case y of (address, w) \<Rightarrow> if address = 0 \<and> PROTECT_FREE w \<noteq> 0 then
         and_then (chunk_retry pf (kB ?C) ?C w) (\<lambda>(address, w).
           if address = 0 \<and> fail = DUMA_FAIL_ENV
           then Page_Create pf ?C (MALLOC_FAILEXIT w) True w else Inr (address, w))
       else Inr (address, w))"
      by (auto simp: y Page_Create_stops intro!: returns_bind)
  qed (simp add: Page_Create_stops)
  moreover have "returns (chunk_reserve pf (kB ?C) w)"
    using reduce_returns [OF r ok o] by (auto simp: chunk_reserve_def intro!: returns_bind)
  moreover have "quiet pf w w1" if "chunk_reserve pf (kB ?C) w = Inr w1" for w1
    using that ok by (auto simp: chunk_reserve_def and_then_Inr_iff intro: reduce_quiet quiet_refl split: if_splits)
  ultimately show ?thesis
    by (auto simp: create_chunk_single [OF pok isz] intro!: stops_only_bind intro: returns_stops_only)
qed

section \<open>Finding and carving out a block\<close>

lemma find_or_create_stops:
  assumes r: "reliable pf" and os: "os_ok pf" and ok: "heap_ok pf w" and o: "list_open pf w" and s: "2 \<le> spare (slots w)"
    and isz: "psz pf dvd unat isz" "unat isz \<le> 2 ^ 30 + 2 ^ 20" "usz = 0 \<or> usz < isz"
  shows "stops_only out_of_memory (find_or_create pf usz isz fail w)"
    and "find_or_create pf usz isz fail w = Inr (f, e0, w') \<Longrightarrow> e0 = None \<Longrightarrow> internalSize (slots w' ! f) = isz"
proof -
  obtain full e0' e1 where sc: "scan_slots isz (slots w) 0 (None, None, None) = (full, e0', e1)"
    by (metis prod_cases3)
  have c: "(\<exists>k. full = Some (k, isz)) \<or> 2 \<le> seen e0' e1" using scan_slots_complete [OF sc] s by simp
  note b = scan_slots_correct [OF sc]
  show "stops_only out_of_memory (find_or_create pf usz isz fail w)"
    using c o create_chunk_stops [OF r os ok o isz, of fail] sc
    by (cases full; cases e0'; cases e1) (auto simp: find_or_create_def touch_list_def intro!: stops_only_bind)
  show "internalSize (slots w' ! f) = isz"
    if "find_or_create pf usz isz fail w = Inr (f, e0, w')" "e0 = None"
    using that c o b(1) sc
    by (cases full; cases e0'; cases e1)
      (auto simp: find_or_create_def touch_list_def best_fit_def and_then_Inr_iff)
qed

lemma init_slack_returns:
  assumes "\<And>x. slack_byte s x \<Longrightarrow> perm_at pf w x = ReadWrite" and "internalAddress s \<noteq> 0"
  shows "returns (duma_init_slack pf s w)"
proof (cases "userSize s = 0")
  case False
  obtain b e where be: "acc_area s = (b, e)" by (cases "acc_area s")
  have "perm_at pf w x = ReadWrite" if "b \<le> x \<and> x < userAddress s \<or> userAddress s + userSize s \<le> x \<and> x < e" for x
    using that assms False by (auto simp: slack_byte_def be)
  then show ?thesis
    using False by (simp add: duma_init_slack_def be fill_while_eq frame_simps)
qed (simp add: duma_init_slack_def)

lemma memset_returns: "accessible pf w a n \<Longrightarrow> returns (memset pf n a c w)"
  by (simp add: memset_filled)

lemma allow_deny_returns:
  assumes r: "reliable pf" and r1: "pg_range pf a n" "unat a + unat n \<le> 2 ^ 64" and r2: "pg_range pf b k" "unat b + unat k \<le> 2 ^ 64"
    and m: "\<And>x. in_rng a n x \<or> in_rng b k x \<Longrightarrow> perm_at pf w x \<noteq> Unmapped"
  shows "returns (and_then (Page_AllowAccess pf a n w) (\<lambda>w. and_then (Page_DenyAccess pf b k w) (\<lambda>w. Inr (f w))))"
proof (rule returns_bind)
  show "returns (Page_AllowAccess pf a n w)" by (rule access_returns(1) [OF r r1]) (use m in blast)
  fix w1 assume "Page_AllowAccess pf a n w = Inr w1"
  from pg.allow_perm [OF r1(1) this] m have "in_rng b k x \<Longrightarrow> perm_at pf w1 x \<noteq> Unmapped" for x by simp
  from access_returns(2) [OF r r2 this] show "returns (and_then (Page_DenyAccess pf b k w1) (\<lambda>w. Inr (f w)))"
    by (simp add: returns_bind)
qed

lemma place_block_returns:
  assumes r: "reliable pf" and pok: "page_ok pf" and sm: "small_request al usz" and below: "protectBelow \<and> usz \<noteq> 0 \<longrightarrow> unat al \<le> psz pf"
    and ia: "psz pf dvd unat ia" "unat ia + unat (internal_size pf al usz) < 2 ^ 64"
    and m: "\<And>x. in_rng ia (internal_size pf al usz) x \<Longrightarrow> perm_at pf w x \<noteq> Unmapped"
  shows "returns (place_block pf al usz protectBelow (internal_size pf al usz) ia w)"
proof -
  let ?isz = "internal_size pf al usz" and ?P = "psz pf"
  note ib = internal_size_bounds [OF pok sm] and P = page_okD [OF pok]
  have en: "unat (ia + ?isz) = unat ia + unat ?isz" using ia(2) by (intro unat_add_no_wrap) simp
  consider "usz = 0" | "usz \<noteq> 0" "\<not> protectBelow" | "usz \<noteq> 0" "protectBelow" by blast
  then show ?thesis
  proof cases
    case 1
    have "returns (Page_DenyAccess pf ia ?isz w)"
      by (rule access_returns(2) [OF r]) (use pok ia ib m in \<open>simp_all add: pg_range_def\<close>)
    with 1 show ?thesis by (simp add: place_block_def Let_def returns_bind)
  next
    case 2
    define u where "u = above_user pf al ?isz usz ia"
    define p where "p = above_prot pf u usz"
    note L = above_layout [OF pok sm 2(1) ia, folded u_def p_def]
    have pu: "unat ia \<le> unat p" "unat p \<le> unat ia + unat ?isz" using L by linarith+
    then have un: "unat (p - ia) = unat p - unat ia" "unat (ia + ?isz - p) = unat ia + unat ?isz - unat p"
      by (simp_all add: unat_sub word_le_nat_alt en)
    have r1: "pg_range pf ia (p - ia)" and r2: "pg_range pf p (ia + ?isz - p)"
      using pok ia L(4) ib(1) un by (simp_all add: pg_range_def dvd_diff_nat)
    have "returns (and_then (Page_AllowAccess pf ia (p - ia) w) (\<lambda>w. and_then (Page_DenyAccess pf p (ia + ?isz - p) w) (\<lambda>w. Inr (u, p, w))))"
      by (rule allow_deny_returns [OF r r1 _ r2]) (use un pu ia(2) in \<open>auto simp: in_rng_def intro!: m\<close>)
    with 2 show ?thesis by (simp add: place_block_def Let_def u_def p_def)
  next
    case 3
    have al: "is_pow2 al" "unat al \<le> ?P" using sm 3 below by (simp_all add: small_request_def)
    have n5: "unat usz + ?P \<le> unat ?isz" by (rule ib(5) [OF 3(1)])
    have "?P < unat ?isz" using n5 3(1) unat_gt_0 [of usz] by linarith
    then have lim: "unat ia + 2 * ?P \<le> 2 ^ 64" using dvd_less_le [OF dvd_refl _ ib(1)] ia(2) by fastforce
    note L = below_layout [OF pok al ia(1) lim]
    define u where "u = below_user pf al ia"
    have uu: "unat u = unat ia + ?P" and pp: "below_prot pf u = ia" using L by (simp_all add: u_def)
    have un: "unat (u - ia) = ?P" "unat (?isz - (u - ia)) = unat ?isz - ?P"
      using uu ib by (auto simp: unat_sub word_le_nat_alt)
    have r1: "pg_range pf u (?isz - (u - ia))" and r2: "pg_range pf ia (u - ia)"
      using pok ia uu un ib by (simp_all add: pg_range_def dvd_diff_nat)
    have "returns (and_then (Page_AllowAccess pf u (?isz - (u - ia)) w) (\<lambda>w. and_then (Page_DenyAccess pf ia (u - ia) w) (\<lambda>w. Inr (u, ia, w))))"
      by (rule allow_deny_returns [OF r r1 _ r2]) (use un uu ib(2) ia(2) in \<open>auto simp: in_rng_def intro!: m\<close>)
    with 3 show ?thesis by (simp add: place_block_def Let_def pp flip: u_def)
  qed
qed

lemma use_slot_returns:
  assumes r: "reliable pf" and ok: "heap_ok pf w" and f: "f < length (slots w)" and sm: "small_request al usz"
    and b: "below \<and> usz \<noteq> 0 \<longrightarrow> unat al \<le> psz pf"
    and st: "state (slots w ! f) = DUMAST_EMPTY \<or>
        state (slots w ! f) = DUMAST_FREE \<and> internal_size pf al usz \<le> internalSize (slots w ! f)"
    and e: "\<And>e. e0 = Some e \<Longrightarrow> e < length (slots w) \<and> state (slots w ! e) = DUMAST_EMPTY \<and> e \<noteq> f"
    and x: "e0 = None \<Longrightarrow> internalSize (slots w ! f) = internal_size pf al usz"
  shows "returns (use_slot pf al usz below (internal_size pf al usz) alloc pos f e0 w)"
proof (cases "state (slots w ! f) = DUMAST_EMPTY")
  case True
  have "internalSize (slots w ! f) = 0"
    using ok f True by (auto simp: heap_ok_def slot_ok_def slot_shape_def dest!: table_ok_nth)
  then show ?thesis by (simp add: use_slot_def)
next
  case False
  let ?isz = "internal_size pf al usz"
  from False st have fr: "state (slots w ! f) = DUMAST_FREE" and sz: "?isz \<le> internalSize (slots w ! f)" by simp_all
  have pok: "page_ok pf" using ok by (simp add: heap_ok_def)
  note ib = internal_size_bounds [OF pok sm]
  have "returns (and_then (split_slot ?isz f e0 w) (\<lambda>w.
        and_then (place_block pf al usz below ?isz (internalAddress (slots w ! f)) w)
          (\<lambda>(userAddr, protAddr, w).
        let w = record_block f userAddr protAddr usz alloc pos w in
        and_then (duma_init_slack pf (slots w ! f) w) (\<lambda>w. Inr (userAddr, w)))))"
  proof (rule returns_bind)
    show "returns (split_slot ?isz f e0 w)" using x by (auto simp: split_slot_def Let_def split: option.split)
    fix w1 assume sp: "split_slot ?isz f e0 w = Inr w1"
    from split_slot_ok [OF sp ok f fr sz ib(1,4) e] have ok1: "heap_ok pf w1"
      and l1: "length (slots w1) = length (slots w)" and s1: "slots w1 ! f = (slots w ! f)\<lparr>internalSize := ?isz\<rparr>" by simp_all
    have so1: "slot_ok pf (pages w1) (slots w1 ! f)" using ok1 f l1 by (simp add: heap_ok_def table_ok_nth)
    then have sh1: "internalAddress (slots w1 ! f) \<noteq> 0" "psz pf dvd unat (internalAddress (slots w1 ! f))"
      "unat (internalAddress (slots w1 ! f)) + unat ?isz < 2 ^ 64"
      using fr s1 by (simp_all add: slot_ok_def slot_shape_def slot_end_def)
    show "returns (and_then (place_block pf al usz below ?isz (internalAddress (slots w1 ! f)) w1)
          (\<lambda>(userAddr, protAddr, w).
        let w = record_block f userAddr protAddr usz alloc pos w in
        and_then (duma_init_slack pf (slots w ! f) w) (\<lambda>w. Inr (userAddr, w))))"
    proof (rule returns_bind [OF place_block_returns [OF r pok sm b sh1(2,3)]])
      show "perm_at pf w1 y \<noteq> Unmapped" if "in_rng (internalAddress (slots w1 ! f)) ?isz y" for y
        using slot_ok_mapped [OF so1, of y] that by (simp add: in_slot_def s1 perm_at_def)
      fix y assume pl: "place_block pf al usz below ?isz (internalAddress (slots w1 ! f)) w1 = Inr y"
      obtain u p w2 where y: "y = (u, p, w2)" by (cases y)
      let ?w3 = "record_block f u p usz alloc pos w2" and ?s = "(slots w1 ! f)\<lparr>userAddress := u, protAddress := p,
        userSize := usz, state := DUMAST_IN_USE, allocator := alloc, fileSource := DUMAFS_ALLOCATION,
        filename := fst pos, lineno := snd pos\<rparr>"
      have sv: "internalAddress ?s = internalAddress (slots w1 ! f)" "internalSize ?s = ?isz"
        "userAddress ?s = u" "protAddress ?s = p" "userSize ?s = usz" by (simp_all add: s1)
      note L = place_block_ok [OF pok sm b sh1(2,3) pl [unfolded y] sv]
      from L(1) have s3: "slots ?w3 ! f = ?s" using f l1 by (auto simp: record_block_def)
      have e: "slot_end ?s < 2 ^ 64" using sh1(3) by (simp add: slot_end_def s1)
      have "perm_at pf ?w3 z = ReadWrite" if z: "slack_byte ?s z" for z
      proof -
        have "in_slot ?s z" using slack_in_slot [OF z L(5) _ e] L(4) by simp
        with L(3) slack_live_perm [OF z e L(5)] have "perm_at pf w2 z = ReadWrite" by simp
        then show ?thesis by (simp add: record_block_def frame_simps)
      qed
      then have "returns (duma_init_slack pf ?s ?w3)" using sh1(1) by (intro init_slack_returns) simp_all
      then show "returns (case y of (userAddr, protAddr, w) \<Rightarrow>
        let w = record_block f userAddr protAddr usz alloc pos w in
        and_then (duma_init_slack pf (slots w ! f) w) (\<lambda>w. Inr (userAddr, w)))"
        by (simp add: y Let_def s3 returns_bind)
    qed
  qed
  then show ?thesis by (simp add: use_slot_def)
qed

section \<open>A whole allocation\<close>

definition at_work :: "platform \<Rightarrow> world \<Rightarrow> bool" where
  "at_work pf w \<longleftrightarrow> reliable pf \<and> os_ok pf \<and> heap_ok pf w \<and> small_list w \<and>
     2 \<le> spare (slots w) \<and> CHECK_FREQ w \<le> 0 \<and> 2 \<le> unat (slotsPerPage w)"

lemma alignment_accepted_small:
  assumes "is_pow2 al" and "unat al \<le> 2 ^ 29"
  shows "alignment_accepted al"
proof -
  from assms(1) obtain k where k: "k < LENGTH(64)" "al = 2 ^ k" "unat al = 2 ^ k" by (rule is_pow2E)
  with assms(2) have "(2 :: nat) ^ k \<le> 2 ^ 29" by simp
  then have "k \<le> 29" by (rule power_le_imp_le_exp [rotated]) simp
  moreover have "(ucast al :: u32) = 2 ^ k"
    unfolding k(2) by (rule bit_word_eqI) (use calculation in \<open>auto simp: bit_simps\<close>)
  moreover have "(2 :: u32) ^ k AND - (2 ^ k) = 2 ^ k"
    by (rule bit_word_eqI) (auto simp: bit_simps minus_exp_eq_not_mask)
  ultimately show ?thesis by (simp add: alignment_accepted_def Let_def)
qed

text \<open>What \<open>_duma_allocate\<close> needs of the function that enlarges the table, so that it stops only for lack
  of memory.\<close>

locale growing_table = table_grower +
  assumes grow_stops: "at_work pf w \<Longrightarrow> list_open pf w \<Longrightarrow> stops_only out_of_memory (grow w)"
    and grow_room: "at_work pf w \<Longrightarrow> list_open pf w \<Longrightarrow> grow w = Inr w' \<Longrightarrow> list_open pf w' \<and> 2 \<le> spare (slots w')"
begin

text \<open>Between opening and closing the slot array.\<close>

lemma body_stops:
  assumes a: "at_work pf w" and o: "list_open pf w" and sm: "small_request al usz" and b: "below \<and> usz \<noteq> 0 \<longrightarrow> unat al \<le> psz pf"
  shows "stops_only out_of_memory (if P \<and> unUsedSlots w < 7 then grow w else Inr w)"
    "(if P \<and> unUsedSlots w < 7 then grow w else Inr w) = Inr w2 \<Longrightarrow>
       stops_only out_of_memory (find_or_create pf usz (internal_size pf al usz) fail w2)"
    "(if P \<and> unUsedSlots w < 7 then grow w else Inr w) = Inr w2 \<Longrightarrow>
       find_or_create pf usz (internal_size pf al usz) fail w2 = Inr (f, e0, w3) \<Longrightarrow>
       returns (use_slot pf al usz below (internal_size pf al usz) alloc pos f e0 w3)"
proof -
  from a have r: "reliable pf" and os: "os_ok pf" and ok: "heap_ok pf w" and sl: "small_list w"
    and sp: "2 \<le> spare (slots w)" by (simp_all add: at_work_def)
  show "stops_only out_of_memory (if P \<and> unUsedSlots w < 7 then grow w else Inr w)" using grow_stops [OF a o] by simp
  assume g: "(if P \<and> unUsedSlots w < 7 then grow w else Inr w) = Inr w2"
  then have ok2: "heap_ok pf w2" and o2: "list_open pf w2" and sp2: "2 \<le> spare (slots w2)"
    using grow_ok [OF os ok sl] grow_room [OF a o] ok o sp by (auto split: if_splits)
  have pok: "page_ok pf" using ok by (simp add: heap_ok_def)
  note ib = internal_size_bounds [OF pok sm]
  have lt: "usz = 0 \<or> usz < internal_size pf al usz"
    using ib(5) page_okD(3) [OF pok] by (cases "usz = 0") (simp_all add: word_less_nat_alt)
  note F = find_or_create_stops [OF r os ok2 o2 sp2 ib(1,3) lt]
  show "stops_only out_of_memory (find_or_create pf usz (internal_size pf al usz) fail w2)" by (rule F(1))
  assume fc: "find_or_create pf usz (internal_size pf al usz) fail w2 = Inr (f, e0, w3)"
  note G = find_or_create_ok [OF fc ok2 os ib(1,3,4) lt]
  show "returns (use_slot pf al usz below (internal_size pf al usz) alloc pos f e0 w3)"
    by (rule use_slot_returns [OF r _ _ sm b]) (use G F(2) [OF fc] in \<open>auto simp: prepared_def\<close>)
qed

lemma allocate_block_stops:
  assumes a: "at_work pf w" and s: "prot \<Longrightarrow> sem_inv pf (sem_view w)" and o: "\<not> prot \<Longrightarrow> list_open pf w"
    and al: "al = (if usz = 0 then al0 else alloc_alignment al0 usz w)"
    and sm: "small_request al usz" and b: "below \<and> usz \<noteq> 0 \<longrightarrow> unat al \<le> psz pf"
    and ip: "alloc \<noteq> EFA_INT_ALLOC \<or> \<not> prot \<and> fb = - 1"
  shows "stops_only out_of_memory (allocate_block grow pf al0 usz below fb prot alloc fail pos w)"
proof -
  let ?isz = "internal_size pf al usz"
  from a have r: "reliable pf" and os: "os_ok pf" and ok: "heap_ok pf w" and sl: "small_list w" by (simp_all add: at_work_def)
  have acc: "\<not> (usz \<noteq> 0 \<and> \<not> alignment_accepted al)" using sm alignment_accepted_small by (auto simp: small_request_def)
  let ?finish = "\<lambda>(userAddr, w). and_then (close_list pf prot w) (\<lambda>w.
      and_then (if userAddr \<noteq> 0 \<and> fb \<noteq> - 1 \<and> usz \<noteq> 0 then memset pf (unat usz) userAddr (ucast fb) w else Inr w) (\<lambda>w.
      Inr (userAddr, w)))"
  let ?use = "\<lambda>(f, e0, w). and_then (use_slot pf al usz below ?isz alloc pos f e0 w) ?finish"
  let ?find = "\<lambda>w. and_then (find_or_create pf usz ?isz fail w) ?use"
  let ?grow = "\<lambda>w. if alloc_type alloc \<noteq> DUMAAT_INTERNAL \<and> unUsedSlots w < 7 then grow w else Inr w"
  have "stops_only out_of_memory (and_then (open_list pf prot w) (\<lambda>w.
      and_then (check_freq pf w) (\<lambda>w. and_then (?grow w) ?find)))"
  proof (rule returns_bind [OF open_list_returns [OF r ok s]])
    fix w0 assume ol: "open_list pf prot w = Inr w0"
    have ok0: "heap_ok pf w0" and o0: "list_open pf w0"
      using open_list_ok [OF ol ok] o ol by (auto simp: open_list_def)
    have same: "slots w0 = slots w" "CHECK_FREQ w0 = CHECK_FREQ w" "slotsPerPage w0 = slotsPerPage w"
      using open_list_keeps(2) [OF ol ok] config_fields [OF config_open [OF ol]] by simp_all
    have sl0: "small_list w0" using sl open_list_same [OF ol] by (simp add: small_list_def)
    have a0: "at_work pf w0" using a ok0 sl0 by (simp add: at_work_def same)
    have cf: "check_freq pf w0 = Inr w0" using a by (intro check_freq_off) (simp add: at_work_def same)
    note B = body_stops [OF a0 o0 sm b]
    have fin: "returns (?finish (u, w4))"
      if g: "?grow w0 = Inr w2" and fc: "find_or_create pf usz ?isz fail w2 = Inr (f, e0, w3)"
        and us: "use_slot pf al usz below ?isz alloc pos f e0 w3 = Inr (u, w4)" for w2 f e0 w3 u w4
    proof -
      note K = body_ok [OF cf g fc us os ok0 sl0 sm b]
      then have ok4: "heap_ok pf w4" and v: "sem_view w4 = sem_view w0" and f4: "f < length (slots w4)"
        and nb: "u \<noteq> 0 \<Longrightarrow> new_block pf al usz below alloc pos u w4 (slots w4 ! f)" by simp_all
      show ?thesis unfolding prod.case
      proof (rule returns_bind [OF close_list_returns [OF r ok4 s ol v]])
        fix w5 assume cl: "close_list pf prot w4 = Inr w5"
        have ok5: "heap_ok pf w5" by (rule close_list_ok [OF cl ok4])
        have s5: "slots w5 = slots w4" by (rule close_list_keeps(2) [OF cl ok4])
        have "accessible pf w5 u (unat usz)" if "u \<noteq> 0" "fb \<noteq> - 1"
          using live_accessible [OF ok5, of f "unat usz"] nb [OF that(1)] ip that(2) f4 s5
          by (auto simp: new_block_def live_def)
        then show "returns (and_then (if u \<noteq> 0 \<and> fb \<noteq> - 1 \<and> usz \<noteq> 0 then memset pf (unat usz) u (ucast fb) w5 else Inr w5) (\<lambda>w. Inr (u, w)))"
          using memset_returns by (auto intro!: returns_bind)
      qed
    qed
    have use: "returns (?use (f, e0, w3))"
      if g: "?grow w0 = Inr w2" and fc: "find_or_create pf usz ?isz fail w2 = Inr (f, e0, w3)" for w2 f e0 w3
      unfolding prod.case by (rule returns_bind [OF B(3) [OF g fc]]) (use fin [OF g fc] in auto)
    have "stops_only out_of_memory (?find w2)" if g: "?grow w0 = Inr w2" for w2
      by (rule stops_only_bind [OF B(2) [OF g]]) (use use [OF g] in \<open>auto intro: returns_stops_only\<close>)
    then show "stops_only out_of_memory (and_then (check_freq pf w0) (\<lambda>w. and_then (?grow w) ?find))"
      unfolding cf and_then.simps by (rule stops_only_bind [OF B(1)])
  qed
  then show ?thesis unfolding allocate_block_def Let_def al [symmetric] if_not_P [OF acc] .
qed

end

interpretation no_room_needed: growing_table pf Inr
  by unfold_locales (simp_all add: at_work_def)

section \<open>Growing the slot array\<close>

text \<open>What a free leaves alone: the pages of the slot array, and the empty slots.\<close>

lemma free_block_room:
  assumes fb: "free_block pf a d pos w = Inr w'" and ok: "heap_ok pf w" and a: "a \<noteq> 0"
    and nl: "alloc_type d \<noteq> DUMAAT_INTERNAL \<or> a \<noteq> allocList w"
  shows "list_open pf w \<Longrightarrow> list_open pf w'" "spare (slots w) \<le> spare (slots w')"
proof -
  obtain i w3 s' p where i: "slotForUserAddress pf a w = Inr (Some i)" "i < length (slots w)"
    "\<not> is_protected (slots w ! i)" "alloc_type (allocator (slots w ! i)) = alloc_type d"
    and rel: "released pf (count_free (slots w ! i) pos w) w3" and len: "length (slots w3) = length (slots w)"
    and sl: "slots w' = (slots w3)[i := s']"
    and pm: "\<And>x. perm_at pf w' x = (if in_slot (slots w ! i) x then p else perm_at pf w3 x)"
    and rest: "allocList w' = allocList w3" "allocListSize w' = allocListSize w3" and ok': "heap_ok pf w'"
    using free_block_steps [OF ok a fb nl] by metis
  let ?w2 = "count_free (slots w ! i) pos w"
  have ok2: "heap_ok pf ?w2" using ok heap_ok_cong [of ?w2 w pf] by (simp add: count_free_same)
  note fl = reduce_mask_fields [OF released_mask [OF rel]]
  have ua: "userAddress (slots w ! i) = a" by (rule slotForUserAddress_Some(3) [OF i(1)])
  show "list_open pf w'" if lo: "list_open pf w"
  proof -
    obtain k where k: "k < length (slots w)" "list_slot w (slots w ! k)"
      "\<And>x. in_rng (allocList w) (allocListSize w) x \<Longrightarrow> in_slot (slots w ! k) x" using ok by (rule heap_ok_list) blast
    have ki: "k \<noteq> i" using k(2) ua i(4) nl by (auto simp: list_slot_def)
    have "perm_at pf w' x = ReadWrite" if x: "in_rng (allocList w) (allocListSize w) x" for x
    proof -
      have "\<not> in_slot (slots w ! i) x"
        using table_ok_apart [of pf "pages w" "slots w" k i x] ok k(1) i(2) ki k(3) [OF x] by (simp add: heap_ok_def)
      moreover have "perm_at pf w3 x = perm_at pf ?w2 x"
        using k by (intro released_perm [OF rel ok2, of k]) (use k(3) [OF x] in \<open>auto simp: count_free_same list_slot_def is_protected_def\<close>)
      moreover have "perm_at pf ?w2 x = ReadWrite"
        using lo x list_open_iff [OF ok] by (simp add: perm_at_def count_free_same)
      ultimately show ?thesis by (simp add: pm)
    qed
    then show ?thesis using list_open_iff [OF ok'] by (simp add: rest fl count_free_same)
  qed
  show "spare (slots w) \<le> spare (slots w')"
  proof (rule spare_mono)
    show "length (slots w) \<le> length (slots w')" by (simp add: sl len)
    fix j assume j: "j < length (slots w)" "state (slots w ! j) = DUMAST_EMPTY"
    have "userAddress (slots w ! j) = 0"
      using ok j by (auto simp: heap_ok_def slot_ok_def slot_shape_def dest!: table_ok_nth)
    with ua a have "j \<noteq> i" by auto
    moreover have "slots w3 ! j = slots w ! j"
      using rel j by (auto simp: released_def count_free_same is_protected_def)
    ultimately show "state (slots w' ! j) = DUMAST_EMPTY" using j by (simp add: sl)
  qed
qed

lemma list_slot_tight:
  assumes ls: "list_slot w s" and sh: "slot_shape pf s"
  shows "\<not> slack_byte s x"
proof -
  have e: "unat (internalAddress s) + unat (internalSize s) < 2 ^ 64" "userSize s \<le> internalSize s" "userAddress s = internalAddress s"
    using ls sh by (auto simp: slot_shape_def slot_end_def list_slot_def)
  then have n: "unat (userAddress s + userSize s) = unat (userAddress s) + unat (userSize s)"
    by (intro unat_add_no_wrap) (simp add: word_le_nat_alt)
  consider "protAddress s < userAddress s" "internalSize s = userSize s" | "protAddress s = userAddress s + userSize s"
    using ls by (auto simp: list_slot_def)
  then show ?thesis
  proof cases
    case 1
    with e(3) show ?thesis by (auto simp: slack_byte_def acc_area_def)
  next
    case 2
    then have "\<not> protAddress s < userAddress s" by (simp add: word_less_nat_alt n)
    with 2 e(3) show ?thesis by (auto simp: slack_byte_def acc_area_def)
  qed
qed

text \<open>The old array can be released.\<close>

lemma release_old_returns:
  assumes r: "reliable pf" and ok1: "heap_ok pf w1" and o1: "list_open pf w1" and c: "CHECK_FREQ w1 \<le> 0"
    and f: "f < length (slots w1)" "list_slot (larger_table a n w1) (slots w1 ! f)"
    and n: "psz pf dvd unat n" "allocListSize w1 \<noteq> n" and o4: "list_open pf (larger_table a n w1)"
  shows "returns (duma_deallocate pf (allocList w1) False EFA_INT_DEALLOC pos (larger_table a n w1))"
    and "duma_deallocate pf (allocList w1) False EFA_INT_DEALLOC pos (larger_table a n w1) = Inr w' \<Longrightarrow>
      list_open pf w' \<and> spare (slots (larger_table a n w1)) \<le> spare (slots w')"
proof -
  let ?w = "larger_table a n w1"
  obtain k where k: "k < length (slots w1)" "k \<noteq> f" "list_slot w1 (slots w1 ! k)" "in_slot (slots w1 ! k) (allocList w1)"
    "allocList w1 \<noteq> a" by (rule old_list_slot [OF ok1 f n(2)])
  note L = larger_table_ok [OF ok1 f n(1)]
  have nz: "allocList w1 \<noteq> 0" "allocList ?w \<noteq> 0" using allocList_nonzero [OF ok1] allocList_nonzero [OF L(1)] by simp_all
  have cf: "check_freq pf ?w = Inr ?w" using c by (intro check_freq_off) (simp add: larger_table_def)
  have k4: "k < length (slots ?w)" "slots ?w ! k = slots w1 ! k" using k(1) by (simp_all add: nth_append)
  have "find_slot (\<lambda>s. userAddress s = allocList w1) 0 (slots ?w) = Some (0 + k)"
  proof (rule find_slot_first [OF k4(1)])
    show "userAddress (slots ?w ! k) = allocList w1" using k(3) unfolding k4(2) by (simp add: list_slot_def)
    fix j assume "j < k"
    then show "userAddress (slots ?w ! j) \<noteq> allocList w1"
      using slot_address_unique [OF L(1) k4(1) _ nz(1), of j] k(4) k4 by auto
  qed
  then have q: "slotForUserAddress pf (allocList w1) ?w = Inr (Some k)"
    using o4 by (simp add: slotForUserAddress_def touch_list_def)
  have sh: "slot_shape pf (slots w1 ! k)" using ok1 k(1) by (auto simp: heap_ok_def slot_ok_def dest!: table_ok_nth)
  have e: "unat (allocList w1) + unat (allocListSize w1) < 2 ^ 64"
    using sh k(3) by (auto simp: slot_shape_def slot_end_def list_slot_def word_le_nat_alt)
  have "perm_at pf ?w x = ReadWrite" if "in_rng (allocList w1) (allocListSize w1) x" for x
    using o1 list_open_iff [OF ok1] that by (simp add: perm_at_def)
  with e have "accessible pf ?w (allocList w1) (unat (allocListSize w1))"
    by (simp add: accessible_def in_rng_def unat_offset)
  moreover have "\<not> slack_byte (slots w1 ! k) x" for x by (rule list_slot_tight [OF k(3) sh])
  ultimately have fr: "freeable pf ?w k"
    using k4 k(3) unfolding freeable_def k4(2) by (simp add: list_slot_def)
  have "returns (free_block pf (allocList w1) EFA_INT_DEALLOC pos ?w)"
  proof (rule free_block_returns [OF r L(1) o4 nz(1) q fr])
    show "alloc_type (allocator (slots ?w ! k)) = alloc_type EFA_INT_DEALLOC"
      using k(3) unfolding k4(2) by (simp add: list_slot_def)
  qed
  then show "returns (duma_deallocate pf (allocList w1) False EFA_INT_DEALLOC pos ?w)"
    using nz cf by (auto simp: duma_deallocate_def open_list_def close_list_def intro!: returns_bind)
  assume "duma_deallocate pf (allocList w1) False EFA_INT_DEALLOC pos ?w = Inr w'"
  with nz cf have "w' = ?w \<or> free_block pf (allocList w1) EFA_INT_DEALLOC pos ?w = Inr w'"
    by (auto simp: duma_deallocate_def open_list_def close_list_def and_then_Inr_iff split: if_splits)
  moreover have "alloc_type EFA_INT_DEALLOC \<noteq> DUMAAT_INTERNAL \<or> allocList w1 \<noteq> allocList ?w" using k(5) by simp
  ultimately show "list_open pf w' \<and> spare (slots ?w) \<le> spare (slots w')"
    using free_block_room [OF _ L(1) nz(1)] o4 order_refl by metis
qed

lemma larger_table_open:
  assumes nb: "new_block pf 1 n False EFA_INT_ALLOC pos a w1 s" and ok: "heap_ok pf (larger_table a n w1)" and n: "n \<noteq> 0"
    and e: "slot_end s < 2 ^ 64"
  shows "list_open pf (larger_table a n w1)"
proof -
  have u: "user_layout pf s" "in_slot s a" "userAddress s = a" "userSize s = n"
    "\<And>x. in_slot s x \<Longrightarrow> perm_at pf w1 x = live_perm s x" using nb by (simp_all add: new_block_def)
  have "perm_at pf w1 x = ReadWrite" if "in_rng a n x" for x
    using user_in_slot [OF e u(1)] u that n by (simp add: in_rng_def)
  with list_open_iff [OF ok] show ?thesis by (simp add: perm_at_def)
qed

lemma allocateMoreSlots_stops:
  assumes a: "at_work pf w" and o: "list_open pf w"
  shows "stops_only out_of_memory (allocateMoreSlots pf w)"
    "allocateMoreSlots pf w = Inr w' \<Longrightarrow> list_open pf w' \<and> 2 \<le> spare (slots w')"
proof -
  let ?n = "allocListSize w + DUMA_PAGE_SIZE pf"
  let ?alloc = "allocate_with Inr pf 1 ?n False (- 1) False EFA_INT_ALLOC DUMA_FAIL_NULL grow_pos w"
  let ?pos = "(Some ''src/duma.c'', 1259) :: src_pos"
  from a have r: "reliable pf" and os: "os_ok pf" and ok: "heap_ok pf w" and sl: "small_list w"
    and sp: "2 \<le> spare (slots w)" and c: "CHECK_FREQ w \<le> 0" and spp: "2 \<le> unat (slotsPerPage w)" by (simp_all add: at_work_def)
  note n = larger_size [OF ok sl]
  have after: "returns (duma_deallocate pf (allocList w) False EFA_INT_DEALLOC ?pos (larger_table b ?n w1)) \<and>
      list_open pf (larger_table b ?n w1) \<and>
      (duma_deallocate pf (allocList w) False EFA_INT_DEALLOC ?pos (larger_table b ?n w1) = Inr w' \<longrightarrow>
        list_open pf w' \<and> 2 \<le> spare (slots w'))"
    if ab: "?alloc = Inr (b, w1)" and b: "b \<noteq> 0" for b w1
  proof -
    note M = more_slots [OF os ok sl ab]
    have st: "CHECK_FREQ w1 = CHECK_FREQ w" "slotsPerPage w1 = slotsPerPage w"
      using config_fields [OF config_steady [OF steady_allocate_with [OF ab]]] by simp_all
    from M(7) [OF b] obtain f where f: "f < length (slots w1)" "list_slot (larger_table b ?n w1) (slots w1 ! f)"
      and nb: "new_block pf 1 ?n False EFA_INT_ALLOC grow_pos b w1 (slots w1 ! f)" by blast
    have "0 < psz pf" using ok by (simp add: heap_ok_def page_okD)
    then have "unat (allocListSize w1) \<noteq> unat ?n" using n(1) M(6) by simp
    then have ne: "allocListSize w1 \<noteq> ?n" by auto
    have "slot_end (slots w1 ! f) < 2 ^ 64"
      using slot_ok_range(2) [OF table_ok_nth [OF _ f(1)], of pf "pages w1"] M(1) nb by (simp add: heap_ok_def new_block_def)
    then have o4: "list_open pf (larger_table b ?n w1)"
      using larger_table_ok(1) [OF M(1) f n(3)] n(4) by (intro larger_table_open [OF nb])
    have c1: "CHECK_FREQ w1 \<le> 0" using c st by simp
    have "2 \<le> spare (slots (larger_table b ?n w1))" using spp st by simp
    with o4 release_old_returns [OF r M(1,8) c1 f n(3) ne o4, of ?pos] show ?thesis
      unfolding M(5) by auto
  qed
  have "allocList w \<noteq> 0" by (rule allocList_nonzero [OF ok])
  moreover have "stops_only out_of_memory
      (allocate_block Inr pf 1 ?n False (- 1) False EFA_INT_ALLOC DUMA_FAIL_NULL grow_pos (count_alloc ?n grow_pos w))"
  proof (rule no_room_needed.allocate_block_stops)
    show "list_open pf (count_alloc ?n grow_pos w)"
      using o list_open_cong [of "count_alloc ?n grow_pos w" w pf] by (simp add: count_alloc_same)
    have "config (count_alloc ?n grow_pos w) = config w" by (rule config_fixed) (rule fixed_count)
    from config_fields [OF this] show "at_work pf (count_alloc ?n grow_pos w)"
      using a count_alloc_ok(1) [OF ok] by (simp add: at_work_def count_alloc_same)
  qed (use n in simp_all)
  ultimately have alone: "stops_only out_of_memory ?alloc"
    using n(4) by (simp add: allocate_with_def Let_def)
  have lo: "list_open pf w1" if "?alloc = Inr (b, w1)" for b w1 by (rule more_slots(8) [OF os ok sl that])
  show "stops_only out_of_memory (allocateMoreSlots pf w)"
    unfolding allocateMoreSlots_def Let_def
  proof (rule stops_only_bind [OF alone])
    fix y assume y: "?alloc = Inr y"
    obtain b w1 where b: "y = (b, w1)" by (cases y)
    show "stops_only out_of_memory (case y of (newAllocation, w1) \<Rightarrow> if newAllocation = 0 then Inr w1 else
      and_then (touch_list pf w1) (\<lambda>w1.
      and_then (touch_list pf (w1\<lparr>allocList := newAllocation, allocListSize := ?n,
                   slots := slots w1 @ replicate (unat (slotsPerPage w1)) zero_slot,
                   unUsedSlots := unUsedSlots w1 + slotsPerPage w1\<rparr>)) (\<lambda>w1.
      duma_deallocate pf (allocList w) False EFA_INT_DEALLOC ?pos w1)))"
    proof (cases "b = 0")
      case False
      from after [OF y [unfolded b] False] lo [OF y [unfolded b]] False show ?thesis
        by (simp add: b touch_list_def returns_stops_only flip: larger_table_def)
    qed (simp add: b)
  qed
  assume "allocateMoreSlots pf w = Inr w'"
  then obtain b w1 where ab: "?alloc = Inr (b, w1)" and rest: "b = 0 \<and> w' = w1 \<or> b \<noteq> 0 \<and>
      duma_deallocate pf (allocList w) False EFA_INT_DEALLOC ?pos (larger_table b ?n w1) = Inr w'" by (rule allocateMoreSlots_steps)
  show "list_open pf w' \<and> 2 \<le> spare (slots w')"
  proof (cases "b = 0")
    case True
    have "spare (slots w) \<le> spare (slots w1)"
      using more_slots(4,9) [OF os ok sl ab] True by (intro spare_mono) simp_all
    with True rest sp more_slots(8) [OF os ok sl ab] show ?thesis by simp
  qed (use after [OF ab] rest in simp)
qed

interpretation roomy: growing_table pf "allocateMoreSlots pf"
  by unfold_locales (use allocateMoreSlots_stops in blast)+

section \<open>\<open>_duma_allocate\<close>\<close>

lemma duma_allocate_stops:
  assumes a: "at_work pf w" and s: "prot \<Longrightarrow> sem_inv pf (sem_view w)" and o: "\<not> prot \<Longrightarrow> list_open pf w"
    and rq: "request_ok pf (effective_alignment al usz w) usz below alloc w"
  shows "stops_only out_of_memory (duma_allocate pf al usz below fb prot alloc fail pos w)"
proof -
  define w0 where "w0 = count_alloc usz pos w"
  note w0 = count_alloc_same [of usz pos w, folded w0_def]
  have ok: "heap_ok pf w" using a by (simp add: at_work_def)
  have c: "config w0 = config w" "sem_view w0 = sem_view w"
    unfolding w0_def by (rule config_fixed sem_view_steady [OF steady_fixed], rule fixed_count)+
  have "stops_only out_of_memory (allocate_block (allocateMoreSlots pf) pf al usz below fb prot alloc fail pos w0)"
  proof (rule roomy.allocate_block_stops)
    have "heap_ok pf w0" unfolding w0_def by (rule count_alloc_ok(1) [OF ok])
    then show "at_work pf w0" using a config_fields [OF c(1)] by (simp add: at_work_def w0)
    show "sem_inv pf (sem_view w0)" if prot using s [OF that] by (simp add: c)
    show "list_open pf w0" if "\<not> prot" using o [OF that] list_open_cong [of w0 w pf] by (simp add: w0)
    show "effective_alignment al usz w = (if usz = 0 then al else alloc_alignment al usz w0)"
      by (simp add: effective_alignment_def alloc_alignment_def w0)
  qed (use rq in \<open>simp_all add: request_ok_def\<close>)
  then show ?thesis
    using rq allocList_nonzero [OF ok] unfolding duma_allocate_def allocate_with_def Let_def w0_def
    by (auto simp: request_ok_def split: DUMA_AllocStd.splits)
qed

end
