(* ===== verification/Duma_Progress.thy ===== *)
theory Duma_Progress
  imports Duma_Alloc_Returns Duma_Client
begin

text \<open>
  No false alarms.

  DUMA stops a program when it detects an error.  Here is the converse of that: a program that
  frees only its own blocks and stays inside them is never stopped, unless the kernel has no
  memory left.  The invariant behind it is \<open>sound\<close>: the no man's land of every block of the
  program is untouched.
\<close>

section \<open>Blocks in order\<close>

definition healthy :: "world \<Rightarrow> DUMA_Slot \<Rightarrow> bool" where
  "healthy w s \<longleftrightarrow> (live s \<longrightarrow> intact w s \<and> alloc_type (allocator s) = DUMAAT_MALLOC)"

definition in_order :: "world \<Rightarrow> bool" where
  "in_order w \<longleftrightarrow> (\<forall>j < length (slots w). healthy w (slots w ! j))"

lemma live_slack_in_slot:
  assumes "heap_ok pf w" and "i < length (slots w)" "live (slots w ! i)" and "slack_byte (slots w ! i) x"
  shows "in_slot (slots w ! i) x"
  using slack_in_slot [OF assms(4) live_facts(2) [OF assms(1-3)] live_in_slot [OF assms(1-3)] live_facts(1) [OF assms(1-3)]] .

lemma in_order_keeps:
  assumes ok: "heap_ok pf w" and g: "in_order w" and k: "keeps pf I w w'" and s: "config w' = config w"
    and I: "\<And>j. j \<in> I \<Longrightarrow> j < length (slots w') \<Longrightarrow> healthy w' (slots w' ! j)"
  shows "in_order w'"
  unfolding in_order_def
proof (intro allI impI)
  fix j assume j: "j < length (slots w')"
  show "healthy w' (slots w' ! j)"
  proof (cases "j \<in> I \<or> \<not> live (slots w' ! j)")
    case True
    with I [OF _ j] show ?thesis by (auto simp: healthy_def)
  next
    case False
    then have n: "j \<notin> I" "live (slots w' ! j)" by simp_all
    note b = keeps_back [OF k j n]
    with n have l: "live (slots w ! j)" by simp
    from g b(1) l have h: "intact w (slots w ! j)" "alloc_type (allocator (slots w ! j)) = DUMAAT_MALLOC"
      by (simp_all add: in_order_def healthy_def)
    have "bytes w' x = ucast (SLACKFILL w')" if x: "slack_byte (slots w ! j) x" for x
      using keepsD(4) [OF k b(1) n(1) l live_slack_in_slot [OF ok b(1) l x]] h(1) x config_fields(3) [OF s]
      by (simp add: intact_def)
    with h(2) show ?thesis by (simp add: healthy_def intact_def b(2))
  qed
qed

lemma in_order_dead: "\<not> live s \<Longrightarrow> healthy w s"
  by (simp add: healthy_def)

text \<open>Each operation keeps the blocks in order.\<close>

lemma allocate_in_order:
  assumes os: "os_ok pf" and ok: "heap_ok pf w" and sl: "small_list w" and g: "in_order w"
    and rq: "request_ok pf (effective_alignment al usz w) usz below alloc w" and t: "alloc_type alloc = DUMAAT_MALLOC"
    and a: "duma_allocate pf al usz below fb prot alloc fail pos w = Inr (u, w')"
  shows "in_order w'"
proof -
  from duma_allocate_allocated [OF os ok sl rq a] obtain f
    where f: "allocated pf (effective_alignment al usz w) usz below fb alloc pos f u w w'" ..
  then have k: "keeps pf (if u = 0 then {} else {f}) w w'"
    and nb: "u \<noteq> 0 \<Longrightarrow> new_block pf (effective_alignment al usz w) usz below alloc pos u w' (slots w' ! f)"
    by (simp_all add: allocated_def)
  show ?thesis
    by (rule in_order_keeps [OF ok g k duma_allocate_config(1) [OF a]])
      (use nb t in \<open>auto simp: healthy_def intact_def new_block_def split: if_splits\<close>)
qed

lemma deallocate_in_order:
  assumes ok: "heap_ok pf w" and g: "in_order w" and d: "alloc_type d \<noteq> DUMAAT_INTERNAL"
    and f: "duma_deallocate pf a prot d pos w = Inr w'"
  shows "in_order w'"
proof (cases "a = 0 \<or> a = null_addr w")
  case True
  with f have "w' = w" using allocList_nonzero [OF ok] by (auto simp: duma_deallocate_def)
  with g show ?thesis by simp
next
  case False
  then have a: "a \<noteq> 0" "a \<noteq> null_addr w" by simp_all
  from duma_deallocate_ok [OF ok a d f] obtain i where k: "keeps pf {i} w w'"
    and st: "state (slots w' ! i) = DUMAST_ALL_PROTECTED \<or> state (slots w' ! i) = DUMAST_EMPTY" by metis
  from st have "\<not> live (slots w' ! i)" by (auto simp: live_def)
  then show ?thesis
    by (intro in_order_keeps [OF ok g k config_deallocate [OF f]]) (simp add: in_order_dead)
qed

lemma open_in_order:
  "heap_ok pf w \<Longrightarrow> in_order w \<Longrightarrow> open_list pf prot w = Inr w' \<Longrightarrow> in_order w'"
  by (rule in_order_keeps [OF _ _ open_list_keeps(1) config_open, where I = "{}"]) simp_all

lemma close_in_order:
  "heap_ok pf w \<Longrightarrow> in_order w \<Longrightarrow> close_list pf prot w = Inr w' \<Longrightarrow> in_order w'"
  by (rule in_order_keeps [OF _ _ close_list_keeps(1) config_close, where I = "{}"]) simp_all

text \<open>Writing inside a block leaves its no man's land alone.\<close>

lemma user_bytes_in_order:
  assumes ok: "heap_ok pf w" and g: "in_order w" and i: "i < length (slots w)" "live (slots w ! i)"
    and b: "\<And>x. \<not> (unat (userAddress (slots w ! i)) \<le> unat x \<and>
      unat x < unat (userAddress (slots w ! i)) + unat (userSize (slots w ! i))) \<Longrightarrow> b x = bytes w x"
  shows "in_order (w\<lparr>bytes := b\<rparr>)"
proof (rule in_order_keeps [OF ok g user_bytes_frame(2) [OF ok i b] config_bytes])
  fix j assume "j \<in> {i}"
  moreover have "b x = ucast (SLACKFILL w)" if "slack_byte (slots w ! i) x" for x
    using b [OF slack_not_user [OF that live_facts(1,2) [OF ok i]]] g i that by (simp add: in_order_def healthy_def intact_def)
  ultimately show "healthy (w\<lparr>bytes := b\<rparr>) (slots (w\<lparr>bytes := b\<rparr>) ! j)"
    using g i by (simp add: in_order_def healthy_def intact_def)
qed

section \<open>The slot array stays open\<close>

context table_grower begin

lemma allocate_block_open:
  assumes ab: "allocate_block grow pf al0 usz below fb False alloc fail pos w = Inr (u, w')"
    and os: "os_ok pf" and ok: "heap_ok pf w" and sl: "small_list w"
    and al: "al = (if usz = 0 then al0 else alloc_alignment al0 usz w)"
    and sm: "small_request al usz" and b: "below \<and> usz \<noteq> 0 \<longrightarrow> unat al \<le> psz pf"
  shows "list_open pf w'"
proof -
  from ab al obtain w1 w2 f e0 w3 w4 where cf: "check_freq pf w = Inr w1"
    and g: "(if alloc_type alloc \<noteq> DUMAAT_INTERNAL \<and> unUsedSlots w1 < 7 then grow w1 else Inr w1) = Inr w2"
    and fc: "find_or_create pf usz (internal_size pf al usz) fail w2 = Inr (f, e0, w3)"
    and us: "use_slot pf al usz below (internal_size pf al usz) alloc pos f e0 w3 = Inr (u, w4)"
    and ms: "(if u \<noteq> 0 \<and> fb \<noteq> - 1 \<and> usz \<noteq> 0 then memset pf (unat usz) u (ucast fb) w4 else Inr w4) = Inr w'"
    unfolding allocate_block_def Let_def
    by (auto simp: and_then_Inr_iff open_list_def close_list_def split: if_splits)
  from cf obtain c where w1: "w1 = w\<lparr>checkFreqCounter := c\<rparr>" by (rule check_freq_frame)
  have ok1: "heap_ok pf w1" and sl1: "small_list w1" using ok sl by (simp_all add: w1 small_list_def)
  have "heap_ok pf w2" using g grow_ok [OF os ok1 sl1, of w2] ok1 by (auto split: if_splits)
  from core_ok(12) [OF fc us this os sm b] have "list_open pf w4" .
  moreover from ms obtain c where "w' = w4\<lparr>bytes := c\<rparr>" by (cases w4) (auto split: if_splits dest!: memset_Inr)
  ultimately show ?thesis using list_open_cong [of w' w4 pf] by simp
qed

end

lemma duma_allocate_open:
  assumes os: "os_ok pf" and ok: "heap_ok pf w" and sl: "small_list w"
    and rq: "request_ok pf (effective_alignment al usz w) usz below alloc w"
    and a: "duma_allocate pf al usz below fb False alloc fail pos w = Inr (u, w')"
  shows "list_open pf w'"
proof -
  define w0 where "w0 = count_alloc usz pos w"
  note w0 = count_alloc_same [of usz pos w, folded w0_def]
  from a rq have ab: "allocate_block (allocateMoreSlots pf) pf al usz below fb False alloc fail pos w0 = Inr (u, w')"
    unfolding duma_allocate_def allocate_with_def Let_def w0_def
    by (auto simp: request_ok_def split: if_splits DUMA_AllocStd.splits)
  have ok0: "heap_ok pf w0" unfolding w0_def by (rule count_alloc_ok(1) [OF ok])
  have "effective_alignment al usz w = (if usz = 0 then al else alloc_alignment al usz w0)"
    by (simp add: effective_alignment_def alloc_alignment_def w0)
  from growth.allocate_block_open [OF ab os ok0 _ this] rq sl show ?thesis by (simp add: request_ok_def w0)
qed

section \<open>Freeing and resizing\<close>

definition fit :: "platform \<Rightarrow> world \<Rightarrow> bool" where
  "fit pf w \<longleftrightarrow> reliable pf \<and> os_ok pf \<and> heap_ok pf w \<and> in_order w \<and> CHECK_FREQ w \<le> 0"

lemma fitD:
  assumes "fit pf w"
  shows "reliable pf" "os_ok pf" "heap_ok pf w" "in_order w" "CHECK_FREQ w \<le> 0" "allocList w \<noteq> 0"
  using assms allocList_nonzero [of pf w] by (simp_all add: fit_def)

lemma fitI: "fit pf w \<Longrightarrow> heap_ok pf w' \<Longrightarrow> in_order w' \<Longrightarrow> config w' = config w \<Longrightarrow> fit pf w'"
  using config_fields(1) [of w' w] by (simp add: fit_def)

lemma is_block_iff: "is_block w a \<longleftrightarrow> (\<exists>i < length (slots w). live (slots w ! i) \<and> userAddress (slots w ! i) = a)"
  by (simp add: is_block_def list_ex_length)

text \<open>What a program may free.\<close>

definition freed_ok :: "u64 \<Rightarrow> world \<Rightarrow> bool" where
  "freed_ok a w \<longleftrightarrow> a = 0 \<or> a = null_addr w \<or> is_block w a"

lemma free_returns:
  assumes g: "fit pf w" and s: "prot \<Longrightarrow> sem_inv pf (sem_view w)" and o: "\<not> prot \<Longrightarrow> list_open pf w"
    and a: "freed_ok a w" and d: "alloc_type d = DUMAAT_MALLOC"
  shows "returns (duma_deallocate pf a prot d pos w)"
proof (cases "a = 0 \<or> a = null_addr w")
  case True
  with fitD(6) [OF g] show ?thesis by (auto simp: duma_deallocate_def)
next
  case False
  with a obtain i where i: "i < length (slots w)" "live (slots w ! i)" "userAddress (slots w ! i) = a"
    by (auto simp: freed_ok_def is_block_iff)
  with fitD [OF g] have "intact w (slots w ! i)" "alloc_type (allocator (slots w ! i)) = alloc_type d"
    by (simp_all add: in_order_def healthy_def d)
  with fitD [OF g] s o i d show ?thesis by (intro deallocate_returns) simp_all
qed

lemma free_fit:
  assumes g: "fit pf w" and d: "alloc_type d = DUMAAT_MALLOC" and f: "duma_deallocate pf a prot d pos w = Inr w'"
  shows "fit pf w'" "\<not> prot \<Longrightarrow> sem_view w' = sem_view w"
proof -
  have "heap_ok pf w'"
  proof (cases "a = 0 \<or> a = null_addr w")
    case True
    with f fitD(3,6) [OF g] show ?thesis by (auto simp: duma_deallocate_def)
  next
    case False
    then show ?thesis using d by (intro deallocate_simulated(1) [OF fitD(3) [OF g] _ _ _ f]) simp_all
  qed
  then show "fit pf w'"
    using d by (intro fitI [OF g _ deallocate_in_order [OF fitD(3,4) [OF g] _ f] config_deallocate [OF f]]) simp_all
  show "sem_view w' = sem_view w" if "\<not> prot"
    using f that
    by (intro sem_view_steady) (auto simp: duma_deallocate_def open_list_def close_list_def and_then_Inr_iff split: if_splits
      dest!: steady_fixed [OF fixed_check_freq] steady_counted [OF counted_free_block])
qed

lemma realloc_move_fit:
  assumes g: "fit pf w" and o: "list_open pf w"
    and i: "i < length (slots w)" "live (slots w ! i)" "userAddress (slots w ! i) = old"
    and f: "f < length (slots w)" "live (slots w ! f)" "userAddress (slots w ! f) = ptr" "userSize (slots w ! f) = sz"
    and ne: "i \<noteq> f" and a: "old \<noteq> 0" and sz: "unat sz < 2 ^ 32"
  shows "returns (realloc_move pf old ptr sz pos w)"
    "realloc_move pf old ptr sz pos w = Inr w' \<Longrightarrow> fit pf w' \<and> sem_view w' = sem_view w \<and> config w' = config w"
proof -
  let ?w = "w\<lparr>bytes := resized_bytes old (unat (userSize (slots w ! i))) ptr (unat sz) (bytes w)\<rparr>"
  note G = fitD [OF g]
  obtain q where q: "slotForUserAddress pf old w = Inr q" using o by (simp add: slotForUserAddress_def touch_list_def)
  note eq = realloc_move_eq [OF G(3) i f ne a sz q]
  have b: "resized_bytes old (unat (userSize (slots w ! i))) ptr (unat sz) (bytes w) x = bytes w x"
    if "\<not> (unat (userAddress (slots w ! f)) \<le> unat x \<and>
      unat x < unat (userAddress (slots w ! f)) + unat (userSize (slots w ! f)))" for x
    using that f(3,4) by (auto simp: resized_bytes_def)
  have g1: "fit pf ?w"
    by (rule fitI [OF g user_bytes_frame(1) [OF G(3) f(1,2) b] user_bytes_in_order [OF G(3,4) f(1,2) b] config_bytes])
  have "sem_view ?w = sem_view w" by (simp add: sem_view_def)
  with free_fit [OF g1, of EFA_REALLOC old False pos w'] config_deallocate [of pf old False EFA_REALLOC pos ?w w']
    config_bytes [of "bytes ?w" w]
  show "realloc_move pf old ptr sz pos w = Inr w' \<Longrightarrow> fit pf w' \<and> sem_view w' = sem_view w \<and> config w' = config w" unfolding eq by simp
  show "returns (realloc_move pf old ptr sz pos w)"
    unfolding eq
  proof (rule free_returns [OF g1])
    show "list_open pf ?w" using o list_open_cong [of ?w w pf] by simp
    show "freed_ok old ?w" using i by (auto simp: freed_ok_def is_block_iff)
  qed simp_all
qed

lemma allocate_fit:
  assumes g: "fit pf w" and sl: "small_list w" and rq: "request_ok pf (effective_alignment al usz w) usz below alloc w"
    and t: "alloc_type alloc = DUMAAT_MALLOC" and a: "duma_allocate pf al usz below fb prot alloc fail pos w = Inr (u, w')"
  shows "fit pf w'" "\<not> prot \<Longrightarrow> sem_view w' = sem_view w"
proof -
  note G = fitD [OF g]
  have "heap_ok pf w'" using duma_allocate_allocated [OF G(2,3) sl rq a] by (auto simp: allocated_def)
  then show "fit pf w'"
    by (rule fitI [OF g _ allocate_in_order [OF G(2,3) sl G(4) rq t a] duma_allocate_config(1) [OF a]])
  show "\<not> prot \<Longrightarrow> sem_view w' = sem_view w" using duma_allocate_config(2) [OF a] by (intro sem_view_steady)
qed

section \<open>The calls return\<close>

text \<open>Between opening and closing the slot array; \<open>2 \<le> spare (slots w)\<close> are the slots an allocation may use.\<close>

definition can_allocate :: "world \<Rightarrow> bool" where
  "can_allocate w \<longleftrightarrow> small_list w \<and> 2 \<le> spare (slots w) \<and> 2 \<le> unat (slotsPerPage w)"

lemma fit_at_work: "fit pf w \<Longrightarrow> can_allocate w \<Longrightarrow> at_work pf w"
  by (simp add: fit_def can_allocate_def at_work_def)

lemma realloc_body_fit:
  assumes g: "fit pf w" and o: "list_open pf w" and r: "ready pf fb na w" and n: "unat n \<le> 2 ^ 29"
    and al: "n \<noteq> 0 \<Longrightarrow> can_allocate w \<and> (a = 0 \<or> is_block w a)" and fr: "n = 0 \<Longrightarrow> a \<noteq> 0 \<and> freed_ok a w"
  shows "stops_only out_of_memory (realloc_body pf a n pos w)"
    "realloc_body pf a n pos w = Inr (u, w') \<Longrightarrow> fit pf w' \<and> sem_view w' = sem_view w \<and> config w' = config w"
proof -
  have small: "unat n < 2 ^ 32" using n by simp
  have rq: "request_ok pf (effective_alignment 0 n w) n below EFA_REALLOC w" if "n \<noteq> 0" for below
    using ready_request [OF r that n] by simp
  have st: "stops_only out_of_memory (duma_allocate pf 0 n below fill False EFA_REALLOC fail pos w)" if "n \<noteq> 0" for below fill fail
    using al [OF that] fit_at_work [OF g] o by (intro duma_allocate_stops rq that) simp_all
  have af: "fit pf w1 \<and> sem_view w1 = sem_view w \<and> config w1 = config w"
    if "n \<noteq> 0" "duma_allocate pf 0 n below fill False EFA_REALLOC fail pos w = Inr (v, w1)" for below fill fail v w1
    using al [OF that(1)] allocate_fit [OF g _ rq [OF that(1)] _ that(2)] duma_allocate_config(1) [OF that(2)]
    by (simp add: can_allocate_def)
  have move: "returns (realloc_move pf a v n pos w1) \<and>
      (realloc_move pf a v n pos w1 = Inr w2 \<longrightarrow> fit pf w2 \<and> sem_view w2 = sem_view w \<and> config w2 = config w)"
    if "n \<noteq> 0" "a \<noteq> 0" and d: "duma_allocate pf 0 n (PROTECT_BELOW w) (- 1) False EFA_REALLOC DUMA_FAIL_ENV pos w = Inr (v, w1)"
      and v: "v \<noteq> 0" for v w1 w2
  proof -
    from al [OF that(1)] that(2) have sl: "small_list w" and ib: "is_block w a" by (simp_all add: can_allocate_def)
    from ib obtain i where i: "i < length (slots w)" "live (slots w ! i)" "userAddress (slots w ! i) = a"
      by (auto simp: is_block_iff)
    from duma_allocate_allocated [OF fitD(2,3) [OF g] sl rq [OF that(1)] d] obtain f
      where f: "allocated pf (effective_alignment 0 n w) n (PROTECT_BELOW w) (- 1) EFA_REALLOC pos f v w w1" ..
    note F = allocated_facts [OF f v, simplified]
    have ne: "i \<notin> {f}" using F(5) i by auto
    note k = keepsD(1,2) [OF F(3) i(1) ne i(2)]
    have li: "live (slots w1 ! i)" "userAddress (slots w1 ! i) = a" using i k by simp_all
    have o1: "list_open pf w1" by (rule duma_allocate_open [OF fitD(2,3) [OF g] sl rq [OF that(1)] d])
    from ne have ne: "i \<noteq> f" by simp
    from af [OF that(1) d] have g1: "fit pf w1" and s1: "sem_view w1 = sem_view w" "config w1 = config w" by simp_all
    note M = realloc_move_fit [OF g1 o1 k(1) li F(1,4,6,7) ne that(2) small]
    from M(1) [of pos] M(2) [of pos w2] s1 show ?thesis by simp
  qed
  consider "a = 0" "n \<noteq> 0" | "a \<noteq> 0" "n = 0" | "a \<noteq> 0" "n \<noteq> 0" using fr by blast
  then have "stops_only out_of_memory (realloc_body pf a n pos w) \<and>
    (realloc_body pf a n pos w = Inr (u, w') \<longrightarrow> fit pf w' \<and> sem_view w' = sem_view w \<and> config w' = config w)"
  proof cases
    case 1
    then show ?thesis using st af by (simp add: realloc_body_def)
  next
    case 2
    have "returns (duma_deallocate pf a False EFA_REALLOC pos w)" using fr [OF 2(2)] o by (intro free_returns [OF g]) simp_all
    with 2 free_fit [OF g, of EFA_REALLOC a False pos] config_deallocate [of pf a False EFA_REALLOC pos w] show ?thesis
      by (auto simp: realloc_body_def and_then_Inr_iff intro!: returns_bind)
  next
    case 3
    note st3 = st [OF 3(2), of "PROTECT_BELOW w" "- 1" DUMA_FAIL_ENV]
    have "stops_only out_of_memory (case y of (ptr, w) \<Rightarrow>
        if ptr \<noteq> 0 then and_then (realloc_move pf a ptr n pos w) (\<lambda>w. Inr (ptr, w)) else Inr (ptr, w))"
      if "duma_allocate pf 0 n (PROTECT_BELOW w) (- 1) False EFA_REALLOC DUMA_FAIL_ENV pos w = Inr y" for y
      using move [OF 3(2,1), of "fst y" "snd y"] that by (cases y) (auto intro!: returns_bind)
    with st3 have "stops_only out_of_memory (and_then
        (duma_allocate pf 0 n (PROTECT_BELOW w) (- 1) False EFA_REALLOC DUMA_FAIL_ENV pos w) (\<lambda>(ptr, w).
        if ptr \<noteq> 0 then and_then (realloc_move pf a ptr n pos w) (\<lambda>w. Inr (ptr, w)) else Inr (ptr, w)))"
      by (rule stops_only_bind)
    with 3 have "stops_only out_of_memory (realloc_body pf a n pos w)" by (simp add: realloc_body_def)
    moreover have "fit pf w' \<and> sem_view w' = sem_view w \<and> config w' = config w" if b: "realloc_body pf a n pos w = Inr (u, w')"
    proof -
      from b 3 obtain v w1 where d: "duma_allocate pf 0 n (PROTECT_BELOW w) (- 1) False EFA_REALLOC DUMA_FAIL_ENV pos w = Inr (v, w1)"
        and m: "if v \<noteq> 0 then realloc_move pf a v n pos w1 = Inr w' else w' = w1"
        by (auto simp: realloc_body_def and_then_Inr_iff split: if_splits)
      from m move [OF 3(2,1) d, of w'] af [OF 3(2) d] show ?thesis by (cases "v = 0") simp_all
    qed
    ultimately show ?thesis by blast
  qed
  then show "stops_only out_of_memory (realloc_body pf a n pos w)"
    "realloc_body pf a n pos w = Inr (u, w') \<Longrightarrow> fit pf w' \<and> sem_view w' = sem_view w \<and> config w' = config w" by blast+
qed

lemma open_fit:
  assumes g: "fit pf w" and o: "open_list pf prot w = Inr w1"
  shows "fit pf w1" "can_allocate w \<Longrightarrow> can_allocate w1" "freed_ok a w \<Longrightarrow> freed_ok a w1" "is_block w a \<Longrightarrow> is_block w1 a"
proof -
  note G = fitD [OF g] and sl = open_list_keeps(2) [OF o fitD(3) [OF g]]
  have ok: "heap_ok pf w1" using open_list_ok [OF o G(3)] by simp
  show "fit pf w1" by (rule fitI [OF g ok open_in_order [OF G(3,4) o] config_open [OF o]])
  show "can_allocate w \<Longrightarrow> can_allocate w1"
    using open_list_same [OF o] config_fields(2) [OF config_open [OF o]] sl by (simp add: can_allocate_def small_list_def)
  show "freed_ok a w \<Longrightarrow> freed_ok a w1" "is_block w a \<Longrightarrow> is_block w1 a"
    using null_addr_config [OF config_open [OF o]] sl by (simp_all add: freed_ok_def is_block_def)
qed

lemma close_fit: "fit pf w \<Longrightarrow> close_list pf prot w = Inr w1 \<Longrightarrow> fit pf w1"
  using fitI [of pf w w1] close_list_ok [of pf prot w w1] close_in_order [of pf w prot w1] config_close [of pf prot w w1] fitD(3,4) [of pf w]
  by simp

lemma open_close_sem_view:
  assumes o: "open_list pf True w = Inr w1" and c: "close_list pf True w2 = Inr w3" and v: "sem_view w2 = sem_view w1"
    and inv: "sem_inv pf (sem_view w)"
  shows "sem_view w3 = sem_view w"
proof (rule bracket_sem_view [OF _ inv])
  let ?body = "\<lambda>v. if v = w1 then Inr w2 else Inl Blocked"
  show "and_then (open_list pf True w) (\<lambda>v. and_then (?body v) (close_list pf True)) = Inr w3" using o c by simp
  show "sem_view v' = sem_view v" if "?body v = Inr v'" for v v' using that v by (simp split: if_splits)
qed

section \<open>Programs without errors\<close>

text \<open>The state between two calls, and the calls a program without errors makes.\<close>

definition safe :: "platform \<Rightarrow> u8 option \<Rightarrow> u64 \<Rightarrow> world \<Rightarrow> bool" where
  "safe pf fb na w \<longleftrightarrow> ready pf fb na w \<and> fit pf w \<and> 2 \<le> unat (slotsPerPage w) \<and> sem_inv pf (sem_view w)"

fun proper :: "cmd \<Rightarrow> world \<Rightarrow> bool" where
  "proper (Malloc n) w \<longleftrightarrow> allowed (Malloc n) w \<and> 2 \<le> spare (slots w)"
| "proper (Calloc n m) w \<longleftrightarrow> allowed (Calloc n m) w \<and> 2 \<le> spare (slots w)"
| "proper (Realloc a n) w \<longleftrightarrow> allowed (Realloc a n) w \<and> (if n = 0 then freed_ok a w else 2 \<le> spare (slots w))"
| "proper (Free a) w \<longleftrightarrow> freed_ok a w"
| "proper (Read x) w \<longleftrightarrow> owns w x"
| "proper (Write x v) w \<longleftrightarrow> owns w x"

lemma proper_allowed: "proper c w \<Longrightarrow> allowed c w"
  by (cases c) (auto split: if_splits)

lemma safe_step:
  "safe pf fb na w \<Longrightarrow> ready pf fb na w' \<Longrightarrow> fit pf w' \<Longrightarrow> config w' = config w \<Longrightarrow> sem_view w' = sem_view w \<Longrightarrow> safe pf fb na w'"
  using config_fields(2) [of w' w] by (simp add: safe_def)

lemma malloc_returns:
  assumes s: "safe pf fb na w" and n: "n \<noteq> 0" "unat n \<le> 2 ^ 29" and al: "small_list w" "2 \<le> spare (slots w)"
    and t: "alloc_type alloc = DUMAAT_MALLOC" "alloc \<noteq> EFA_INT_ALLOC"
  shows "stops_only out_of_memory (duma_allocate pf 0 n below fill True alloc fail pos w)"
    "duma_allocate pf 0 n below fill True alloc fail pos w = Inr (u, w') \<Longrightarrow>
       fit pf w' \<and> sem_view w' = sem_view w \<and> config w' = config w"
proof -
  from s have r: "ready pf fb na w" and g: "fit pf w" and inv: "sem_inv pf (sem_view w)" and c: "can_allocate w"
    using al by (simp_all add: safe_def can_allocate_def)
  note rq = ready_request [OF r n t(2)]
  show "stops_only out_of_memory (duma_allocate pf 0 n below fill True alloc fail pos w)"
    by (rule duma_allocate_stops [OF fit_at_work [OF g c] _ _ rq]) (use inv in simp_all)
  assume a: "duma_allocate pf 0 n below fill True alloc fail pos w = Inr (u, w')"
  show "fit pf w' \<and> sem_view w' = sem_view w \<and> config w' = config w"
    using allocate_fit(1) [OF g al(1) rq t(1) a] duma_allocate_config(1,3) [OF a] inv by simp
qed

lemma realloc_returns:
  assumes s: "safe pf fb na w" and p: "proper (Realloc a n) w"
  shows "stops_only out_of_memory (realloc_with init pf a n pos w)"
    "realloc_with init pf a n pos w = Inr (u, w') \<Longrightarrow> fit pf w' \<and> sem_view w' = sem_view w \<and> config w' = config w"
proof -
  from s have r: "ready pf fb na w" and g: "fit pf w" and inv: "sem_inv pf (sem_view w)" and sp: "2 \<le> unat (slotsPerPage w)"
    by (simp_all add: safe_def)
  note G = fitD [OF g]
  have body: "stops_only out_of_memory (realloc_body pf a n pos w1)"
      "realloc_body pf a n pos w1 = Inr (v, w2) \<Longrightarrow> fit pf w2 \<and> sem_view w2 = sem_view w1 \<and> config w2 = config w1"
    if o: "open_list pf True w = Inr w1" for w1 v w2
  proof -
    note O = open_fit [OF g o]
    have r1: "ready pf fb na w1" by (rule ready_config [OF r fitD(3) [OF O(1)] config_open [OF o]])
    have lo: "list_open pf w1" using open_list_ok [OF o G(3)] by simp
    have n: "unat n \<le> 2 ^ 29" using p by (cases "n = 0") simp_all
    have al: "can_allocate w1 \<and> (a = 0 \<or> is_block w1 a)" if "n \<noteq> 0"
      using p that sp O(2,4) by (auto simp: can_allocate_def)
    have fr: "a \<noteq> 0 \<and> freed_ok a w1" if "n = 0" using p that O(3) by simp
    note B = realloc_body_fit [OF O(1) lo r1 n al fr]
    show "stops_only out_of_memory (realloc_body pf a n pos w1)" by (rule B(1))
    show "realloc_body pf a n pos w1 = Inr (v, w2) \<Longrightarrow> fit pf w2 \<and> sem_view w2 = sem_view w1 \<and> config w2 = config w1" by (rule B(2))
  qed
  have close: "returns (close_list pf True w2)"
    if o: "open_list pf True w = Inr w1" and b: "realloc_body pf a n pos w1 = Inr (v, w2)" for w1 v w2
    using body(2) [OF o b] inv by (intro close_list_returns [OF G(1) fitD(3) _ o]) simp_all
  have "stops_only out_of_memory (and_then (open_list pf True w) (\<lambda>w. and_then (realloc_body pf a n pos w)
      (\<lambda>(ptr, w). and_then (close_list pf True w) (\<lambda>w. Inr (ptr, w)))))"
  proof (rule returns_bind)
    show "returns (open_list pf True w)" using G inv by (intro open_list_returns) simp_all
    fix w1 assume o: "open_list pf True w = Inr w1"
    show "stops_only out_of_memory (and_then (realloc_body pf a n pos w1)
        (\<lambda>(ptr, w). and_then (close_list pf True w) (\<lambda>w. Inr (ptr, w))))"
      by (rule stops_only_bind [OF body(1) [OF o]]) (use close [OF o] in \<open>auto intro!: returns_bind\<close>)
  qed
  then show "stops_only out_of_memory (realloc_with init pf a n pos w)"
    by (simp add: realloc_with_def ensure_init_done [OF G(6)])
  assume "realloc_with init pf a n pos w = Inr (u, w')"
  then obtain w1 w2 where o: "open_list pf True w = Inr w1" and b: "realloc_body pf a n pos w1 = Inr (u, w2)"
    and c: "close_list pf True w2 = Inr w'" by (auto simp: realloc_with_def ensure_init_done [OF G(6)] and_then_Inr_iff)
  from body(2) [OF o b] have w2: "fit pf w2" "sem_view w2 = sem_view w1" "config w2 = config w1" by simp_all
  with config_open [OF o] config_close [OF c] have "config w' = config w" by simp
  with close_fit [OF w2(1) c] open_close_sem_view [OF o c w2(2) inv]
  show "fit pf w' \<and> sem_view w' = sem_view w \<and> config w' = config w" by simp
qed

lemma exec_returns:
  assumes s: "safe pf fb na w" and p: "proper c w"
  shows "stops_only out_of_memory (exec pf c w)"
    "exec pf c w = Inr (r, w') \<Longrightarrow> fit pf w' \<and> sem_view w' = sem_view w \<and> config w' = config w"
proof -
  from s have g: "fit pf w" and inv: "sem_inv pf (sem_view w)" by (simp_all add: safe_def)
  note G = fitD [OF g]
  have "stops_only out_of_memory (exec pf c w) \<and>
    (exec pf c w = Inr (r, w') \<longrightarrow> fit pf w' \<and> sem_view w' = sem_view w \<and> config w' = config w)"
  proof (cases c)
    case (Malloc n)
    with p have "n \<noteq> 0" "unat n \<le> 2 ^ 29" "small_list w" "2 \<le> spare (slots w)" by simp_all
    note M = malloc_returns [OF s this, where alloc = EFA_MALLOC and pos = unknown_pos, simplified]
    show ?thesis using Malloc M
      by (auto simp: glob_malloc_def duma_malloc_def malloc_with_def ensure_init_done [OF G(6)] and_then_Inr_iff intro!: stops_only_bind)
  next
    case (Calloc n m)
    with p have n: "0 < unat n * unat m" "unat n * unat m \<le> 2 ^ 29" "small_list w" "2 \<le> spare (slots w)" by simp_all
    have nm: "unat (n * m) = unat n * unat m" using n(2) by (simp add: unat_word_ariths(2) mod_less)
    with n have "n * m \<noteq> 0" "unat (n * m) \<le> 2 ^ 29" by auto
    note M = malloc_returns [OF s this n(3,4), where alloc = EFA_CALLOC and pos = unknown_pos, simplified]
    show ?thesis using Calloc M
      by (auto simp: glob_calloc_def duma_calloc_def calloc_with_def ensure_init_done [OF G(6)] and_then_Inr_iff intro!: stops_only_bind)
  next
    case (Realloc a n)
    with p have "proper (Realloc a n) w" by simp
    note M = realloc_returns [OF s this, where pos = unknown_pos]
    show ?thesis using Realloc M
      by (auto simp: glob_realloc_def duma_realloc_def and_then_Inr_iff simp del: proper.simps intro!: stops_only_bind)
  next
    case (Free a)
    with p have "returns (duma_deallocate pf a True EFA_FREE unknown_pos w)" using inv by (intro free_returns [OF g]) simp_all
    moreover have "fit pf w1 \<and> sem_view w1 = sem_view w \<and> config w1 = config w"
      if "duma_deallocate pf a True EFA_FREE unknown_pos w = Inr w1" for w1
      using free_fit(1) [OF g _ that] deallocate_sem_view [OF inv G(3) that] config_deallocate [OF that] by simp
    ultimately show ?thesis using Free
      by (auto simp: glob_free_def duma_free_def free_with_def ensure_init_done [OF G(6)] and_then_Inr_iff intro!: returns_bind)
  next
    case (Read x)
    with p owns_byte [OF G(3)] obtain a k b where "byte_of (heap_of w) x a k b" by fastforce
    from byte_of_access(1) [OF G(3) this] Read g show ?thesis by auto
  next
    case (Write x v)
    with p owns_byte [OF G(3)] obtain a k b where b: "byte_of (heap_of w) x a k b" by fastforce
    from byte_of_access(2) [OF G(3) b] obtain w1 where w1: "store pf x v w = Inr w1" by blast
    then have eq: "w1 = w\<lparr>bytes := (bytes w)(x := v)\<rparr>" by (simp add: store_def split: if_splits)
    from p Write obtain i where i: "i < length (slots w)" "live (slots w ! i)" "unat (userAddress (slots w ! i)) \<le> unat x"
      "unat x < unat (userAddress (slots w ! i)) + unat (userSize (slots w ! i))"
      by (auto simp: owns_def list_ex_length)
    have "in_order w1" unfolding eq
      by (rule user_bytes_in_order [OF G(3,4) i(1,2)]) (use i(3,4) in auto)
    moreover have "heap_ok pf w1" "config w1 = config w" using store_simulated [OF G(3) b w1] by simp_all
    moreover have "sem_view w1 = sem_view w" by (simp add: eq sem_view_def)
    ultimately show ?thesis using Write w1 fitI [OF g] by auto
  qed
  then show "stops_only out_of_memory (exec pf c w)"
    "exec pf c w = Inr (r, w') \<Longrightarrow> fit pf w' \<and> sem_view w' = sem_view w \<and> config w' = config w" by blast+
qed

text \<open>The simulation of \<open>Duma_Client\<close>, for calls that are made right: \<open>tired\<close> says why such a call may still stop.\<close>

locale heap_progress = heap_simulation +
  fixes fine :: "u8 option \<Rightarrow> u64 \<Rightarrow> 'b \<Rightarrow> bool" and right :: "cmd \<Rightarrow> 'b \<Rightarrow> bool" and tired :: "'a \<Rightarrow> bool"
  assumes fine_inv: "fine fb na m \<Longrightarrow> inv fb na m" and right_ok: "right c m \<Longrightarrow> ok c m"
    and progress: "fine fb na m \<Longrightarrow> right c m \<Longrightarrow> stops_only tired (ex c m)"
    and stays_fine: "fine fb na m \<Longrightarrow> right c m \<Longrightarrow> ex c m = Inr (r, m') \<Longrightarrow> fine fb na m'"
begin

lemma run_progress:
  "fine fb na m \<Longrightarrow> allowed_all ex right cs m \<Longrightarrow> stops_only tired (exec_all ex cs m) \<and>
   (\<forall>rs m'. exec_all ex cs m = Inr (rs, m') \<longrightarrow> fine fb na m')"
proof (induction cs arbitrary: m)
  case (Cons c cs)
  from Cons.prems have p: "stops_only tired (ex c m)" using progress by simp
  show ?case
  proof (cases "ex c m")
    case (Inr x)
    obtain r m1 where e: "ex c m = Inr (r, m1)" using Inr by (cases x) simp
    then have "fine fb na m1" "allowed_all ex right cs m1" using Cons.prems stays_fine by auto
    from Cons.IH [OF this] e show ?thesis by (auto simp: and_then_Inr_iff intro!: stops_only_bind)
  qed (use p in simp)
qed simp

lemma right_allowed: "allowed_all ex right cs m \<Longrightarrow> allowed_all ex ok cs m"
  by (induction cs arbitrary: m) (auto simp: right_ok split: sum.splits)

lemma runs_or_tired:
  assumes f: "fine fb na m" and r: "allowed_all ex right cs m"
  shows "(\<exists>rs m'. exec_all ex cs m = Inr (rs, m') \<and> fine fb na m' \<and> heap_run fb na (abs m) cs rs (abs m')) \<or>
    (\<exists>e. exec_all ex cs m = Inl e \<and> tired e)"
proof (cases "exec_all ex cs m")
  case (Inl e)
  with run_progress [OF f r] show ?thesis by simp
next
  case (Inr x)
  obtain rs m' where e: "exec_all ex cs m = Inr (rs, m')" using Inr by (cases x) simp
  with run_progress [OF f r] run_simulated [OF fine_inv [OF f] right_allowed [OF r] e] show ?thesis by blast
qed

end

interpretation right: heap_progress "exec pf" allowed heap_of "ready pf" "safe pf" proper out_of_memory
proof unfold_locales
  fix fb na w c r w'
  show "safe pf fb na w \<Longrightarrow> ready pf fb na w" by (simp add: safe_def)
  show "proper c w \<Longrightarrow> allowed c w" by (rule proper_allowed)
  show "safe pf fb na w \<Longrightarrow> proper c w \<Longrightarrow> stops_only out_of_memory (exec pf c w)" by (rule exec_returns(1))
  assume s: "safe pf fb na w" and p: "proper c w" and e: "exec pf c w = Inr (r, w')"
  have "ready pf fb na w'" using exec_simulated [OF _ proper_allowed [OF p] e] s by (simp add: safe_def)
  with exec_returns(2) [OF s p e] safe_step [OF s] show "safe pf fb na w'" by simp
qed


text \<open>C8: Freeing one of the program's own blocks always returns, and takes exactly that block off the heap.\<close>

theorem free_own_block_returns:
  assumes s: "safe pf fb na w" and b: "is_block w a" and a: "a \<noteq> na"
  shows "\<exists>w'. exec pf (Free a) w = Inr (Done, w') \<and> safe pf fb na w' \<and> heap_of w' = (heap_of w)(a := None)"
proof -
  from s have g: "fit pf w" and inv: "sem_inv pf (sem_view w)" and na: "null_addr w = na"
    by (simp_all add: safe_def ready_def)
  note G = fitD [OF g]
  from b have p: "proper (Free a) w" by (simp add: freed_ok_def)
  then have "returns (duma_deallocate pf a True EFA_FREE unknown_pos w)" using inv by (intro free_returns [OF g]) simp_all
  then obtain w' where d: "duma_deallocate pf a True EFA_FREE unknown_pos w = Inr w'" by (auto simp: returns_iff)
  then have e: "exec pf (Free a) w = Inr (Done, w')"
    by (simp add: glob_free_def duma_free_def free_with_def ensure_init_done [OF G(6)])
  have "a \<noteq> 0" using b live_address_nonzero [OF G(3)] by (auto simp: is_block_iff)
  then have "heap_of w' = (heap_of w)(a := None)" using a na by (intro deallocate_simulated(3) [OF G(3) _ _ _ d]) simp_all
  with e right.stays_fine [OF s p e] show ?thesis by blast
qed


text \<open>The sample heap is safe.\<close>

lemma sample_safe: "safe sample_pf None 0 (sample_world NoAccess)"
proof -
  have "\<not> slack_byte sample_block x" for x
    by (auto simp: slack_byte_def acc_area_def sample_block_def zero_slot_def)
  then have "healthy (sample_world NoAccess) sample_block"
    by (simp add: healthy_def intact_def) (simp add: sample_block_def)
  moreover have "\<not> live sample_list_slot" "\<not> live sample_freed" "\<not> live sample_free_slot" "\<not> live zero_slot"
    by (simp_all add: live_def sample_list_slot_def sample_freed_def sample_free_slot_def zero_slot_def)
  moreover have "in_order w \<longleftrightarrow> list_all (healthy w) (slots w)" for w by (simp add: in_order_def list_all_length)
  ultimately have "in_order (sample_world NoAccess)" by (simp add: in_order_dead)
  then have "fit sample_pf (sample_world NoAccess)"
    using sample_reliable sample_os_ok sample_heap_ok [of NoAccess] by (simp add: fit_def sample_world_def initial_world_def)
  then show ?thesis
    using sample_ready by (simp add: safe_def) (simp add: sample_world_def initial_world_def sem_view_def)
qed


theorem free_own_block_returns_witness:
  "\<exists>w'. exec sample_pf (Free 0x10002000) (sample_world NoAccess) = Inr (Done, w') \<and> heap_of w' 0x10002000 = None"
proof -
  have "is_block (sample_world NoAccess) 0x10002000"
    by (simp add: is_block_def) (simp add: live_def sample_block_def)
  from free_own_block_returns [OF sample_safe this] show ?thesis by auto
qed


end
