(* ===== verification/Duma_TextFile.thy ===== *)
theory Duma_TextFile
  imports Duma_Prelude
begin

text \<open>
  The text files the stack trace reads: \<open>src/stacktrace/internal/TextFile.cpp\<close>.  A stream is what
  \<open>getc\<close> will still return, and whether it then fails or has reached the end.
\<close>

section \<open>The stream\<close>

datatype ErrorType = ERROR_NONE | ERROR_OPEN | ERROR_READ | ERROR_PARSE

record text_file =
  m_file :: "u8 list"
  fails :: bool
  at_eof :: bool
  m_peeked :: "u8 option"
  err :: ErrorType
  line_no :: int

text \<open>\<open>None\<close> is a file that cannot be opened.\<close>

definition TextFileImpl :: "u8 list option \<Rightarrow> bool \<Rightarrow> text_file" where
  "TextFileImpl contents bad =
     \<lparr>m_file = (case contents of None \<Rightarrow> [] | Some cs \<Rightarrow> cs), fails = bad, at_eof = False, m_peeked = None,
      err = (case contents of None \<Rightarrow> ERROR_OPEN | Some cs \<Rightarrow> ERROR_NONE), line_no = 1\<rparr>"

definition eof :: "text_file \<Rightarrow> bool" where
  "eof f \<longleftrightarrow> (if err f \<noteq> ERROR_NONE then True else at_eof f)"

text \<open>The character classes of the C locale; the files are ASCII.\<close>

definition isspace :: "u8 \<Rightarrow> bool" where
  "isspace c \<longleftrightarrow> c = 32 \<or> 9 \<le> c \<and> c \<le> 13"

definition isdigit :: "u8 \<Rightarrow> bool" where
  "isdigit c \<longleftrightarrow> 48 \<le> c \<and> c \<le> 57"

definition isalnum :: "u8 \<Rightarrow> bool" where
  "isalnum c \<longleftrightarrow> isdigit c \<or> 65 \<le> c \<and> c \<le> 90 \<or> 97 \<le> c \<and> c \<le> 122"

definition peekChar :: "text_file \<Rightarrow> u8 option \<times> text_file" where
  "peekChar f =
     (if err f \<noteq> ERROR_NONE then (None, f)
      else case m_peeked f of
          Some c \<Rightarrow> (Some c, f)
        | None \<Rightarrow> (case m_file f of
              c # cs \<Rightarrow> (Some c, f\<lparr>m_file := cs, m_peeked := Some c\<rparr>)
            | [] \<Rightarrow> (None, if fails f then f\<lparr>err := ERROR_READ\<rparr> else f\<lparr>at_eof := True\<rparr>)))"

definition readChar :: "text_file \<Rightarrow> u8 option \<times> text_file" where
  "readChar f =
     (if err f \<noteq> ERROR_NONE then (None, f)
      else let (more, f) = peekChar f; f = f\<lparr>m_peeked := None\<rparr> in
        (more, if more = Some 10 then f\<lparr>line_no := line_no f + 1\<rparr> else f))"

text \<open>What is still to be read.\<close>

definition input :: "text_file \<Rightarrow> u8 list" where
  "input f = (case m_peeked f of None \<Rightarrow> m_file f | Some c \<Rightarrow> c # m_file f)"

lemma peekChar_Some:
  assumes "peekChar f = (Some c, f')"
  shows "err f = ERROR_NONE" "err f' = ERROR_NONE" "input f = c # m_file f'" "input f' = input f" "m_peeked f' = Some c"
    "line_no f' = line_no f"
  using assms by (auto simp: peekChar_def input_def split: if_splits option.splits list.splits)

lemma peekChar_None:
  assumes "peekChar f = (None, f')"
  shows "input f' = input f" "err f = ERROR_NONE \<Longrightarrow> input f = []"
    "err f' = (if err f = ERROR_NONE \<and> fails f then ERROR_READ else err f)"
  using assms by (auto simp: peekChar_def input_def split: if_splits option.splits list.splits)

lemma readChar_Some:
  assumes "readChar f = (Some c, f')"
  shows "err f = ERROR_NONE" "err f' = ERROR_NONE" "input f = c # input f'"
  using assms by (auto simp: readChar_def peekChar_def input_def Let_def split: if_splits option.splits list.splits)

lemma readChar_after_peek:
  assumes "peekChar f = (Some c, f1)"
  shows "fst (readChar f1) = Some c" "input f = c # input (snd (readChar f1))" "err (snd (readChar f1)) = ERROR_NONE"
  using assms by (auto simp: readChar_def peekChar_def input_def Let_def split: if_splits option.splits list.splits)

lemma readChar_shorter:
  "peekChar f = (Some c, f1) \<Longrightarrow> length (input (snd (readChar f1))) < length (input f)"
  using readChar_after_peek(2) [of f c f1] by simp

section \<open>The loops\<close>

function skip_spaces :: "text_file \<Rightarrow> text_file" where
  "skip_spaces f =
     (case peekChar f of
        (None, f1) \<Rightarrow> f1
      | (Some c, f1) \<Rightarrow> if \<not> isspace c then f1 else skip_spaces (snd (readChar f1)))"
  by auto
termination by (relation "measure (\<lambda>f. length (input f))") (auto intro: readChar_shorter [OF sym])

definition skipWhitespace :: "text_file \<Rightarrow> bool \<times> text_file" where
  "skipWhitespace f = (if err f \<noteq> ERROR_NONE then (False, f) else let f = skip_spaces f in (\<not> eof f, f))"

text \<open>\<open>buf\<close> are the characters stored so far, without the terminator that is written at the end.\<close>

function read_chars :: "nat \<Rightarrow> u8 list \<Rightarrow> text_file \<Rightarrow> u8 list \<times> text_file" where
  "read_chars size_buf buf f =
     (case peekChar f of
        (None, f1) \<Rightarrow> (buf, f1)
      | (Some c, f1) \<Rightarrow> if isspace c then (buf, f1)
          else read_chars size_buf (if length buf + 1 < size_buf then buf @ [c] else buf) (snd (readChar f1)))"
  by auto
termination by (relation "measure (\<lambda>(n, b, f). length (input f))") (auto intro: readChar_shorter [OF sym])

text \<open>After an error the caller's buffer keeps what it held.\<close>

definition readString :: "nat \<Rightarrow> u8 list \<Rightarrow> text_file \<Rightarrow> bool \<times> u8 list \<times> text_file" where
  "readString size_buf old f =
     (if err f \<noteq> ERROR_NONE then (False, old, f)
      else let (_, f) = skipWhitespace f; (buf, f) = read_chars size_buf [] f in (buf \<noteq> [], buf, f))"

function skip_line :: "text_file \<Rightarrow> text_file" where
  "skip_line f =
     (case readChar f of
        (None, f1) \<Rightarrow> f1
      | (Some c, f1) \<Rightarrow> if c = 10 then f1 else skip_line f1)"
  by auto
termination by (relation "measure (\<lambda>f. length (input f))") (auto dest: readChar_Some(3) [OF sym])

definition skipLine :: "text_file \<Rightarrow> text_file" where
  "skipLine f = (if err f \<noteq> ERROR_NONE then f else skip_line f)"

text \<open>The digits of the \<open>switch\<close>; a \<open>long\<close> has 32 bits on Windows.\<close>

definition hex_digit :: "u8 \<Rightarrow> u32 option" where
  "hex_digit c =
     (if isdigit c then Some (ucast c - 48)
      else if 97 \<le> c \<and> c \<le> 102 then Some (ucast c - 87)
      else if 65 \<le> c \<and> c \<le> 70 then Some (ucast c - 55) else None)"

function read_digits :: "u32 \<Rightarrow> text_file \<Rightarrow> u32 \<times> text_file" where
  "read_digits x f =
     (case peekChar f of
        (None, f1) \<Rightarrow> (x, f1)
      | (Some c, f1) \<Rightarrow> (case hex_digit c of
            None \<Rightarrow> (x, f1)
          | Some d \<Rightarrow> read_digits (push_bit 4 x + d) (snd (readChar f1))))"
  by auto
termination by (relation "measure (\<lambda>(x, f). length (input f))") (auto intro: readChar_shorter [OF sym])

definition readHex :: "text_file \<Rightarrow> u32 \<times> text_file" where
  "readHex f =
     (if err f \<noteq> ERROR_NONE then (0, f)
      else let (_, f) = skipWhitespace f in
        case peekChar f of
          (None, f) \<Rightarrow> (0, f\<lparr>err := ERROR_PARSE\<rparr>)
        | (Some c, f) \<Rightarrow> if isalnum c then read_digits 0 f else (0, f\<lparr>err := ERROR_PARSE\<rparr>))"

declare skip_spaces.simps [simp del] read_chars.simps [simp del] skip_line.simps [simp del] read_digits.simps [simp del]

section \<open>What is consumed\<close>

text \<open>No operation gives input back.\<close>

lemma length_peekChar [simp]: "length (input (snd (peekChar f))) = length (input f)"
  by (cases "peekChar f"; cases "fst (peekChar f)") (auto dest: peekChar_Some peekChar_None)

lemma length_readChar: "length (input (snd (readChar f))) \<le> length (input f)"
  by (auto simp: readChar_def peekChar_def input_def Let_def split: option.splits list.splits)

lemma length_skip_spaces: "length (input (skip_spaces f)) \<le> length (input f)"
proof (induction f rule: skip_spaces.induct)
  case (1 f)
  show ?case
  proof (cases "peekChar f")
    case (Pair r f1)
    show ?thesis
    proof (cases r)
      case None
      with Pair length_peekChar [of f] show ?thesis by (simp add: skip_spaces.simps [of f])
    next
      case (Some c)
      with Pair "1.IH" [OF Pair [symmetric] Some] readChar_shorter [of f c f1] length_peekChar [of f]
      show ?thesis by (cases "isspace c") (simp_all add: skip_spaces.simps [of f])
    qed
  qed
qed

lemma length_skipWhitespace: "length (input (snd (skipWhitespace f))) \<le> length (input f)"
  using length_skip_spaces [of f] by (simp add: skipWhitespace_def Let_def)

lemma length_read_chars:
  "length (input (snd (read_chars n b f))) + length (fst (read_chars n b f)) \<le> length (input f) + length b"
proof (induction n b f rule: read_chars.induct)
  case (1 n b f)
  show ?case
  proof (cases "peekChar f")
    case (Pair r f1)
    show ?thesis
    proof (cases r)
      case None
      with Pair length_peekChar [of f] show ?thesis by (simp add: read_chars.simps [of n b f])
    next
      case (Some c)
      with Pair "1.IH" [OF Pair [symmetric] Some] readChar_shorter [of f c f1] length_peekChar [of f]
      show ?thesis by (fastforce simp: read_chars.simps [of n b f] split: if_splits)
    qed
  qed
qed

lemma length_readString:
  assumes "readString n old f = (ok, buf, f')"
  shows "length (input f') \<le> length (input f)" "ok \<Longrightarrow> length (input f') < length (input f)"
proof -
  have "length (input f') \<le> length (input f) \<and> (ok \<longrightarrow> length (input f') < length (input f))"
  proof (cases "err f = ERROR_NONE")
    case True
    let ?g = "snd (skipWhitespace f)"
    have "read_chars n [] ?g = (buf, f')" "ok \<longleftrightarrow> buf \<noteq> []"
      using assms True by (auto simp: readString_def split: prod.splits)
    with length_read_chars [of n "[]" ?g] length_skipWhitespace [of f] show ?thesis by (cases buf) auto
  qed (use assms in \<open>simp add: readString_def\<close>)
  then show "length (input f') \<le> length (input f)" "ok \<Longrightarrow> length (input f') < length (input f)" by simp_all
qed

lemma length_skip_line: "length (input (skip_line f)) \<le> length (input f)"
proof (induction f rule: skip_line.induct)
  case (1 f)
  show ?case
  proof (cases "readChar f")
    case (Pair r f1)
    show ?thesis
    proof (cases r)
      case None
      with Pair length_readChar [of f] show ?thesis by (simp add: skip_line.simps [of f])
    next
      case (Some c)
      with Pair "1.IH" [OF Pair [symmetric] Some] length_readChar [of f] show ?thesis
        by (cases "c = 10") (simp_all add: skip_line.simps [of f])
    qed
  qed
qed

lemma length_skipLine: "length (input (skipLine f)) \<le> length (input f)"
  using length_skip_line by (simp add: skipLine_def)

lemma length_read_digits: "length (input (snd (read_digits x f))) \<le> length (input f)"
proof (induction x f rule: read_digits.induct)
  case (1 x f)
  show ?case
  proof (cases "peekChar f")
    case (Pair r f1)
    show ?thesis
    proof (cases "\<exists>c d. r = Some c \<and> hex_digit c = Some d")
      case False
      with Pair length_peekChar [of f] show ?thesis by (simp add: read_digits.simps [of x f] split: option.splits)
    next
      case True
      then obtain c d where c: "r = Some c" "hex_digit c = Some d" by blast
      with Pair "1.IH" [OF Pair [symmetric] c] readChar_shorter [of f c f1]
      show ?thesis by (simp add: read_digits.simps [of x f])
    qed
  qed
qed

lemma length_readHex: "length (input (snd (readHex f))) \<le> length (input f)"
proof (cases "err f = ERROR_NONE")
  case True
  let ?g = "snd (skipWhitespace f)"
  obtain r f1 where p: "peekChar ?g = (r, f1)" by (cases "peekChar ?g")
  have "length (input (f1\<lparr>err := e\<rparr>)) = length (input f1)" for e by (simp add: input_def split: option.split)
  with True p length_skipWhitespace [of f] length_peekChar [of ?g] length_read_digits [of 0 f1] show ?thesis
    by (auto simp: readHex_def split: prod.splits option.splits)
qed (simp add: readHex_def)

section \<open>Reading a sound file\<close>

definition has_left :: "text_file \<Rightarrow> u8 list \<Rightarrow> bool" where
  "has_left f cs \<longleftrightarrow> err f = ERROR_NONE \<and> \<not> fails f \<and> input f = cs"

lemma reading_open: "has_left (TextFileImpl (Some cs) False) cs"
  by (simp add: has_left_def TextFileImpl_def input_def)

lemma peekChar_reading:
  "has_left f [] \<Longrightarrow> \<exists>f1. peekChar f = (None, f1) \<and> has_left f1 []"
  "has_left f (c # cs) \<Longrightarrow> \<exists>f1. peekChar f = (Some c, f1) \<and> has_left f1 (c # cs)"
  by (auto simp: has_left_def peekChar_def input_def split: option.splits list.splits)

lemma readChar_reading:
  "has_left f [] \<Longrightarrow> \<exists>f1. readChar f = (None, f1) \<and> has_left f1 []"
  "has_left f (c # cs) \<Longrightarrow> \<exists>f1. readChar f = (Some c, f1) \<and> has_left f1 cs"
  by (auto simp: has_left_def readChar_def peekChar_def input_def Let_def split: option.splits list.splits)

lemma skip_spaces_reading: "has_left f cs \<Longrightarrow> has_left (skip_spaces f) (dropWhile isspace cs)"
proof (induction cs arbitrary: f)
  case Nil
  with peekChar_reading(1) show ?case by (fastforce simp: skip_spaces.simps [of f])
next
  case (Cons c cs)
  from peekChar_reading(2) [OF Cons.prems] obtain f1 where p: "peekChar f = (Some c, f1)" "has_left f1 (c # cs)" by blast
  from readChar_reading(2) [OF p(2)] obtain f2 where "readChar f1 = (Some c, f2)" "has_left f2 cs" by blast
  with p Cons.IH show ?case by (simp add: skip_spaces.simps [of f])
qed

lemma skipWhitespace_reading: "has_left f cs \<Longrightarrow> has_left (snd (skipWhitespace f)) (dropWhile isspace cs)"
  using skip_spaces_reading by (simp add: skipWhitespace_def Let_def has_left_def)

lemma read_chars_reading:
  "has_left f cs \<Longrightarrow> \<exists>f1. read_chars n b f = (b @ take (n - 1 - length b) (takeWhile (\<lambda>c. \<not> isspace c) cs), f1) \<and>
     has_left f1 (dropWhile (\<lambda>c. \<not> isspace c) cs)"
proof (induction cs arbitrary: f b)
  case Nil
  with peekChar_reading(1) show ?case by (fastforce simp: read_chars.simps [of n b f])
next
  case (Cons c cs)
  from peekChar_reading(2) [OF Cons.prems] obtain f1 where p: "peekChar f = (Some c, f1)" "has_left f1 (c # cs)" by blast
  from readChar_reading(2) [OF p(2)] obtain f2 where r: "readChar f1 = (Some c, f2)" "has_left f2 cs" by blast
  show ?case
  proof (cases "isspace c")
    case False
    let ?b = "if length b + 1 < n then b @ [c] else b"
    have "b @ take (n - 1 - length b) (c # xs) = ?b @ take (n - 1 - length ?b) xs" for xs
    proof (cases "length b + 1 < n")
      case True
      then have "n - 1 - length b = Suc (n - 1 - length (b @ [c]))" by simp
      with True show ?thesis by simp
    qed simp
    with Cons.IH [OF r(2), of ?b] p r False show ?thesis by (auto simp: read_chars.simps [of n b f])
  qed (use p in \<open>simp add: read_chars.simps [of n b f]\<close>)
qed

lemma readString_reading:
  assumes "has_left f cs"
  defines "ds \<equiv> dropWhile isspace cs"
  shows "\<exists>f1. readString n old f = (take (n - 1) (takeWhile (\<lambda>c. \<not> isspace c) ds) \<noteq> [],
      take (n - 1) (takeWhile (\<lambda>c. \<not> isspace c) ds), f1) \<and> has_left f1 (dropWhile (\<lambda>c. \<not> isspace c) ds)"
proof -
  obtain b g where g: "skipWhitespace f = (b, g)" by (cases "skipWhitespace f")
  with skipWhitespace_reading [OF assms(1)] have "has_left g ds" by (simp add: ds_def)
  from read_chars_reading [OF this, of n "[]"] g assms(1) show ?thesis by (auto simp: readString_def has_left_def)
qed

lemma skip_line_reading: "has_left f cs \<Longrightarrow> has_left (skip_line f) (drop 1 (dropWhile (\<lambda>c. c \<noteq> 10) cs))"
proof (induction cs arbitrary: f)
  case Nil
  with readChar_reading(1) show ?case by (fastforce simp: skip_line.simps [of f])
next
  case (Cons c cs)
  from readChar_reading(2) [OF Cons.prems] obtain f1 where "readChar f = (Some c, f1)" "has_left f1 cs" by blast
  with Cons.IH show ?case by (simp add: skip_line.simps [of f])
qed

lemma skipLine_reading: "has_left f cs \<Longrightarrow> has_left (skipLine f) (drop 1 (dropWhile (\<lambda>c. c \<noteq> 10) cs))"
  using skip_line_reading by (simp add: skipLine_def has_left_def)

section \<open>Numbers\<close>

definition is_hex :: "u8 \<Rightarrow> bool" where
  "is_hex c \<longleftrightarrow> hex_digit c \<noteq> None"

definition hex_value :: "u32 \<Rightarrow> u8 list \<Rightarrow> u32" where
  "hex_value = foldl (\<lambda>x c. push_bit 4 x + the (hex_digit c))"

lemma read_digits_reading:
  "has_left f cs \<Longrightarrow> \<exists>f1. read_digits x f = (hex_value x (takeWhile is_hex cs), f1) \<and> has_left f1 (dropWhile is_hex cs)"
proof (induction cs arbitrary: f x)
  case Nil
  with peekChar_reading(1) show ?case by (fastforce simp: read_digits.simps [of x f] hex_value_def)
next
  case (Cons c cs)
  from peekChar_reading(2) [OF Cons.prems] obtain f1 where p: "peekChar f = (Some c, f1)" "has_left f1 (c # cs)" by blast
  from readChar_reading(2) [OF p(2)] obtain f2 where r: "readChar f1 = (Some c, f2)" "has_left f2 cs" by blast
  show ?case
  proof (cases "hex_digit c")
    case (Some d)
    with Cons.IH [OF r(2), of "push_bit 4 x + d"] p r show ?thesis
      by (auto simp: read_digits.simps [of x f] is_hex_def hex_value_def)
  qed (use p in \<open>simp add: read_digits.simps [of x f] is_hex_def hex_value_def\<close>)
qed

lemma readHex_reading:
  assumes "has_left f cs"
  defines "ds \<equiv> dropWhile isspace cs"
  shows "if ds \<noteq> [] \<and> isalnum (hd ds)
    then \<exists>f1. readHex f = (hex_value 0 (takeWhile is_hex ds), f1) \<and> has_left f1 (dropWhile is_hex ds)
    else fst (readHex f) = 0 \<and> err (snd (readHex f)) = ERROR_PARSE"
proof -
  obtain b g where g: "skipWhitespace f = (b, g)" by (cases "skipWhitespace f")
  with skipWhitespace_reading [OF assms(1)] have r: "has_left g ds" by (simp add: ds_def)
  have e: "err f = ERROR_NONE" using assms(1) by (simp add: has_left_def)
  show ?thesis
  proof (cases ds)
    case Nil
    with r peekChar_reading(1) obtain f1 where "peekChar g = (None, f1)" by blast
    with e g Nil show ?thesis by (simp add: readHex_def)
  next
    case (Cons c xs)
    with r peekChar_reading(2) obtain f1 where f1: "peekChar g = (Some c, f1)" "has_left f1 ds" by blast
    from read_digits_reading [OF f1(2), of 0] e g Cons f1(1) show ?thesis by (auto simp: readHex_def)
  qed
qed

text \<open>The C library's \<open>%x\<close>, and what \<open>readHex\<close> makes of it.\<close>

definition hex_char :: "nat \<Rightarrow> u8" where
  "hex_char d = of_nat (if d < 10 then 48 + d else 87 + d)"

fun hex_text :: "nat \<Rightarrow> u8 list" where
  "hex_text n = (if n < 16 then [hex_char n] else hex_text (n div 16) @ [hex_char (n mod 16)])"

declare hex_text.simps [simp del]

lemma hex_char_all:
  "d < 16 \<Longrightarrow> hex_digit (hex_char d) = Some (of_nat d) \<and> isalnum (hex_char d) \<and> \<not> isspace (hex_char d) \<and> hex_char d \<noteq> 0"
proof -
  assume "d < 16"
  then have "d \<in> set [0 ..< 16]" by simp
  moreover have "\<forall>d \<in> set [0 ..< 16]. hex_digit (hex_char d) = Some (of_nat d) \<and> isalnum (hex_char d) \<and> \<not> isspace (hex_char d) \<and> hex_char d \<noteq> 0"
    by (simp add: upt_conv_Cons hex_char_def hex_digit_def isalnum_def isspace_def isdigit_def)
  ultimately show ?thesis by blast
qed

lemma hex_text_chars: "c \<in> set (hex_text n) \<Longrightarrow> is_hex c \<and> isalnum c \<and> \<not> isspace c"
proof (induction n rule: hex_text.induct)
  case (1 n)
  then show ?case
    using hex_char_all [of n] hex_char_all [of "n mod 16"] by (auto simp: hex_text.simps [of n] is_hex_def split: if_splits)
qed

lemma hex_text_nonempty [simp]: "hex_text n \<noteq> []"
  by (simp add: hex_text.simps [of n])

lemma hex_value_text: "hex_value 0 (hex_text n) = of_nat n"
proof (induction n rule: hex_text.induct)
  case (1 n)
  show ?case
  proof (cases "n < 16")
    case True
    then show ?thesis using hex_char_all [of n] by (simp add: hex_text.simps [of n] hex_value_def)
  next
    case False
    have "push_bit 4 (of_nat a) + of_nat b = (of_nat (a * 16 + b) :: u32)" for a b by (simp add: push_bit_eq_mult)
    from this [of "n div 16" "n mod 16"] have "push_bit 4 (of_nat (n div 16)) + of_nat (n mod 16) = (of_nat n :: u32)"
      by (simp only: div_mult_mod_eq)
    with False "1.IH" [OF False] hex_char_all [of "n mod 16"] show ?thesis
      by (simp add: hex_text.simps [of n] hex_value_def)
  qed
qed

end
