(* ===== verification/Duma_Array.thy ===== *)
theory Duma_Array
  imports Duma_Prelude
begin

text \<open>
  The dynamic array of the stack trace, \<open>src/stacktrace/internal/Array.h\<close>: the elements in use are the
  first \<open>m_len\<close> of \<open>m_cap\<close>, and appending is amortised by doubling the capacity.

  \<open>junk\<close> is what \<open>new T[cap]\<close> leaves in the elements; an index outside the allocated elements is \<open>None\<close>.
\<close>

record 'a Array =
  m_data :: "'a list"
  m_len :: nat
  m_cap :: nat

definition empty_array :: "'a Array" where
  "empty_array = \<lparr>m_data = [], m_len = 0, m_cap = 0\<rparr>"

definition new_capacity :: "nat \<Rightarrow> nat \<Rightarrow> nat" where
  "new_capacity old cap = (let cap = cap + 1 in if cap < 8 then 8 else if cap < old * 2 then old * 2 else cap)"

definition setCapacity :: "'a \<Rightarrow> nat \<Rightarrow> 'a Array \<Rightarrow> 'a Array" where
  "setCapacity junk cap a =
     (let cap = new_capacity (m_cap a) cap
      in a\<lparr>m_cap := cap, m_data := take (m_len a) (m_data a) @ replicate (cap - m_len a) junk\<rparr>)"

definition array_add :: "'a \<Rightarrow> 'a \<Rightarrow> 'a Array \<Rightarrow> 'a Array" where
  "array_add junk item a =
     (let a = (if m_len a + 1 > m_cap a then setCapacity junk (m_len a + 1) a else a)
      in a\<lparr>m_data := (m_data a)[m_len a := item], m_len := m_len a + 1\<rparr>)"

definition setSize :: "'a \<Rightarrow> nat \<Rightarrow> 'a Array \<Rightarrow> 'a Array" where
  "setSize junk n a = (let a = (if n > m_cap a then setCapacity junk n a else a) in a\<lparr>m_len := n\<rparr>)"

definition array_get :: "'a Array \<Rightarrow> int \<Rightarrow> 'a option" where
  "array_get a i = (if 0 \<le> i \<and> i < int (m_cap a) then Some (m_data a ! nat i) else None)"

section \<open>It implements a list\<close>

definition elems :: "'a Array \<Rightarrow> 'a list" where
  "elems a = take (m_len a) (m_data a)"

definition valid_array :: "'a Array \<Rightarrow> bool" where
  "valid_array a \<longleftrightarrow> length (m_data a) = m_cap a \<and> m_len a \<le> m_cap a"

lemma empty_array_ok [simp]: "valid_array empty_array" "elems empty_array = []"
  by (simp_all add: empty_array_def valid_array_def elems_def)

lemma length_elems [simp]: "valid_array a \<Longrightarrow> length (elems a) = m_len a"
  by (simp add: valid_array_def elems_def)

lemma new_capacity_bound: "cap < new_capacity old cap"
  by (auto simp: new_capacity_def Let_def)

lemma setCapacity_ok:
  assumes "valid_array a" and "m_len a \<le> cap"
  shows "valid_array (setCapacity junk cap a)" "elems (setCapacity junk cap a) = elems a"
    "m_len (setCapacity junk cap a) = m_len a" "cap < m_cap (setCapacity junk cap a)"
  using assms new_capacity_bound [of cap "m_cap a"]
  by (auto simp: setCapacity_def Let_def valid_array_def elems_def)

text \<open>Appending and resizing are the operations on lists; resizing upwards adds whatever is there.\<close>

lemma array_add_ok:
  assumes "valid_array a"
  shows "valid_array (array_add junk x a)" "elems (array_add junk x a) = elems a @ [x]"
proof -
  let ?a = "if m_len a + 1 > m_cap a then setCapacity junk (m_len a + 1) a else a"
  from assms setCapacity_ok [OF assms, of "m_len a + 1" junk]
  have a: "valid_array ?a" "elems ?a = elems a" "m_len ?a = m_len a" "m_len ?a < m_cap ?a" by auto
  then show "valid_array (array_add junk x a)" by (auto simp: array_add_def Let_def valid_array_def)
  from a have "take (Suc (m_len ?a)) ((m_data ?a)[m_len ?a := x]) = elems ?a @ [x]"
    by (simp add: take_Suc_conv_app_nth valid_array_def elems_def)
  with a show "elems (array_add junk x a) = elems a @ [x]" by (simp add: array_add_def Let_def elems_def)
qed

lemma setSize_ok:
  assumes "valid_array a"
  shows "valid_array (setSize junk n a)" "take (m_len a) (elems (setSize junk n a)) = take n (elems a)"
proof -
  let ?a = "if n > m_cap a then setCapacity junk n a else a"
  from assms setCapacity_ok [OF assms, of n junk]
  have a: "valid_array ?a" "elems ?a = elems a" "m_len ?a = m_len a" "n \<le> m_cap ?a" by (auto simp: valid_array_def)
  then show "valid_array (setSize junk n a)" by (auto simp: setSize_def Let_def valid_array_def)
  have "take (m_len a) (take n (m_data ?a)) = take n (elems ?a)" using a(3) by (simp add: elems_def min.commute)
  with a(2) show "take (m_len a) (elems (setSize junk n a)) = take n (elems a)" by (simp add: setSize_def Let_def elems_def)
qed

definition array_of :: "'a \<Rightarrow> 'a list \<Rightarrow> 'a Array" where
  "array_of junk xs = fold (array_add junk) xs empty_array"

text \<open>An array that is filled by appending holds what was appended, and its capacity is at most
  about twice as much.  Behind eight elements there is no room for a ninth.\<close>

lemma array_of_ok:
  "valid_array (array_of junk xs) \<and> elems (array_of junk xs) = xs \<and> m_len (array_of junk xs) = length xs \<and>
   m_cap (array_of junk xs) \<le> max 8 (2 * length xs + 2)"
proof (induction xs rule: rev_induct)
  case (snoc x xs)
  let ?a = "array_of junk xs"
  have s: "array_of junk (xs @ [x]) = array_add junk x ?a" by (simp add: array_of_def)
  have "m_cap (array_add junk x ?a) \<le> max 8 (2 * length (xs @ [x]) + 2)" "m_len (array_add junk x ?a) = Suc (m_len ?a)"
    using snoc by (auto simp: array_add_def setCapacity_def new_capacity_def Let_def valid_array_def)
  with snoc array_add_ok [of ?a junk x] show ?case by (simp add: s)
qed (simp add: array_of_def empty_array_def valid_array_def elems_def)

lemma array_of_get: "i < length xs \<Longrightarrow> array_get (array_of junk xs) (int i) = Some (xs ! i)"
  using array_of_ok [of junk xs] by (auto simp: array_get_def elems_def valid_array_def) (metis nth_take)

lemma array_of_outside: "array_get a (- 1) = None" "length xs = 8 \<Longrightarrow> array_get (array_of junk xs) 8 = None"
proof -
  show "array_get a (- 1) = None" by (simp add: array_get_def)
  assume "length xs = 8"
  then obtain a b c d e f g h where "xs = [a, b, c, d, e, f, g, h]" by (auto simp: length_Suc_conv numeral_eq_Suc)
  then show "array_get (array_of junk xs) 8 = None"
    by (simp add: array_of_def array_add_def setCapacity_def new_capacity_def empty_array_def array_get_def Let_def)
qed

end
