(* ===== verification/Duma_MapFile.thy ===== *)
theory Duma_MapFile
  imports Duma_TextFile Duma_Array "HOL-Library.Multiset"
begin

text \<open>
  The map file a linker writes, which the stack trace reads to put names to addresses:
  \<open>src/stacktrace/internal/MapFile.cpp\<close> and \<open>MapFileEntry.cpp\<close>.

  \<open>junk\<close> is what an uninitialised character array holds; it matters only after a read error.
  \<open>std::sort\<close> on an array of pointers orders the entries by their addresses, so the addresses
  that \<open>new\<close> returned are an argument: \<open>place i\<close> is the address of the \<open>i\<close>-th entry.
\<close>

section \<open>Entries\<close>

record MapFileEntry =
  m_sec :: u32
  m_addr :: u32
  m_len :: u32
  m_name :: "u8 list"
  m_rvabase :: u32
  m_lib :: "u8 list"

text \<open>The string in a character array.\<close>

definition cstr :: "u8 list \<Rightarrow> u8 list" where
  "cstr buf = takeWhile (\<lambda>c. c \<noteq> 0) buf"

definition MAX_NAME :: nat where
  "MAX_NAME = 256"

definition new_entry :: "u32 \<Rightarrow> u32 \<Rightarrow> u32 \<Rightarrow> u8 list \<Rightarrow> u32 \<Rightarrow> u8 list \<Rightarrow> MapFileEntry" where
  "new_entry section offset len name rvabase lib =
     \<lparr>m_sec = section, m_addr = offset, m_len = len, m_name = take MAX_NAME (cstr name), m_rvabase = rvabase,
      m_lib = take MAX_NAME (cstr lib)\<rparr>"

text \<open>What is left of a decorated name: cut at \<open>@@\<close>, without leading digits, \<open>?\<close> and \<open>$\<close>, and with dots for
  the remaining \<open>@\<close>.\<close>

fun chop :: "u8 list \<Rightarrow> u8 list" where
  "chop (a # b # s) = (if a = 64 \<and> b = 64 then [] else a # chop (b # s))"
| "chop s = s"

definition leading :: "u8 \<Rightarrow> bool" where
  "leading c \<longleftrightarrow> isdigit c \<or> c = 63 \<or> c = 36"

definition dots :: "u8 list \<Rightarrow> u8 list" where
  "dots = map (\<lambda>c. if c = 64 then 46 else c)"

definition plain_name :: "u8 list \<Rightarrow> u8 list" where
  "plain_name s = dots (dropWhile leading (chop s))"

section \<open>The parser\<close>

record map_file =
  m_text :: text_file
  m_err :: ErrorType
  m_errLine :: int
  loadAddr :: u32
  map_name :: "u8 list"
  entries :: "MapFileEntry list"

definition map_error :: "map_file \<Rightarrow> ErrorType" where
  "map_error m = (if m_err m \<noteq> ERROR_NONE then m_err m else err (m_text m))"

definition map_line :: "map_file \<Rightarrow> int" where
  "map_line m = (if m_err m \<noteq> ERROR_NONE then m_errLine m else line_no (m_text m))"

definition parse_error :: "map_file \<Rightarrow> map_file" where
  "parse_error m = m\<lparr>m_err := ERROR_PARSE, m_errLine := line_no (m_text m)\<rparr>"

definition parse_word :: "u8 list \<Rightarrow> string \<Rightarrow> map_file \<Rightarrow> map_file" where
  "parse_word junk str m =
     (let (_, buf, f) = readString 256 junk (m_text m); m = m\<lparr>m_text := f\<rparr> in
      if cstr buf \<noteq> bytes_of str then parse_error m else m)"

definition parse_char :: "u8 \<Rightarrow> map_file \<Rightarrow> map_file" where
  "parse_char ch m =
     (let (r, f) = readChar (m_text m); m = m\<lparr>m_text := f\<rparr> in if r \<noteq> Some ch then parse_error m else m)"

function skip_blanks :: "text_file \<Rightarrow> text_file" where
  "skip_blanks f =
     (case peekChar f of
        (None, f1) \<Rightarrow> f1
      | (Some c, f1) \<Rightarrow> if isspace c \<and> c \<noteq> 10 then skip_blanks (snd (readChar f1)) else f1)"
  by auto
termination by (relation "measure (\<lambda>f. length (input f))") (auto intro: readChar_shorter [OF sym])

declare skip_blanks.simps [simp del]

definition nextLineEmpty :: "map_file \<Rightarrow> bool \<times> map_file" where
  "nextLineEmpty m =
     (let (r, f) = peekChar (skip_blanks (skipLine (m_text m))) in (r = Some 10, m\<lparr>m_text := f\<rparr>))"

definition parseLoadAddress :: "u8 list \<Rightarrow> map_file \<Rightarrow> map_file" where
  "parseLoadAddress junk m =
     (let m = parse_word junk ''is'' (parse_word junk ''address'' (parse_word junk ''load'' m));
          (a, f) = readHex (m_text m) in m\<lparr>m_text := f, loadAddr := a\<rparr>)"

text \<open>One line; \<open>buf\<close> and \<open>lib\<close> are the arrays, which keep what they held when nothing can be read.\<close>

definition parse_entry :: "u8 list \<Rightarrow> u8 list \<Rightarrow> map_file \<Rightarrow> u8 list \<times> u8 list \<times> map_file" where
  "parse_entry buf lib m =
     (let (seg, f) = readHex (m_text m);
          m = parse_char 58 (m\<lparr>m_text := f\<rparr>);
          (offs, f) = readHex (m_text m);
          (_, buf, f) = readString 256 buf f;
          (rvabase, f) = readHex f;
          (_, lib, f) = readString 256 lib f;
          (lib, f) = (if cstr lib = bytes_of ''f'' then snd (readString 256 lib f) else (lib, f));
          name = plain_name (cstr buf)
      in (takeWhile leading (chop (cstr buf)) @ name, lib,
          m\<lparr>m_text := f, entries := entries m @ [new_entry seg offs 0 name rvabase lib]\<rparr>))"

text \<open>A line without an error consumes at least its colon.\<close>

lemma parse_char_result:
  "m_err (parse_char c m) \<noteq> ERROR_NONE \<or> m_err (parse_char c m) = m_err m \<and> length (input (m_text (parse_char c m))) < length (input (m_text m))"
  "length (input (m_text (parse_char c m))) \<le> length (input (m_text m))"
proof -
  obtain r f where r: "readChar (m_text m) = (r, f)" by (cases "readChar (m_text m)")
  with length_readChar [of "m_text m"] readChar_Some(3) [of "m_text m" c f]
  show "m_err (parse_char c m) \<noteq> ERROR_NONE \<or> m_err (parse_char c m) = m_err m \<and> length (input (m_text (parse_char c m))) < length (input (m_text m))"
    "length (input (m_text (parse_char c m))) \<le> length (input (m_text m))"
    by (auto simp: parse_char_def parse_error_def Let_def)
qed

lemma parse_entry_length:
  assumes "parse_entry buf lib m = (buf', lib', m')"
  shows "length (input (m_text m')) \<le> length (input (m_text m)) \<and>
    (map_error m' \<noteq> ERROR_NONE \<or> length (input (m_text m')) < length (input (m_text m)))"
proof -
  obtain seg f0 where r0: "readHex (m_text m) = (seg, f0)" by (cases "readHex (m_text m)")
  let ?m = "parse_char 58 (m\<lparr>m_text := f0\<rparr>)"
  obtain offs f1 where r1: "readHex (m_text ?m) = (offs, f1)" by (cases "readHex (m_text ?m)")
  obtain b1 s1 f2 where r2: "readString 256 buf f1 = (b1, s1, f2)" by (cases "readString 256 buf f1")
  obtain rva f3 where r3: "readHex f2 = (rva, f3)" by (cases "readHex f2")
  obtain b2 s2 f4 where r4: "readString 256 lib f3 = (b2, s2, f4)" by (cases "readString 256 lib f3")
  obtain b3 s3 f5 where r5: "readString 256 s2 f4 = (b3, s3, f5)" by (cases "readString 256 s2 f4")
  have "length (input (m_text m')) \<le> length (input f4)" "m_err m' = m_err ?m"
    using assms length_readString(1) [OF r5] by (auto simp: parse_entry_def r0 r1 r2 r3 r4 r5 Let_def split: if_splits)
  moreover have "length (input f4) \<le> length (input (m_text ?m))"
    using length_readHex [of "m_text ?m"] length_readHex [of f2] length_readString(1) [OF r2] length_readString(1) [OF r4] r1 r3 by simp
  moreover have "length (input f0) \<le> length (input (m_text m))" using length_readHex [of "m_text m"] r0 by simp
  ultimately show ?thesis
    using parse_char_result [of 58 "m\<lparr>m_text := f0\<rparr>"] by (auto simp: map_error_def)
qed

lemmas length_parse_entry = conjunct1 [OF parse_entry_length]
lemmas parse_entry_shorter = conjunct2 [OF parse_entry_length]

lemma length_skip_blanks: "length (input (skip_blanks f)) \<le> length (input f)"
proof (induction f rule: skip_blanks.induct)
  case (1 f)
  show ?case
  proof (cases "peekChar f")
    case (Pair r f1)
    show ?thesis
    proof (cases "\<exists>c. r = Some c \<and> isspace c \<and> c \<noteq> 10")
      case False
      with Pair length_peekChar [of f] show ?thesis by (auto simp: skip_blanks.simps [of f] split: option.splits)
    next
      case True
      then obtain c where c: "r = Some c" "isspace c \<and> c \<noteq> 10" by blast
      with Pair "1.IH" [OF Pair [symmetric] c] readChar_shorter [of f c f1] show ?thesis by (simp add: skip_blanks.simps [of f])
    qed
  qed
qed

lemma length_nextLineEmpty:
  assumes "nextLineEmpty m = (b, m')"
  shows "length (input (m_text m')) \<le> length (input (m_text m))"
proof -
  let ?f = "skip_blanks (skipLine (m_text m))"
  from assms have "m_text m' = snd (peekChar ?f)" by (auto simp: nextLineEmpty_def split: prod.splits)
  with length_skip_blanks [of "skipLine (m_text m)"] length_skipLine [of "m_text m"] show ?thesis by simp
qed

text \<open>After an error of the file nothing moves.\<close>

lemma nextLineEmpty_error:
  "nextLineEmpty m = (b, m') \<Longrightarrow> map_error m \<noteq> ERROR_NONE \<Longrightarrow> map_error m' \<noteq> ERROR_NONE"
proof -
  have "skipLine f = f" "peekChar f = (None, f)" "skip_blanks f = f" if "err f \<noteq> ERROR_NONE" for f
    using that by (simp_all add: skipLine_def peekChar_def skip_blanks.simps [of f])
  then show "nextLineEmpty m = (b, m') \<Longrightarrow> map_error m \<noteq> ERROR_NONE \<Longrightarrow> map_error m' \<noteq> ERROR_NONE"
    by (auto simp: nextLineEmpty_def map_error_def split: prod.splits if_splits)
qed

function entry_lines :: "u8 list \<Rightarrow> u8 list \<Rightarrow> map_file \<Rightarrow> map_file" where
  "entry_lines buf lib m =
     (if map_error m \<noteq> ERROR_NONE then m
      else let (buf, lib, m) = parse_entry buf lib m; (empty, m) = nextLineEmpty m in
        if empty then m else entry_lines buf lib m)"
  by auto
termination
proof (relation "measure (\<lambda>(buf, lib, m). if map_error m \<noteq> ERROR_NONE then 0 else Suc (length (input (m_text m))))")
  fix buf lib m r1 buf1 r2 lib1 m1 r3 b m2
  assume "\<not> map_error m \<noteq> ERROR_NONE" and "r1 = parse_entry buf lib m" "(buf1, r2) = r1" "(lib1, m1) = r2"
    and "r3 = nextLineEmpty m1" "(b, m2) = r3"
  then show "((buf1, lib1, m2), buf, lib, m) \<in> measure (\<lambda>(buf, lib, m). if map_error m \<noteq> ERROR_NONE then 0 else Suc (length (input (m_text m))))"
    using parse_entry_shorter [of buf lib m buf1 lib1 m1] length_nextLineEmpty [of m1 b m2] nextLineEmpty_error [of m1 b m2]
    by auto
qed simp

declare entry_lines.simps [simp del]

definition parseEntries :: "u8 list \<Rightarrow> map_file \<Rightarrow> map_file" where
  "parseEntries junk m =
     (let m = parse_word junk ''Publics'' m; m = parse_word junk ''by'' m; m = parse_word junk ''Value'' m;
          m = parse_word junk ''Rva+Base'' m; m = parse_word junk ''Lib:Object'' m
      in entry_lines junk junk (m\<lparr>m_text := snd (skipWhitespace (m_text m))\<rparr>))"

lemma length_parse_word: "length (input (m_text (parse_word junk s m))) \<le> length (input (m_text m))"
  using length_readString(1) [of 256 junk "m_text m"]
  by (cases "readString 256 junk (m_text m)") (auto simp: parse_word_def parse_error_def Let_def)

lemma length_entry_lines: "length (input (m_text (entry_lines buf lib m))) \<le> length (input (m_text m))"
proof (induction buf lib m rule: entry_lines.induct)
  case (1 buf lib m)
  show ?case
  proof (cases "map_error m = ERROR_NONE")
    case True
    obtain buf1 lib1 m1 where p: "parse_entry buf lib m = (buf1, lib1, m1)" by (metis prod_cases3)
    obtain b m2 where n: "nextLineEmpty m1 = (b, m2)" by (cases "nextLineEmpty m1")
    have "length (input (m_text m2)) \<le> length (input (m_text m))"
      using length_nextLineEmpty [OF n] length_parse_entry [OF p] by simp
    moreover have "length (input (m_text (entry_lines buf1 lib1 m2))) \<le> length (input (m_text m2))" if "\<not> b"
      using "1.IH" [OF _ p [symmetric] refl refl n [symmetric] refl that] True by simp
    ultimately show ?thesis using True p n by (auto simp: entry_lines.simps [of buf lib m])
  qed (simp add: entry_lines.simps [of buf lib m])
qed

lemma length_parseEntries: "length (input (m_text (parseEntries junk m))) \<le> length (input (m_text m))"
proof -
  have "length (input (m_text (entry_lines junk junk (m1\<lparr>m_text := snd (skipWhitespace (m_text m1))\<rparr>)))) \<le> length (input (m_text m1))" for m1
    using length_entry_lines [of junk junk "m1\<lparr>m_text := snd (skipWhitespace (m_text m1))\<rparr>"] length_skipWhitespace [of "m_text m1"] by simp
  then show ?thesis
    unfolding parseEntries_def Let_def by (meson length_parse_word order_trans)
qed

lemma word_shorter:
  assumes "readString n buf f0 = (True, buf1, f)"
  shows "length (input (m_text (parseEntries junk (m\<lparr>m_text := f\<rparr>)))) < length (input f0)" "length (input (skipLine f)) < length (input f0)"
  using length_readString(2) [OF assms] length_parseEntries [of junk "m\<lparr>m_text := f\<rparr>"] length_skipLine [of f] by simp_all

function map_words :: "u8 list \<Rightarrow> u8 list \<Rightarrow> map_file \<Rightarrow> map_file" where
  "map_words junk buf m =
     (case readString 1024 buf (m_text m) of
        (False, buf, f) \<Rightarrow> m\<lparr>m_text := f\<rparr>
      | (True, buf, f) \<Rightarrow>
          if cstr buf = bytes_of ''Address'' then map_words junk buf (parseEntries junk (m\<lparr>m_text := f\<rparr>))
          else map_words junk buf (m\<lparr>m_text := skipLine f\<rparr>))"
  by pat_completeness auto
termination
  by (relation "measure (\<lambda>(junk, buf, m). length (input (m_text m)))") (auto intro: word_shorter [OF sym])

declare map_words.simps [simp del]

text \<open>Entry \<open>i\<close> goes to the place its address has among the others.\<close>

definition sort_pointers :: "(nat \<Rightarrow> nat) \<Rightarrow> 'a list \<Rightarrow> 'a list" where
  "sort_pointers place es = map ((!) es) (sort_key place [0 ..< length es])"

definition MapFileImpl :: "u8 list \<Rightarrow> (nat \<Rightarrow> nat) \<Rightarrow> u8 list option \<Rightarrow> bool \<Rightarrow> map_file" where
  "MapFileImpl junk place contents bad =
     (let (_, nm, f) = readString 256 junk (TextFileImpl contents bad);
          m = map_words junk junk \<lparr>m_text = f, m_err = ERROR_NONE, m_errLine = 0, loadAddr = 0, map_name = nm, entries = []\<rparr>
      in m\<lparr>entries := sort_pointers place (entries m)\<rparr>)"

text \<open>The destructor deletes the entries with these indices.\<close>

definition deleted_entries :: "map_file \<Rightarrow> nat list" where
  "deleted_entries m = rev [1 ..< Suc (length (entries m))]"

section \<open>Looking an address up\<close>

fun find_from :: "MapFileEntry list \<Rightarrow> u32 \<Rightarrow> nat \<Rightarrow> int" where
  "find_from es addr 0 = - 1"
| "find_from es addr (Suc i) = (if sint (m_rvabase (es ! i)) \<le> sint addr then int i else find_from es addr i)"

text \<open>The index of the entry, \<open>-1\<close> when there is none; \<open>None\<close> stands for a read before the array.\<close>

definition findEntry :: "map_file \<Rightarrow> u32 \<Rightarrow> int option" where
  "findEntry m addr =
     (let es = entries m in
      if addr = 0 then Some (- 1)
      else if es = [] then None
      else if sint addr > sint (m_rvabase (last es) + 10000) then Some (- 1)
      else Some (find_from es addr (length es)))"

section \<open>A well-formed map file\<close>

text \<open>What a linker knows of one symbol, and the line it writes: numbers in hexadecimal with leading null digits,
  an \<open>f\<close> for functions.\<close>

record linker_symbol =
  ls_sec :: u32
  ls_offs :: u32
  ls_name :: "u8 list"
  ls_rva :: u32
  ls_flag :: bool
  ls_lib :: "u8 list"

definition padded :: "nat \<Rightarrow> nat \<Rightarrow> u8 list" where
  "padded k n = replicate (k - length (hex_text n)) 48 @ hex_text n"

definition symbol_text :: "linker_symbol \<Rightarrow> u8 list" where
  "symbol_text l = padded 4 (unat (ls_sec l)) @ 58 # padded 8 (unat (ls_offs l)) @ [32, 32, 32] @ ls_name l @ [32] @
     padded 8 (unat (ls_rva l)) @ 32 # (if ls_flag l then bytes_of ''f'' else [32]) @ [32, 32] @ ls_lib l @ [10]"

text \<open>A word without spaces that fits into the arrays.\<close>

definition good_word :: "u8 list \<Rightarrow> bool" where
  "good_word s \<longleftrightarrow> s \<noteq> [] \<and> length s < 256 \<and> list_all (\<lambda>c. \<not> isspace c \<and> c \<noteq> 0) s"

definition good_symbol :: "linker_symbol \<Rightarrow> bool" where
  "good_symbol l \<longleftrightarrow> good_word (ls_name l) \<and> good_word (ls_lib l) \<and> (ls_flag l \<or> ls_lib l \<noteq> bytes_of ''f'')"

definition entry_of :: "linker_symbol \<Rightarrow> MapFileEntry" where
  "entry_of l = new_entry (ls_sec l) (ls_offs l) 0 (plain_name (ls_name l)) (ls_rva l) (ls_lib l)"

lemma isspace_simps [simp]: "isspace 32" "isspace 10" "\<not> isspace 58" "\<not> isspace 48"
  by (simp_all add: isspace_def)

lemma takeWhile_all: "list_all P xs \<Longrightarrow> \<not> P c \<Longrightarrow> takeWhile P (xs @ c # ys) = xs \<and> dropWhile P (xs @ c # ys) = c # ys"
  by (induction xs) auto

lemma dropWhile_all: "list_all P xs \<Longrightarrow> dropWhile P (xs @ ys) = dropWhile P ys"
  by (induction xs) auto

text \<open>Reading one word, and has_left one number.\<close>

lemma read_word:
  assumes r: "has_left f (ws @ s @ c # cs)" and ws: "list_all isspace ws" and s: "good_word s" and c: "isspace c" and n: "256 \<le> n"
  shows "\<exists>f1. readString n old f = (True, s, f1) \<and> has_left f1 (c # cs)"
proof -
  have sp: "list_all (\<lambda>c. \<not> isspace c) s" "s \<noteq> []" "length s \<le> n - 1"
    using s n by (auto simp: good_word_def list_all_iff)
  then have d: "dropWhile isspace (ws @ s @ c # cs) = s @ c # cs"
    by (cases s) (auto simp: dropWhile_all [OF ws])
  note t = takeWhile_all [OF sp(1), of c cs]
  from readString_reading [OF r, of n old] show ?thesis
    unfolding d using t c sp(2,3) by simp
qed

lemma cstr_good: "good_word s \<Longrightarrow> cstr s = s"
  by (auto simp: cstr_def good_word_def takeWhile_eq_all_conv list_all_iff)

lemma padded_chars: "list_all is_hex (padded k n)" "padded k n \<noteq> []" "isalnum (hd (padded k n))" "\<not> isspace (hd (padded k n))"
proof -
  have "is_hex c \<and> isalnum c \<and> \<not> isspace c" if "c \<in> set (padded k n)" for c
  proof (cases "c = 48")
    case True
    then show ?thesis by (simp add: is_hex_def hex_digit_def isdigit_def isalnum_def)
  next
    case False
    with that hex_text_chars show ?thesis by (auto simp: padded_def)
  qed
  moreover show "padded k n \<noteq> []" by (simp add: padded_def)
  moreover from this have "hd (padded k n) \<in> set (padded k n)" by simp
  ultimately show "list_all is_hex (padded k n)" "isalnum (hd (padded k n))" "\<not> isspace (hd (padded k n))"
    by (auto simp: list_all_iff)
qed

lemma hex_value_padded: "hex_value 0 (padded k (unat x)) = x"
proof -
  have "hex_value 0 (replicate j 48 @ t) = hex_value 0 t" for j t
    by (induction j) (simp_all add: hex_value_def hex_digit_def isdigit_def)
  then show ?thesis by (simp add: padded_def hex_value_text)
qed

lemma read_number:
  assumes r: "has_left f (ws @ padded k (unat x) @ c # cs)" and ws: "list_all isspace ws" and c: "\<not> is_hex c"
  shows "\<exists>f1. readHex f = (x, f1) \<and> has_left f1 (c # cs)"
proof -
  let ?p = "padded k (unat x)"
  note p = padded_chars [of k "unat x"]
  have d: "dropWhile isspace (ws @ ?p @ c # cs) = ?p @ c # cs"
    using p(2,4) by (cases ?p) (auto simp: dropWhile_all [OF ws])
  have "hd (?p @ c # cs) = hd ?p" using p(2) by simp
  with readHex_reading [OF r] p(3) takeWhile_all [OF p(1) c, of cs] show ?thesis
    unfolding d by (simp add: hex_value_padded)
qed

lemma not_hex [simp]: "\<not> is_hex 32" "\<not> is_hex 58" "\<not> is_hex 10"
  by (simp_all add: is_hex_def hex_digit_def isdigit_def)

lemma good_f: "good_word (bytes_of ''f'')" "bytes_of ''f'' = [102]"
  by (simp_all add: good_word_def bytes_of_def isspace_def)

section \<open>The parser reads it\<close>

lemma parse_entry_reads:
  assumes r: "has_left (m_text m) (symbol_text l @ rest)" and g: "good_symbol l"
  shows "\<exists>buf' lib' f. parse_entry buf lib m = (buf', lib', m\<lparr>m_text := f, entries := entries m @ [entry_of l]\<rparr>) \<and>
    has_left f (10 # rest)"
proof -
  have gw: "good_word (ls_name l)" "good_word (ls_lib l)" using g by (simp_all add: good_symbol_def)
  let ?u1 = "padded 8 (unat (ls_rva l)) @ 32 # (if ls_flag l then bytes_of ''f'' else [32]) @ [32, 32] @ ls_lib l @ 10 # rest"
  let ?u2 = "(if ls_flag l then bytes_of ''f'' else [32]) @ [32, 32] @ ls_lib l @ 10 # rest"
  from r have "has_left (m_text m) ([] @ padded 4 (unat (ls_sec l)) @ 58 # padded 8 (unat (ls_offs l)) @ 32 # [32, 32] @ ls_name l @ 32 # ?u1)"
    by (simp add: symbol_text_def)
  from read_number [OF this] obtain f0 where f0: "readHex (m_text m) = (ls_sec l, f0)"
    and r0: "has_left f0 (58 # padded 8 (unat (ls_offs l)) @ 32 # [32, 32] @ ls_name l @ 32 # ?u1)" by auto
  from readChar_reading(2) [OF r0] obtain f1 where f1: "readChar f0 = (Some 58, f1)"
    and r1: "has_left f1 ([] @ padded 8 (unat (ls_offs l)) @ 32 # [32, 32] @ ls_name l @ 32 # ?u1)" by auto
  from read_number [OF r1] obtain f2 where f2: "readHex f1 = (ls_offs l, f2)"
    and r2: "has_left f2 ([32, 32, 32] @ ls_name l @ 32 # ?u1)" by auto
  from read_word [OF r2 _ gw(1), of 256 buf] obtain f3 where f3: "readString 256 buf f2 = (True, ls_name l, f3)"
    and r3: "has_left f3 ([32] @ ?u1)" by auto
  from read_number [OF r3] obtain f4 where f4: "readHex f3 = (ls_rva l, f4)" and r4: "has_left f4 (32 # ?u2)" by auto
  have "\<exists>b lib1 f5 lib' f6. readString 256 lib f4 = (b, lib1, f5) \<and>
      (if cstr lib1 = bytes_of ''f'' then snd (readString 256 lib1 f5) else (lib1, f5)) = (lib', f6) \<and>
      lib' = ls_lib l \<and> has_left f6 (10 # rest)"
  proof (cases "ls_flag l")
    case True
    then have "has_left f4 ([32] @ bytes_of ''f'' @ 32 # [32] @ ls_lib l @ 10 # rest)" using r4 by simp
    from read_word [OF this _ good_f(1), of 256 lib] obtain f5 where f5: "readString 256 lib f4 = (True, bytes_of ''f'', f5)"
      and r5: "has_left f5 ([32, 32] @ ls_lib l @ 10 # rest)" by auto
    from read_word [OF r5 _ gw(2), of 256 "bytes_of ''f''"] f5 show ?thesis by (auto simp: cstr_good [OF good_f(1)])
  next
    case False
    then have "has_left f4 ([32, 32, 32, 32] @ ls_lib l @ 10 # rest)" using r4 by simp
    from read_word [OF this _ gw(2), of 256 lib] obtain f5 where f5: "readString 256 lib f4 = (True, ls_lib l, f5)"
      "has_left f5 (10 # rest)" by auto
    have "cstr (ls_lib l) \<noteq> bytes_of ''f''" using g False by (simp add: cstr_good [OF gw(2)] good_symbol_def)
    with f5 show ?thesis by auto
  qed
  then obtain b lib1 f5 lib' f6 where l: "readString 256 lib f4 = (b, lib1, f5)"
    "(if cstr lib1 = bytes_of ''f'' then snd (readString 256 lib1 f5) else (lib1, f5)) = (lib', f6)"
    "lib' = ls_lib l" "has_left f6 (10 # rest)" by blast
  have "parse_char 58 (m\<lparr>m_text := f0\<rparr>) = m\<lparr>m_text := f1\<rparr>" using f1 by (simp add: parse_char_def)
  with f0 f2 f3 f4 l(1,2,3) have "\<exists>buf'. parse_entry buf lib m = (buf', lib', m\<lparr>m_text := f6, entries := entries m @ [entry_of l]\<rparr>)"
    by (simp add: parse_entry_def Let_def entry_of_def cstr_good [OF gw(1)])
  with l(4) show ?thesis by blast
qed

lemma skip_blanks_reading:
  "has_left f cs \<Longrightarrow> has_left (skip_blanks f) (dropWhile (\<lambda>c. isspace c \<and> c \<noteq> 10) cs)"
proof (induction cs arbitrary: f)
  case Nil
  with peekChar_reading(1) show ?case by (fastforce simp: skip_blanks.simps [of f])
next
  case (Cons c cs)
  from peekChar_reading(2) [OF Cons.prems] obtain f1 where p: "peekChar f = (Some c, f1)" "has_left f1 (c # cs)" by blast
  from readChar_reading(2) [OF p(2)] obtain f2 where "readChar f1 = (Some c, f2)" "has_left f2 cs" by blast
  with p Cons.IH show ?case by (simp add: skip_blanks.simps [of f])
qed

lemma nextLineEmpty_reads:
  assumes r: "has_left (m_text m) (10 # rest)" and d: "dropWhile (\<lambda>c. isspace c \<and> c \<noteq> 10) rest = c # cs"
  shows "\<exists>f. nextLineEmpty m = (c = 10, m\<lparr>m_text := f\<rparr>) \<and> has_left f (c # cs)"
proof -
  have "has_left (skip_blanks (skipLine (m_text m))) (c # cs)"
    using skip_blanks_reading [OF skipLine_reading [OF r]] d by simp
  from peekChar_reading(2) [OF this] show ?thesis by (auto simp: nextLineEmpty_def)
qed

lemma symbol_text_head: "\<exists>c cs. symbol_text l = c # cs \<and> \<not> isspace c \<and> c \<noteq> 10"
proof -
  obtain c cs where p: "padded 4 (unat (ls_sec l)) = c # cs" using padded_chars(2) by (meson neq_Nil_conv)
  with padded_chars(4) [of 4 "unat (ls_sec l)"] show ?thesis by (auto simp: symbol_text_def isspace_def)
qed

definition symbols_text :: "linker_symbol list \<Rightarrow> u8 list" where
  "symbols_text ls = concat (map (\<lambda>l. 32 # symbol_text l) ls)"

lemma entry_lines_reads:
  "has_left (m_text m) (symbol_text l @ symbols_text ls @ 10 # rest) \<Longrightarrow> m_err m = ERROR_NONE \<Longrightarrow>
   list_all good_symbol (l # ls) \<Longrightarrow>
   \<exists>f. entry_lines buf lib m = m\<lparr>m_text := f, entries := entries m @ map entry_of (l # ls)\<rparr> \<and> has_left f (10 # rest)"
proof (induction ls arbitrary: l m buf lib)
  case Nil
  then have g: "good_symbol l" and e: "map_error m = ERROR_NONE" by (simp_all add: map_error_def has_left_def)
  from Nil.prems(1) have "has_left (m_text m) (symbol_text l @ 10 # rest)" by (simp add: symbols_text_def)
  from parse_entry_reads [OF this g] obtain buf' lib' f m1
    where m1: "m1 = m\<lparr>m_text := f, entries := entries m @ [entry_of l]\<rparr>"
    and p: "parse_entry buf lib m = (buf', lib', m1)" "has_left (m_text m1) (10 # 10 # rest)" by fastforce
  from nextLineEmpty_reads [OF p(2)] obtain f1 where "nextLineEmpty m1 = (True, m1\<lparr>m_text := f1\<rparr>)" "has_left f1 (10 # rest)" by auto
  with p(1) e show ?case by (intro exI [of _ f1]) (simp add: entry_lines.simps [of buf lib m] m1)
next
  case (Cons k ls)
  then have g: "good_symbol l" and e: "map_error m = ERROR_NONE" by (simp_all add: map_error_def has_left_def)
  let ?t = "symbol_text k @ symbols_text ls @ 10 # rest"
  from Cons.prems(1) have "has_left (m_text m) (symbol_text l @ 32 # ?t)" by (simp add: symbols_text_def)
  from parse_entry_reads [OF this g] obtain buf' lib' f m1
    where m1: "m1 = m\<lparr>m_text := f, entries := entries m @ [entry_of l]\<rparr>"
    and p: "parse_entry buf lib m = (buf', lib', m1)" "has_left (m_text m1) (10 # 32 # ?t)" by fastforce
  obtain c cs where c: "symbol_text k = c # cs" "\<not> isspace c" "c \<noteq> 10" using symbol_text_head by blast
  with nextLineEmpty_reads [OF p(2), of c "cs @ symbols_text ls @ 10 # rest"] obtain f1
    where n: "nextLineEmpty m1 = (False, m1\<lparr>m_text := f1\<rparr>)" "has_left f1 ?t" by auto
  from Cons.IH [of "m1\<lparr>m_text := f1\<rparr>" k buf' lib'] n(2) Cons.prems obtain f2
    where "entry_lines buf' lib' (m1\<lparr>m_text := f1\<rparr>) = m1\<lparr>m_text := f2, entries := entries m1 @ map entry_of (k # ls)\<rparr>"
      "has_left f2 (10 # rest)" by (auto simp: m1)
  with p(1) n(1) e show ?case by (intro exI [of _ f2]) (simp add: entry_lines.simps [of buf lib m] m1)
qed

lemma parse_word_reads:
  assumes r: "has_left (m_text m) (ws @ bytes_of s @ c # cs)" and ws: "list_all isspace ws" and s: "good_word (bytes_of s)" and c: "isspace c"
  shows "\<exists>f. parse_word junk s m = m\<lparr>m_text := f\<rparr> \<and> has_left f (c # cs)"
  using read_word [OF r ws s c, of 256 junk] by (auto simp: parse_word_def cstr_good [OF s])

definition words_text :: "string list \<Rightarrow> u8 list" where
  "words_text ss = concat (map (\<lambda>s. 32 # bytes_of s) ss)"

lemma good_header:
  "good_word (bytes_of ''Address'')" "good_word (bytes_of ''Publics'')" "good_word (bytes_of ''by'')"
  "good_word (bytes_of ''Value'')" "good_word (bytes_of ''Rva+Base'')" "good_word (bytes_of ''Lib:Object'')"
  by (simp_all add: good_word_def bytes_of_def isspace_def)

lemma parseEntries_reads:
  assumes r: "has_left (m_text m) (words_text [''Publics'', ''by'', ''Value'', ''Rva+Base'', ''Lib:Object''] @ [10, 10] @ symbols_text (l # ls) @ 10 # rest)"
    and e: "m_err m = ERROR_NONE" and g: "list_all good_symbol (l # ls)"
  shows "\<exists>f. parseEntries junk m = m\<lparr>m_text := f, entries := entries m @ map entry_of (l # ls)\<rparr> \<and> has_left f (10 # rest)"
proof -
  let ?t = "[10, 10] @ symbols_text (l # ls) @ 10 # rest"
  from r have "has_left (m_text m) ([32] @ bytes_of ''Publics'' @ 32 # bytes_of ''by'' @ 32 # bytes_of ''Value'' @ 32 #
      bytes_of ''Rva+Base'' @ 32 # bytes_of ''Lib:Object'' @ ?t)" by (simp add: words_text_def)
  from parse_word_reads [OF this _ good_header(2), of junk] obtain f1 where p1: "parse_word junk ''Publics'' m = m\<lparr>m_text := f1\<rparr>"
    and r1: "has_left f1 ([32] @ bytes_of ''by'' @ 32 # bytes_of ''Value'' @ 32 # bytes_of ''Rva+Base'' @ 32 # bytes_of ''Lib:Object'' @ ?t)" by auto
  from parse_word_reads [of "m\<lparr>m_text := f1\<rparr>", OF _ _ good_header(3), of "[32]" 32] r1 obtain f2
    where p2: "parse_word junk ''by'' (m\<lparr>m_text := f1\<rparr>) = m\<lparr>m_text := f2\<rparr>"
    and r2: "has_left f2 ([32] @ bytes_of ''Value'' @ 32 # bytes_of ''Rva+Base'' @ 32 # bytes_of ''Lib:Object'' @ ?t)" by fastforce
  from parse_word_reads [of "m\<lparr>m_text := f2\<rparr>", OF _ _ good_header(4), of "[32]" 32] r2 obtain f3
    where p3: "parse_word junk ''Value'' (m\<lparr>m_text := f2\<rparr>) = m\<lparr>m_text := f3\<rparr>"
    and r3: "has_left f3 ([32] @ bytes_of ''Rva+Base'' @ 32 # bytes_of ''Lib:Object'' @ ?t)" by fastforce
  from parse_word_reads [of "m\<lparr>m_text := f3\<rparr>", OF _ _ good_header(5), of "[32]" 32] r3 obtain f4
    where p4: "parse_word junk ''Rva+Base'' (m\<lparr>m_text := f3\<rparr>) = m\<lparr>m_text := f4\<rparr>"
    and r4: "has_left f4 ([32] @ bytes_of ''Lib:Object'' @ ?t)" by fastforce
  from parse_word_reads [of "m\<lparr>m_text := f4\<rparr>", OF _ _ good_header(6), of "[32]" 10] r4 obtain f5
    where p5: "parse_word junk ''Lib:Object'' (m\<lparr>m_text := f4\<rparr>) = m\<lparr>m_text := f5\<rparr>" and r5: "has_left f5 ?t" by fastforce
  obtain c cs where c: "symbol_text l = c # cs" "\<not> isspace c" "c \<noteq> 10" using symbol_text_head by blast
  then have "dropWhile isspace ?t = symbol_text l @ symbols_text ls @ 10 # rest" by (simp add: symbols_text_def)
  with skipWhitespace_reading [OF r5] have "has_left (snd (skipWhitespace f5)) (symbol_text l @ symbols_text ls @ 10 # rest)" by simp
  from entry_lines_reads [of "m\<lparr>m_text := snd (skipWhitespace f5)\<rparr>", OF _ _ g, of rest junk junk] this e
  show ?thesis by (auto simp: parseEntries_def Let_def p1 p2 p3 p4 p5)
qed

text \<open>The other lines of the file: anything that does not begin with the word \<open>Address\<close>, after any white space.\<close>

definition other_line :: "u8 list \<times> u8 list \<Rightarrow> bool" where
  "other_line p \<longleftrightarrow> (case p of (ws, l) \<Rightarrow> list_all isspace ws \<and> l \<noteq> [] \<and> \<not> isspace (hd l) \<and> 10 \<notin> set l \<and>
     cstr (take 1023 (takeWhile (\<lambda>c. \<not> isspace c) l)) \<noteq> bytes_of ''Address'')"

definition lines_text :: "(u8 list \<times> u8 list) list \<Rightarrow> u8 list" where
  "lines_text ps = concat (map (\<lambda>(ws, l). ws @ l @ [10]) ps)"

definition map_file_text :: "u8 list \<Rightarrow> (u8 list \<times> u8 list) list \<Rightarrow> linker_symbol list \<Rightarrow> (u8 list \<times> u8 list) list \<Rightarrow> u8 list" where
  "map_file_text nm pre ls post =
     nm @ 10 # lines_text pre @ words_text [''Address'', ''Publics'', ''by'', ''Value'', ''Rva+Base'', ''Lib:Object''] @ [10, 10] @
     symbols_text ls @ 10 # lines_text post"

lemma map_words_line:
  assumes r: "has_left (m_text m) (ws0 @ ws @ l @ 10 # t)" and ws: "list_all isspace ws0" and o: "other_line (ws, l)"
  shows "\<exists>buf1 f. map_words junk buf m = map_words junk buf1 (m\<lparr>m_text := f\<rparr>) \<and> has_left f t"
proof -
  from o have l: "list_all isspace ws" "l \<noteq> []" "\<not> isspace (hd l)" "10 \<notin> set l"
    "cstr (take 1023 (takeWhile (\<lambda>c. \<not> isspace c) l)) \<noteq> bytes_of ''Address''" by (simp_all add: other_line_def)
  have d: "dropWhile isspace (ws0 @ ws @ l @ 10 # t) = l @ 10 # t"
    using l(2,3) by (cases l) (auto simp: dropWhile_all [OF ws] dropWhile_all [OF l(1)])
  have w: "takeWhile (\<lambda>c. \<not> isspace c) (l @ 10 # t) = takeWhile (\<lambda>c. \<not> isspace c) l"
    "dropWhile (\<lambda>c. \<not> isspace c) (l @ 10 # t) = dropWhile (\<lambda>c. \<not> isspace c) l @ 10 # t"
    by (induction l) simp_all
  have n: "take 1023 (takeWhile (\<lambda>c. \<not> isspace c) l) \<noteq> []" using l(2,3) by (cases l) simp_all
  from readString_reading [OF r, of 1024 buf] obtain f
    where f: "readString 1024 buf (m_text m) = (True, take 1023 (takeWhile (\<lambda>c. \<not> isspace c) l), f)"
      "has_left f (dropWhile (\<lambda>c. \<not> isspace c) l @ 10 # t)" unfolding d w using n by auto
  have "10 \<notin> set (dropWhile (\<lambda>c. \<not> isspace c) l)" using l(4) by (meson set_dropWhileD)
  then have "drop 1 (dropWhile (\<lambda>c. c \<noteq> 10) (dropWhile (\<lambda>c. \<not> isspace c) l @ 10 # t)) = t"
    by (subst dropWhile_all) (auto simp: list_all_iff)
  with skipLine_reading [OF f(2)] f(1) l(5) show ?thesis by (auto simp: map_words.simps [of junk buf m])
qed

lemma map_words_lines:
  "has_left (m_text m) (ws0 @ lines_text ps @ t) \<Longrightarrow> list_all isspace ws0 \<Longrightarrow> list_all other_line ps \<Longrightarrow>
   \<exists>buf1 f ws1. map_words junk buf m = map_words junk buf1 (m\<lparr>m_text := f\<rparr>) \<and> has_left f (ws1 @ t) \<and> list_all isspace ws1"
proof (induction ps arbitrary: m buf ws0)
  case Nil
  then have "map_words junk buf m = map_words junk buf (m\<lparr>m_text := m_text m\<rparr>)" "has_left (m_text m) (ws0 @ t)"
    by (simp_all add: lines_text_def)
  with Nil.prems(2) show ?case by blast
next
  case (Cons p ps)
  obtain ws l where p: "p = (ws, l)" by (cases p)
  from Cons.prems(1) have "has_left (m_text m) (ws0 @ ws @ l @ 10 # lines_text ps @ t)" by (simp add: lines_text_def p)
  from map_words_line [OF this Cons.prems(2)] Cons.prems(3) p obtain buf1 f
    where a: "map_words junk buf m = map_words junk buf1 (m\<lparr>m_text := f\<rparr>)" "has_left f (lines_text ps @ t)" by fastforce
  from Cons.IH [of "m\<lparr>m_text := f\<rparr>" "[]" buf1] a Cons.prems(3) obtain buf2 f2 ws1
    where "map_words junk buf1 (m\<lparr>m_text := f\<rparr>) = map_words junk buf2 (m\<lparr>m_text := f\<rparr>\<lparr>m_text := f2\<rparr>)" "has_left f2 (ws1 @ t)"
      "list_all isspace ws1" by auto
  with a(1) show ?case by (intro exI [of _ buf2] exI [of _ f2] exI [of _ ws1]) simp
qed

lemma map_words_end:
  assumes "has_left (m_text m) ws" and "list_all isspace ws"
  shows "\<exists>f. map_words junk buf m = m\<lparr>m_text := f\<rparr> \<and> has_left f []"
proof -
  have "dropWhile isspace ws = []" using assms(2) by (simp add: list_all_iff)
  with readString_reading [OF assms(1), of 1024 buf] show ?thesis by (auto simp: map_words.simps [of junk buf m])
qed

lemma map_words_entries:
  assumes r: "has_left (m_text m) (ws @ words_text [''Address'', ''Publics'', ''by'', ''Value'', ''Rva+Base'', ''Lib:Object''] @ [10, 10] @
      symbols_text (l # ls) @ 10 # rest)"
    and ws: "list_all isspace ws" and e: "m_err m = ERROR_NONE" and g: "list_all good_symbol (l # ls)"
  shows "\<exists>buf1 f. map_words junk buf m = map_words junk buf1 (m\<lparr>m_text := f, entries := entries m @ map entry_of (l # ls)\<rparr>) \<and>
    has_left f (10 # rest)"
proof -
  let ?t = "words_text [''Publics'', ''by'', ''Value'', ''Rva+Base'', ''Lib:Object''] @ [10, 10] @ symbols_text (l # ls) @ 10 # rest"
  obtain t where t: "?t = 32 # t" by (simp add: words_text_def)
  with r have r1: "has_left (m_text m) ((ws @ [32]) @ bytes_of ''Address'' @ 32 # t)" by (simp add: words_text_def)
  obtain f where f: "readString 1024 buf (m_text m) = (True, bytes_of ''Address'', f)" "has_left f ?t"
    unfolding t using read_word [OF r1 _ good_header(1), of 1024 buf] ws by auto
  have eq: "map_words junk buf m = map_words junk (bytes_of ''Address'') (parseEntries junk (m\<lparr>m_text := f\<rparr>))"
    using f(1) by (simp add: map_words.simps [of junk buf m] cstr_good [OF good_header(1)])
  from parseEntries_reads [of "m\<lparr>m_text := f\<rparr>", OF _ _ g, of rest junk] f(2) e obtain f2
    where p: "parseEntries junk (m\<lparr>m_text := f\<rparr>) = m\<lparr>m_text := f\<rparr>\<lparr>m_text := f2, entries := entries m @ map entry_of (l # ls)\<rparr>"
      "has_left f2 (10 # rest)" by fastforce
  show ?thesis
    by (intro exI [of _ "bytes_of ''Address''"] exI [of _ f2]) (use eq p in simp)
qed

section \<open>Properties\<close>

lemma mset_sort_pointers: "mset (sort_pointers place es) = mset es"
proof -
  have "mset (sort_pointers place es) = image_mset ((!) es) (mset [0 ..< length es])" by (simp add: sort_pointers_def)
  also have "\<dots> = mset (map ((!) es) [0 ..< length es])" by simp
  finally show ?thesis by (simp add: map_nth)
qed

lemma sort_pointers_increasing:
  assumes "\<And>i j. i < j \<Longrightarrow> j < length es \<Longrightarrow> place i < place j"
  shows "sort_pointers place es = es"
proof -
  have "sorted (map place [0 ..< length es])"
    unfolding sorted_iff_nth_mono_less using assms by (simp add: less_imp_le)
  then show ?thesis by (simp add: sort_pointers_def sort_key_id_if_sorted map_nth)
qed

lemma map_file_entries:
  fixes junk :: "u8 list" and place :: "nat \<Rightarrow> nat"
  assumes "good_word nm" and "list_all other_line pre" and "list_all other_line post" and "ls \<noteq> []" and "list_all good_symbol ls"
  defines "m \<equiv> MapFileImpl junk place (Some (map_file_text nm pre ls post)) False"
  shows "map_error m = ERROR_NONE \<and> map_name m = nm \<and> mset (entries m) = image_mset entry_of (mset ls) \<and>
    ((\<forall>i j. i < j \<and> j < length ls \<longrightarrow> place i < place j) \<longrightarrow> entries m = map entry_of ls) \<and>
    entries m = sort_pointers place (map entry_of ls)"
proof -
  let ?h = "words_text [''Address'', ''Publics'', ''by'', ''Value'', ''Rva+Base'', ''Lib:Object''] @ [10, 10] @ symbols_text ls @ 10 # lines_text post"
  let ?f = "TextFileImpl (Some (map_file_text nm pre ls post)) False"
  have "has_left ?f ([] @ nm @ 10 # lines_text pre @ ?h)" using reading_open by (simp add: map_file_text_def)
  from read_word [OF this _ assms(1), of 256 junk] obtain f0 where f0: "readString 256 junk ?f = (True, nm, f0)"
    and r0: "has_left f0 ([10] @ lines_text pre @ ?h)" by auto
  define m0 where "m0 = \<lparr>m_text = f0, m_err = ERROR_NONE, m_errLine = 0, loadAddr = 0, map_name = nm, entries = []\<rparr>"
  from r0 have "has_left (m_text m0) ([10] @ lines_text pre @ ?h)" by (simp add: m0_def)
  from map_words_lines [OF this _ assms(2), of junk junk] obtain b1 f1 ws1
    where m1: "map_words junk junk m0 = map_words junk b1 (m0\<lparr>m_text := f1\<rparr>)" "has_left f1 (ws1 @ ?h)" "list_all isspace ws1" by auto
  obtain l ls' where ls: "ls = l # ls'" using assms(4) by (cases ls) auto
  from map_words_entries [of "m0\<lparr>m_text := f1\<rparr>" ws1 l ls' "lines_text post" junk b1] m1(2,3) assms(5) obtain b2 f2
    where m2: "map_words junk b1 (m0\<lparr>m_text := f1\<rparr>) = map_words junk b2 (m0\<lparr>m_text := f1\<rparr>\<lparr>m_text := f2, entries := map entry_of ls\<rparr>)"
      "has_left f2 (10 # lines_text post)" by (auto simp: ls m0_def)
  define m3 where "m3 = m0\<lparr>m_text := f2, entries := map entry_of ls\<rparr>"
  from m2(2) have "has_left (m_text m3) ([10] @ lines_text post @ [])" by (simp add: m3_def)
  from map_words_lines [OF this _ assms(3), of junk b2] obtain b4 f4 ws4
    where m4: "map_words junk b2 m3 = map_words junk b4 (m3\<lparr>m_text := f4\<rparr>)" "has_left f4 ws4" "list_all isspace ws4" by auto
  from map_words_end [of "m3\<lparr>m_text := f4\<rparr>" ws4 junk b4] m4(2,3) obtain f5
    where m5: "map_words junk b4 (m3\<lparr>m_text := f4\<rparr>) = m3\<lparr>m_text := f4\<rparr>\<lparr>m_text := f5\<rparr>" "has_left f5 []" by auto
  have "map_words junk junk m0 = m3\<lparr>m_text := f5\<rparr>" using m1(1) m2(1) m4(1) m5(1) by (simp add: m3_def)
  then have m: "m = m3\<lparr>m_text := f5, entries := sort_pointers place (map entry_of ls)\<rparr>"
    by (simp add: m_def MapFileImpl_def Let_def f0 m0_def [symmetric]) (simp add: m3_def)
  show ?thesis
    using m5(2) mset_sort_pointers [of place "map entry_of ls"] sort_pointers_increasing [of "map entry_of ls" place]
    by (simp add: m m3_def m0_def map_error_def has_left_def)
qed

text \<open>C37: A map file reads back: from what the linker wrote the parser gets every symbol, with its section, offset,
  address and library, and with its name undecorated; nothing else of the file becomes an entry; and
  the entries are in the order of the file if the addresses of the objects are increasing.\<close>

theorem map_file_read_back:
  fixes junk :: "u8 list" and place :: "nat \<Rightarrow> nat"
  assumes "good_word nm" and "list_all other_line pre" and "list_all other_line post" and "ls \<noteq> []" and "list_all good_symbol ls"
  defines "m \<equiv> MapFileImpl junk place (Some (map_file_text nm pre ls post)) False"
  shows "map_error m = ERROR_NONE \<and> map_name m = nm \<and> mset (entries m) = image_mset entry_of (mset ls) \<and>
    ((\<forall>i j. i < j \<and> j < length ls \<longrightarrow> place i < place j) \<longrightarrow> entries m = map entry_of ls)"
  using map_file_entries [OF assms(1-5), of junk place] unfolding m_def by blast

lemma find_from_last:
  "n \<le> length es \<Longrightarrow> (find_from es addr n = - 1 \<and> (\<forall>i < n. sint addr < sint (m_rvabase (es ! i)))) \<or>
   (\<exists>i < n. find_from es addr n = int i \<and> sint (m_rvabase (es ! i)) \<le> sint addr \<and>
      (\<forall>j. i < j \<and> j < n \<longrightarrow> sint addr < sint (m_rvabase (es ! j))))"
proof (induction n)
  case (Suc n)
  show ?case
  proof (cases "sint (m_rvabase (es ! n)) \<le> sint addr")
    case False
    with Suc.IH Suc.prems show ?thesis by (auto simp: less_Suc_eq)
  qed auto
qed simp


text \<open>A map file with two functions.\<close>

definition sample_symbols :: "linker_symbol list" where
  "sample_symbols =
     [\<lparr>ls_sec = 1, ls_offs = 0x1A0, ls_name = bytes_of ''?stackTrace@@YAXXZ'', ls_rva = 0x4011A0, ls_flag = True,
         ls_lib = bytes_of ''main.obj''\<rparr>,
      \<lparr>ls_sec = 1, ls_offs = 0x200, ls_name = bytes_of ''?run@App@@QAEXXZ'', ls_rva = 0x401200, ls_flag = True,
         ls_lib = bytes_of ''app.obj''\<rparr>]"

definition sample_map :: "(nat \<Rightarrow> nat) \<Rightarrow> map_file" where
  "sample_map place = MapFileImpl [] place
     (Some (map_file_text (bytes_of ''app'') [([32], bytes_of ''Timestamp is 44'')] sample_symbols [])) False"

lemma sample_symbols_good: "list_all good_symbol sample_symbols" "good_word (bytes_of ''app'')"
    "list_all other_line [([32], bytes_of ''Timestamp is 44'')]"
  by (simp_all add: sample_symbols_def good_symbol_def good_word_def other_line_def bytes_of_def isspace_def cstr_def)

theorem map_file_read_back_witness:
  "map_error (sample_map id) = ERROR_NONE \<and>
   map m_name (entries (sample_map id)) = [bytes_of ''stackTrace'', bytes_of ''run.App'']"
proof -
  have "map m_name (map entry_of sample_symbols) = [bytes_of ''stackTrace'', bytes_of ''run.App'']"
    by (simp add: sample_symbols_def entry_of_def new_entry_def plain_name_def dots_def leading_def isdigit_def cstr_def MAX_NAME_def bytes_of_def)
  with map_file_read_back [OF sample_symbols_good(2,3) _ _ sample_symbols_good(1), of "[]" "[]" id] show ?thesis
    by (simp add: sample_map_def sample_symbols_def)
qed


text \<open>If \<open>new\<close> returns decreasing addresses the same address is put to the other function.\<close>

lemma lookup_misled:
  "findEntry (sample_map (\<lambda>i. 10 - i)) 0x401210 = Some 1 \<and>
   entries (sample_map (\<lambda>i. 10 - i)) ! 1 = entry_of (sample_symbols ! 0)"
proof -
  have "entries (sample_map (\<lambda>i. 10 - i)) = sort_pointers (\<lambda>i. 10 - i) (map entry_of sample_symbols)"
    using map_file_entries [OF sample_symbols_good(2,3) _ _ sample_symbols_good(1), of "[]" "[]" "\<lambda>i. 10 - i"]
    by (simp add: sample_map_def sample_symbols_def)
  also have "\<dots> = map entry_of (rev sample_symbols)" by (simp add: sort_pointers_def sample_symbols_def)
  finally show ?thesis
    by (simp add: findEntry_def sample_symbols_def entry_of_def new_entry_def)
qed

text \<open>The entries are kept in an \<open>Array\<close>: a lookup goes wrong exactly where it reads the element before the
  first one, and the destructor may read behind the last one the array has room for.\<close>

lemma findEntry_outside:
  "findEntry m addr = None \<longleftrightarrow> addr \<noteq> 0 \<and> array_get (array_of junk (entries m)) (int (length (entries m)) - 1) = None"
proof (cases "entries m")
  case Nil
  then show ?thesis by (simp add: findEntry_def array_of_outside)
next
  case (Cons e es)
  with array_of_get [of "length es" "entries m" junk] show ?thesis by (simp add: findEntry_def Let_def)
qed

lemma destructor_outside:
  "length (entries m) = 8 \<Longrightarrow> \<exists>i \<in> set (deleted_entries m). array_get (array_of junk (entries m)) (int i) = None"
  using array_of_outside(2) [of "entries m" junk] by (intro bexI [of _ 8]) (simp_all add: deleted_entries_def)

lemma destructor_misses_first:
  "0 \<notin> set (deleted_entries m)" "entries m \<noteq> [] \<Longrightarrow> length (entries m) \<in> set (deleted_entries m)"
  by (simp_all add: deleted_entries_def Suc_le_eq del: upt_Suc)

end
