(* ===== verification/Duma_StackTrace.thy ===== *)
theory Duma_StackTrace
  imports Duma_MapFile Duma_Print
begin

text \<open>
  The stack trace: \<open>src/stacktrace/internal/StackTrace.cpp\<close>, the interface
  \<open>src/stacktrace/printStackTrace.cpp\<close>, and the map file's name (\<open>MapFile.cpp\<close>).

  \<open>getCaller i\<close>, inline assembly that walks the frames, is an argument; without the Visual C++ debug
  build it is always 0.  A character array is the list of all its bytes; a write behind its last byte
  is \<open>None\<close>, and so is a read before the entries of a map file without any.
\<close>

section \<open>Character arrays\<close>

definition write_at :: "nat \<Rightarrow> u8 list \<Rightarrow> u8 list \<Rightarrow> u8 list option" where
  "write_at k s buf = (if k + length s \<le> length buf then Some (take k buf @ s @ drop (k + length s) buf) else None)"

text \<open>\<open>strcat\<close> and \<open>sprintf\<close>.\<close>

definition strcat_to :: "u8 list \<Rightarrow> u8 list \<Rightarrow> u8 list option" where
  "strcat_to buf s = (if 0 \<in> set buf then write_at (length (cstr buf)) (s @ [0]) buf else None)"

definition sprintf_to :: "u8 list \<Rightarrow> u8 list \<Rightarrow> u8 list option" where
  "sprintf_to buf s = write_at 0 (s @ [0]) buf"

section \<open>Collecting the callers\<close>

definition internalFunctions :: "u8 list list" where
  "internalFunctions = map bytes_of
     [''__duma_malloc'', ''__duma_calloc'', ''__duma_realloc'', ''__duma_valloc'', ''__duma_allocate'', ''_printStackTrace'']"

definition MAX_DEPTH :: nat where
  "MAX_DEPTH = 32"

definition IsInternalFunction :: "u8 list \<Rightarrow> bool" where
  "IsInternalFunction func \<longleftrightarrow> func \<in> set internalFunctions"

text \<open>The entry of the first map file that knows the address.\<close>

fun find_in_maps :: "map_file list \<Rightarrow> u32 \<Rightarrow> MapFileEntry option option" where
  "find_in_maps [] addr = Some None"
| "find_in_maps (m # ms) addr =
     (case findEntry m addr of
        None \<Rightarrow> None
      | Some e \<Rightarrow> if e \<noteq> - 1 then Some (Some (entries m ! nat e)) else find_in_maps ms addr)"

function callers_from ::
    "(int \<Rightarrow> u32) \<Rightarrow> map_file list \<Rightarrow> int \<Rightarrow> int \<Rightarrow> u32 \<Rightarrow> (u32 \<times> MapFileEntry) list \<Rightarrow> (u32 \<times> MapFileEntry) list option" where
  "callers_from getCaller maps maxDepth i addr cs =
     (if i < maxDepth \<and> addr \<noteq> 0 then
        if MAX_DEPTH \<le> length cs then None
        else let addr = getCaller i in
          (case find_in_maps maps addr of
             None \<Rightarrow> None
           | Some None \<Rightarrow> callers_from getCaller maps maxDepth (i + 1) addr cs
           | Some (Some e) \<Rightarrow> callers_from getCaller maps maxDepth (i + 1) addr (cs @ [(addr, e)]))
      else Some cs)"
  by auto
termination by (relation "measure (\<lambda>(_, _, maxDepth, i, _, _). nat (maxDepth - i))") auto

declare callers_from.simps [simp del]

section \<open>Writing the trace\<close>

definition trace_line :: "int \<Rightarrow> int \<Rightarrow> u32 \<times> MapFileEntry \<Rightarrow> u8 list" where
  "trace_line initLevel i c =
     replicate (nat (i - (initLevel - 1))) 32 @ m_name (snd c) @ bytes_of '' ('' @ hex_text (unat (fst c)) @ bytes_of '')'' @ [10]"

text \<open>\<open>cs\<close> are the callers from the outermost one; each line is first put together in an array of its own.\<close>

fun trace_lines :: "int \<Rightarrow> int \<Rightarrow> int \<Rightarrow> (u32 \<times> MapFileEntry) list \<Rightarrow> int \<Rightarrow> u8 list \<Rightarrow> (int \<times> u8 list) option" where
  "trace_lines initLevel bufferSize i [] needed buffer = Some (needed, buffer)"
| "trace_lines initLevel bufferSize i (c # cs) needed buffer =
     (if IsInternalFunction (m_name (snd c)) then trace_lines initLevel bufferSize (i + 1) cs needed buffer
      else let buf = trace_line initLevel i c in
        if MAX_NAME + MAX_DEPTH + 20 \<le> length buf then None
        else let needed = needed + int (length buf) in
          if needed < bufferSize then
            (case strcat_to buffer buf of
               None \<Rightarrow> None
             | Some buffer \<Rightarrow> trace_lines initLevel bufferSize (i + 1) cs needed buffer)
          else trace_lines initLevel bufferSize (i + 1) cs needed buffer)"

definition StackTrace_printStackTrace ::
    "(int \<Rightarrow> u32) \<Rightarrow> map_file list \<Rightarrow> int \<Rightarrow> int \<Rightarrow> u8 list \<Rightarrow> int \<Rightarrow> (int \<times> u8 list) option" where
  "StackTrace_printStackTrace getCaller maps initLevel maxDepth buffer bufferSize =
     (let maxDepth = (if maxDepth > int MAX_DEPTH then int MAX_DEPTH else maxDepth) in
      case callers_from getCaller maps maxDepth initLevel (- 1) [] of
        None \<Rightarrow> None
      | Some cs \<Rightarrow>
          (case (if bufferSize > 0 then write_at 0 [0] buffer else Some buffer) of
             None \<Rightarrow> None
           | Some buffer \<Rightarrow>
               (case trace_lines initLevel bufferSize 1 (rev cs) 0 buffer of
                  None \<Rightarrow> None
                | Some (needed, buffer) \<Rightarrow>
                    map_option (Pair needed)
                      (if needed < bufferSize then write_at (nat needed) [0] buffer
                       else if bufferSize > 0 then write_at (nat (bufferSize - 1)) [0] buffer
                       else Some buffer))))"

section \<open>The interface\<close>

text \<open>\<open>exe\<close> is the name of the program that Windows returns, the empty string elsewhere.\<close>

definition getModuleMapFilename :: "u8 list \<Rightarrow> nat \<Rightarrow> u8 list" where
  "getModuleMapFilename exe bufferSize =
     (let buffer = take (bufferSize - 1) exe; len = length buffer;
          buffer = (if len > 3 \<and> drop (len - 4) buffer \<in> bytes_of ` {''.exe'', ''.EXE'', ''.DLL'', ''.dll''}
                    then take (len - 4) buffer else buffer)
      in if length buffer + 4 < bufferSize then buffer @ bytes_of ''.map'' else buffer)"

text \<open>A name that fills the array has no terminator and is read past its last byte.\<close>

definition map_filename :: "u8 list \<Rightarrow> u8 list option \<Rightarrow> u8 list option" where
  "map_filename exe mapFilename =
     (case mapFilename of
        None \<Rightarrow> Some (getModuleMapFilename exe 500)
      | Some nm \<Rightarrow> if length nm < 500 then Some nm else None)"

definition map_message :: "u8 list \<Rightarrow> map_file \<Rightarrow> u8 list option" where
  "map_message modname m =
     (case map_error m of
        ERROR_OPEN \<Rightarrow> Some (bytes_of ''Failed to open map file '' @ modname @ [10])
      | ERROR_READ \<Rightarrow> Some (bytes_of ''Error while reading map file '' @ modname @ bytes_of ''('' @ signed_text (map_line m) @ bytes_of '')'' @ [10])
      | ERROR_PARSE \<Rightarrow> Some (bytes_of ''Parse error in map file '' @ modname @ bytes_of ''('' @ signed_text (map_line m) @ bytes_of '')'' @ [10])
      | ERROR_NONE \<Rightarrow> None)"

text \<open>\<open>parsed\<close> is the static pointer to the parsed map file, \<open>newMapFile\<close> reads the file of a name.\<close>

definition printStackTrace ::
    "(int \<Rightarrow> u32) \<Rightarrow> u8 list \<Rightarrow> (u8 list \<Rightarrow> map_file) \<Rightarrow> map_file option \<Rightarrow> u8 list \<Rightarrow> int \<Rightarrow> u8 list option \<Rightarrow>
     (map_file \<times> u8 list) option" where
  "printStackTrace getCaller exe newMapFile parsed buffer bufferSize mapFilename =
     (case (case parsed of
          Some m \<Rightarrow> Some (m, buffer)
        | None \<Rightarrow>
            (case map_filename exe mapFilename of
               None \<Rightarrow> None
             | Some modname \<Rightarrow>
                 let m = newMapFile modname in
                 map_option (Pair m) (case map_message modname m of None \<Rightarrow> Some buffer | Some s \<Rightarrow> sprintf_to buffer s))) of
        None \<Rightarrow> None
      | Some (m, buffer) \<Rightarrow>
          if map_error m = ERROR_NONE then
            map_option (\<lambda>(_, buffer). (m, buffer)) (StackTrace_printStackTrace getCaller [m] 1 16 buffer bufferSize)
          else Some (m, buffer))"

text \<open>The indices of the entries that \<open>StackTraceCleanup\<close> deletes, and the pointer after it.\<close>

definition StackTraceCleanup :: "map_file option \<Rightarrow> nat list \<times> map_file option" where
  "StackTraceCleanup parsed = ((case parsed of None \<Rightarrow> [] | Some m \<Rightarrow> deleted_entries m), None)"

section \<open>What a trace says\<close>

text \<open>The callers that the maps know, up to the first address 0.\<close>

definition call_stack :: "(int \<Rightarrow> u32) \<Rightarrow> map_file list \<Rightarrow> int \<Rightarrow> int \<Rightarrow> (u32 \<times> MapFileEntry) list" where
  "call_stack getCaller maps i maxDepth =
     concat (map (\<lambda>a. case find_in_maps maps a of Some (Some e) \<Rightarrow> [(a, e)] | _ \<Rightarrow> [])
       (takeWhile (\<lambda>a. a \<noteq> 0) (map getCaller [i .. maxDepth - 1])))"

fun stack_lines :: "int \<Rightarrow> int \<Rightarrow> (u32 \<times> MapFileEntry) list \<Rightarrow> u8 list list" where
  "stack_lines initLevel i [] = []"
| "stack_lines initLevel i (c # cs) =
     (if IsInternalFunction (m_name (snd c)) then [] else [trace_line initLevel i c]) @ stack_lines initLevel (i + 1) cs"

text \<open>The lines that fit into so many bytes, without the first that does not and those behind it.\<close>

fun fitting :: "nat \<Rightarrow> u8 list list \<Rightarrow> u8 list" where
  "fitting room [] = []"
| "fitting room (l # ls) = (if length l < room then l @ fitting (room - length l) ls else [])"

text \<open>What every parsed map file keeps to: names that fit \<open>m_name\<close>.\<close>

definition short_names :: "map_file \<Rightarrow> bool" where
  "short_names m \<longleftrightarrow> (\<forall>e \<in> set (entries m). length (m_name e) \<le> MAX_NAME \<and> 0 \<notin> set (m_name e))"

lemma cstr_no_null: "0 \<notin> set (cstr s)"
  unfolding cstr_def by (auto dest: set_takeWhileD)

lemma new_entry_short: "length (m_name (new_entry a b c s d l)) \<le> MAX_NAME" "0 \<notin> set (m_name (new_entry a b c s d l))"
  using cstr_no_null [of s] by (auto simp: new_entry_def dest: in_set_takeD)

lemma entries_parse [simp]: "entries (parse_word junk s m) = entries m" "entries (parse_char c m) = entries m"
  by (auto simp: parse_word_def parse_char_def parse_error_def Let_def split: prod.splits)

lemma short_names_update [simp]:
  "short_names (m\<lparr>m_text := f\<rparr>) = short_names m" "short_names (parse_word junk s m) = short_names m"
  by (simp_all add: short_names_def)

lemma parse_entry_short: "parse_entry buf lib m = (buf', lib', m') \<Longrightarrow> short_names m \<Longrightarrow> short_names m'"
  unfolding parse_entry_def Let_def short_names_def
  by (auto split: prod.splits if_splits simp: new_entry_short)

lemma nextLineEmpty_entries: "nextLineEmpty m = (b, m') \<Longrightarrow> short_names m' = short_names m"
  by (auto simp: nextLineEmpty_def split: prod.splits)

lemma entry_lines_short: "short_names m \<Longrightarrow> short_names (entry_lines buf lib m)"
proof (induction buf lib m rule: entry_lines.induct)
  case (1 buf lib m)
  obtain buf1 lib1 m1 where p: "parse_entry buf lib m = (buf1, lib1, m1)" by (metis prod_cases3)
  obtain b m2 where n: "nextLineEmpty m1 = (b, m2)" by (cases "nextLineEmpty m1")
  from 1 p n parse_entry_short [OF p] nextLineEmpty_entries [OF n] show ?case
    by (auto simp: entry_lines.simps [of buf lib m])
qed

lemma map_words_short: "short_names m \<Longrightarrow> short_names (map_words junk buf m)"
proof (induction junk buf m rule: map_words.induct)
  case (1 junk buf m)
  obtain b s f where r: "readString 1024 buf (m_text m) = (b, s, f)" by (metis prod_cases3)
  have e: "short_names (parseEntries junk (m\<lparr>m_text := f\<rparr>))"
    using "1.prems" by (simp add: parseEntries_def Let_def entry_lines_short)
  show ?case
    using 1 r e by (cases b) (simp_all add: map_words.simps [of junk buf m])
qed

lemma MapFileImpl_short: "short_names (MapFileImpl junk place contents bad)"
proof -
  obtain b nm f where r: "readString 256 junk (TextFileImpl contents bad) = (b, nm, f)" by (metis prod_cases3)
  have "short_names (map_words junk junk \<lparr>m_text = f, m_err = ERROR_NONE, m_errLine = 0, loadAddr = 0, map_name = nm, entries = []\<rparr>)"
    by (rule map_words_short) (simp add: short_names_def)
  then show ?thesis by (auto simp: MapFileImpl_def r Let_def short_names_def sort_pointers_def)
qed

section \<open>Strings in arrays\<close>

lemma cstr_append [simp]: "0 \<notin> set s \<Longrightarrow> cstr (s @ 0 # r) = s"
  by (induction s) (auto simp: cstr_def)

lemma cstr_split: "0 \<in> set buf \<Longrightarrow> \<exists>r. buf = cstr buf @ 0 # r"
proof (induction buf)
  case (Cons c buf)
  then show ?case by (cases "c = 0") (auto simp: cstr_def)
qed simp

lemma strcat_to_ok:
  assumes "0 \<in> set buf" "length (cstr buf) + length s < length buf" "0 \<notin> set s"
  obtains b where "strcat_to buf s = Some b" "length b = length buf" "cstr b = cstr buf @ s" "0 \<in> set b"
proof -
  from cstr_split [OF assms(1)] obtain r where r: "buf = cstr buf @ 0 # r" by blast
  then have "take (length (cstr buf)) buf = cstr buf" by (metis append_eq_conv_conj)
  with assms cstr_no_null [of buf] cstr_append [of "cstr buf @ s"]
  show thesis by (intro that [of "cstr buf @ s @ 0 # drop (Suc (length (cstr buf) + length s)) buf"])
    (simp_all add: strcat_to_def write_at_def)
qed

lemma sprintf_to_ok:
  "length s < length buf \<Longrightarrow> 0 \<notin> set s \<Longrightarrow> \<exists>b. sprintf_to buf s = Some b \<and> length b = length buf \<and> cstr b = s \<and> 0 \<in> set b"
  by (simp add: sprintf_to_def write_at_def)

text \<open>A null byte at or behind the terminator changes nothing.\<close>

lemma terminate_ok:
  assumes "0 \<in> set buf" "length (cstr buf) \<le> k" "k < length buf"
  obtains b where "write_at k [0] buf = Some b" "length b = length buf" "cstr b = cstr buf" "0 \<in> set b"
proof -
  from cstr_split [OF assms(1)] obtain r where r: "buf = cstr buf @ 0 # r" by blast
  have "cstr (take k buf @ 0 # drop (Suc k) buf) = cstr buf"
  proof (cases "k = length (cstr buf)")
    case True
    with r have "take k buf = cstr buf" by (metis append_eq_conv_conj)
    with cstr_no_null [of buf] show ?thesis by simp
  next
    case False
    with assms(2) have "take k buf = cstr buf @ 0 # take (k - Suc (length (cstr buf))) r"
      by (subst r) (auto simp: take_Cons' )
    with cstr_no_null [of buf] show ?thesis by simp
  qed
  with assms show thesis by (intro that [of "take k buf @ 0 # drop (Suc k) buf"]) (simp_all add: write_at_def)
qed

section \<open>The lines\<close>

lemma hex_text_number: "hex_text n = number_text 16 n"
proof (induction n rule: hex_text.induct)
  case (1 n)
  have "hex_char d = digit_char (int d)" if "d < 16" for d
    using that by (simp add: hex_char_def digit_char_def)
  with 1 show ?case by (simp add: hex_text.simps [of n] number_text_def digits.simps [of 16 n])
qed

lemma hex_text_u32: "length (hex_text (unat (a :: u32))) \<le> 8"
proof -
  have "unat a < 16 ^ Suc 7" using unsigned_less [of a] by simp
  with digits_length [of 16 "unat a" 7] show ?thesis by (simp add: hex_text_number number_text_length)
qed

lemma hex_text_no_null: "0 \<notin> set (hex_text n)"
  using hex_text_chars [of 0 n] by (auto simp: isalnum_def isdigit_def)

lemma trace_line_ok:
  assumes "length (m_name (snd c)) \<le> MAX_NAME" "0 \<notin> set (m_name (snd c))"
  shows "length (trace_line lv i c) \<le> nat (i - lv + 1) + MAX_NAME + 12" "0 \<notin> set (trace_line lv i c)"
  using assms hex_text_u32 [of "fst c"] hex_text_no_null [of "unat (fst c)"]
  by (auto simp: trace_line_def bytes_of_def)

section \<open>The callers\<close>

lemma find_from_range: "find_from es addr n = - 1 \<or> 0 \<le> find_from es addr n \<and> find_from es addr n < int n"
  by (induction n) auto

lemma find_in_maps_ok:
  "\<forall>m \<in> set maps. entries m \<noteq> [] \<Longrightarrow>
   \<exists>r. find_in_maps maps a = Some r \<and> (\<forall>e. r = Some e \<longrightarrow> (\<exists>m \<in> set maps. e \<in> set (entries m)))"
proof (induction maps)
  case (Cons m ms)
  have "\<exists>k. findEntry m a = Some k \<and> (k = - 1 \<or> 0 \<le> k \<and> k < int (length (entries m)))"
    using Cons.prems find_from_range [of "entries m" a "length (entries m)"] by (auto simp: findEntry_def Let_def)
  then obtain k where k: "findEntry m a = Some k" "k = - 1 \<or> 0 \<le> k \<and> k < int (length (entries m))" by blast
  with Cons show ?case by auto
qed simp

lemma find_in_maps_0: "find_in_maps maps 0 = Some None"
  by (induction maps) (simp_all add: findEntry_def)

lemma call_stack_step:
  "i < d \<Longrightarrow> call_stack getCaller maps i d =
     (if getCaller i = 0 then [] else
        (case find_in_maps maps (getCaller i) of Some (Some e) \<Rightarrow> [(getCaller i, e)] | _ \<Rightarrow> []) @ call_stack getCaller maps (i + 1) d)"
  by (simp add: call_stack_def upto.simps [of i])

lemma callers_from_eq:
  assumes "\<forall>m \<in> set maps. entries m \<noteq> []" and "length cs + nat (d - i) \<le> MAX_DEPTH" and "addr \<noteq> 0"
  shows "callers_from getCaller maps d i addr cs = Some (cs @ call_stack getCaller maps i d)"
  using assms
proof (induction getCaller maps d i addr cs rule: callers_from.induct)
  case (1 getCaller maps d i addr cs)
  show ?case
  proof (cases "i < d")
    case False
    then show ?thesis by (simp add: callers_from.simps [of getCaller maps d i] call_stack_def)
  next
    case True
    with "1.prems" have room: "\<not> MAX_DEPTH \<le> length cs" by simp
    note step = callers_from.simps [of getCaller maps d i addr cs] call_stack_step [OF True]
    show ?thesis
    proof (cases "getCaller i = 0")
      case True
      with \<open>i < d\<close> room "1.prems"(3) show ?thesis
        by (simp add: step find_in_maps_0 callers_from.simps [of getCaller maps d "i + 1"])
    next
      case False
      from find_in_maps_ok [OF "1.prems"(1), of "getCaller i"] obtain r where r: "find_in_maps maps (getCaller i) = Some r" by blast
      with True room "1.prems" "1.IH" [OF _ room refl r] False show ?thesis
        by (cases r) (auto simp: step)
    qed
  qed
qed

lemma call_stack_length: "length (call_stack getCaller maps i d) \<le> nat (d - i)"
proof -
  have short: "length (concat (map f xs)) \<le> length xs" if "\<And>x. length (f x) \<le> 1" for f :: "u32 \<Rightarrow> (u32 \<times> MapFileEntry) list" and xs
    using that
  proof (induction xs)
    case (Cons x xs)
    from add_mono [OF Cons.prems [of x] Cons.IH [OF Cons.prems]] show ?case by simp
  qed simp
  have "length (call_stack getCaller maps i d) \<le> length (takeWhile (\<lambda>a. a \<noteq> 0) (map getCaller [i .. d - 1]))"
    unfolding call_stack_def by (rule short) (auto split: option.splits)
  also have "\<dots> \<le> nat (d - i)"
    using length_takeWhile_le [of "\<lambda>a. a \<noteq> 0" "map getCaller [i .. d - 1]"] by simp
  finally show ?thesis .
qed

lemma call_stack_short:
  assumes "\<forall>m \<in> set maps. entries m \<noteq> [] \<and> short_names m" "c \<in> set (call_stack getCaller maps i d)"
  shows "length (m_name (snd c)) \<le> MAX_NAME \<and> 0 \<notin> set (m_name (snd c))"
proof -
  from assms(2) have "find_in_maps maps (fst c) = Some (Some (snd c))" by (auto simp: call_stack_def split: option.splits)
  with find_in_maps_ok [of maps "fst c"] assms(1) show ?thesis by (auto simp: short_names_def)
qed

section \<open>The output\<close>

lemma fitting_length: "0 < room \<Longrightarrow> length (fitting room ls) < room"
  by (induction room ls rule: fitting.induct) auto

lemma fitting_all: "length (concat ls) < room \<Longrightarrow> fitting room ls = concat ls"
  by (induction room ls rule: fitting.induct) auto

text \<open>While everything fits, \<open>needed\<close> is what the buffer holds; afterwards nothing is added.\<close>

lemma trace_lines_eq:
  assumes "0 \<in> set buffer" "int (length (cstr buffer)) \<le> needed" "needed < int (length buffer) \<longrightarrow> needed = int (length (cstr buffer))"
    and "\<forall>c \<in> set cs. length (m_name (snd c)) \<le> MAX_NAME \<and> 0 \<notin> set (m_name (snd c))"
    and "i + int (length cs) \<le> lv + int MAX_DEPTH + 2"
  shows "\<exists>b. trace_lines lv (int (length buffer)) i cs needed buffer = Some (needed + int (length (concat (stack_lines lv i cs))), b) \<and>
    length b = length buffer \<and> 0 \<in> set b \<and>
    cstr b = cstr buffer @ (if needed < int (length buffer) then fitting (length buffer - length (cstr buffer)) (stack_lines lv i cs) else [])"
  using assms
proof (induction cs arbitrary: i needed buffer)
  case Nil
  then show ?case by simp
next
  case (Cons c cs)
  show ?case
  proof (cases "IsInternalFunction (m_name (snd c))")
    case True
    with Cons.IH [of buffer needed "i + 1"] Cons.prems show ?thesis by auto
  next
    case False
    let ?l = "trace_line lv i c" and ?n = "needed + int (length (trace_line lv i c))"
    from Cons.prems(4) have l: "length ?l \<le> nat (i - lv + 1) + MAX_NAME + 12" "0 \<notin> set ?l"
      using trace_line_ok [of c] by auto
    moreover have "nat (i - lv + 1) \<le> MAX_DEPTH + 2" using Cons.prems(5) by simp
    ultimately have len: "\<not> MAX_NAME + MAX_DEPTH + 20 \<le> length ?l" by simp
    show ?thesis
    proof (cases "?n < int (length buffer)")
      case True
      with Cons.prems(3) have n: "needed = int (length (cstr buffer))" by simp
      with True strcat_to_ok [OF Cons.prems(1) _ l(2)] obtain b
        where b: "strcat_to buffer ?l = Some b" "length b = length buffer" "cstr b = cstr buffer @ ?l" "0 \<in> set b" by auto
      have lt: "length ?l < length buffer - length (cstr buffer)" using True n by simp
      from Cons.IH [of b ?n "i + 1"] b n Cons.prems(4,5) False len True lt show ?thesis
        by (auto simp: add.assoc Let_def)
    next
      case over: False
      from Cons.IH [of buffer ?n "i + 1"] Cons.prems False len over show ?thesis
        by (auto simp: add.assoc Let_def)
    qed
  qed
qed

definition lines_of_trace :: "(int \<Rightarrow> u32) \<Rightarrow> map_file list \<Rightarrow> int \<Rightarrow> int \<Rightarrow> u8 list list" where
  "lines_of_trace getCaller maps initLevel maxDepth =
     stack_lines initLevel 1 (rev (call_stack getCaller maps initLevel (min maxDepth (int MAX_DEPTH))))"

lemma stack_trace_buffer:
  assumes "\<forall>m \<in> set maps. entries m \<noteq> [] \<and> short_names m" and "0 \<le> initLevel" and "buffer \<noteq> []"
  shows "\<exists>b. StackTrace_printStackTrace getCaller maps initLevel maxDepth buffer (int (length buffer)) =
      Some (int (length (concat (lines_of_trace getCaller maps initLevel maxDepth))), b) \<and>
    length b = length buffer \<and> 0 \<in> set b \<and>
    cstr b = fitting (length buffer) (lines_of_trace getCaller maps initLevel maxDepth)"
proof -
  let ?d = "min maxDepth (int MAX_DEPTH)" and ?n = "int (length buffer)"
  let ?cs = "call_stack getCaller maps initLevel ?d" and ?ls = "lines_of_trace getCaller maps initLevel maxDepth"
  have len: "int (length ?cs) \<le> 1 + (initLevel + int MAX_DEPTH)"
    using call_stack_length [of getCaller maps initLevel ?d] assms(2) by linarith
  have d: "(if maxDepth > int MAX_DEPTH then int MAX_DEPTH else maxDepth) = ?d" by simp
  from assms have cs: "callers_from getCaller maps ?d initLevel (- 1) [] = Some ?cs"
    by (subst callers_from_eq) (auto simp: MAX_DEPTH_def)
  from assms(3) obtain b0 where b0: "write_at 0 [0] buffer = Some b0" "length b0 = length buffer" "0 \<in> set b0" "cstr b0 = []"
    by (auto simp: write_at_def cstr_def Suc_le_eq)
  have names: "\<forall>c \<in> set (rev ?cs). length (m_name (snd c)) \<le> MAX_NAME \<and> 0 \<notin> set (m_name (snd c))"
    using call_stack_short [OF assms(1)] by auto
  from trace_lines_eq [of b0 0 "rev ?cs" 1 initLevel] b0 names len assms(2)
  obtain b where b: "trace_lines initLevel ?n 1 (rev ?cs) 0 b0 = Some (int (length (concat ?ls)), b)"
      "length b = length buffer" "0 \<in> set b" "cstr b = fitting (length buffer) ?ls"
    using assms(3) by (auto simp: lines_of_trace_def)
  let ?k = "if int (length (concat ?ls)) < ?n then length (concat ?ls) else length buffer - 1"
  have "length (cstr b) \<le> ?k"
    using fitting_length [of "length buffer" ?ls] assms(3) by (auto simp: b(4) fitting_all)
  then obtain b1 where "write_at ?k [0] b = Some b1" "length b1 = length b" "cstr b1 = cstr b" "0 \<in> set b1"
    using terminate_ok [OF b(3), of ?k] assms(3) b(2) by (auto split: if_splits)
  moreover have "nat (?n - 1) = length buffer - 1" by simp
  ultimately show ?thesis
    using assms(3) b b0 cs by (auto simp: StackTrace_printStackTrace_def Let_def d split: if_splits)
qed

text \<open>C39: The stack trace never writes outside the caller's buffer or its own arrays and always ends the buffer
  with a null byte: what it leaves there are the lines of the callers, outermost first, as far as
  whole lines fit, and it returns the length of all of them.\<close>

theorem stack_trace_fits:
  assumes "\<forall>m \<in> set maps. entries m \<noteq> [] \<and> short_names m" and "0 \<le> initLevel" and "buffer \<noteq> []"
  shows "\<exists>b. StackTrace_printStackTrace getCaller maps initLevel maxDepth buffer (int (length buffer)) =
      Some (int (length (concat (lines_of_trace getCaller maps initLevel maxDepth))), b) \<and>
    length b = length buffer \<and> 0 \<in> set b \<and>
    cstr b = fitting (length buffer) (lines_of_trace getCaller maps initLevel maxDepth)"
  using assms by (rule stack_trace_buffer)

text \<open>Two frames, of which 30 bytes take one line.\<close>

definition sample_frames :: "int \<Rightarrow> u32" where
  "sample_frames i = (if i = 1 then 0x401210 else if i = 2 then 0x4011B0 else 0)"

lemma sample_map_entries: "map_error (sample_map id) = ERROR_NONE" "entries (sample_map id) = map entry_of sample_symbols"
  using map_file_entries [OF sample_symbols_good(2,3) _ _ sample_symbols_good(1), of "[]" "[]" id]
  by (simp_all add: sample_map_def sample_symbols_def)

lemma sample_lines:
  "lines_of_trace sample_frames [sample_map id] 1 16 =
     [bytes_of '' stackTrace (4011b0)'' @ [10], bytes_of ''  run.App (401210)'' @ [10]]"
proof -
  have "takeWhile (\<lambda>a. a \<noteq> 0) (map sample_frames [1 .. 15]) = [0x401210, 0x4011B0]"
    by (simp add: upto.simps sample_frames_def)
  moreover have "find_in_maps [sample_map id] 0x401210 = Some (Some (entry_of (sample_symbols ! 1)))"
      "find_in_maps [sample_map id] 0x4011B0 = Some (Some (entry_of (sample_symbols ! 0)))"
    by (simp_all add: findEntry_def sample_map_entries sample_symbols_def entry_of_def new_entry_def)
  moreover have "m_name (entry_of (sample_symbols ! 1)) = bytes_of ''run.App''" "m_name (entry_of (sample_symbols ! 0)) = bytes_of ''stackTrace''"
    by (simp_all add: sample_symbols_def entry_of_def new_entry_def plain_name_def dots_def leading_def isdigit_def cstr_def MAX_NAME_def bytes_of_def)
  moreover have "replicate 2 (32 :: u8) = [32, 32]" by (simp add: numeral_2_eq_2)
  ultimately show ?thesis
    by (simp add: lines_of_trace_def call_stack_def MAX_DEPTH_def IsInternalFunction_def internalFunctions_def trace_line_def bytes_of_def
      hex_text.simps hex_char_def)
qed

theorem stack_trace_fits_witness:
  "\<exists>b. StackTrace_printStackTrace sample_frames [sample_map id] 1 16 (replicate 30 1) 30 = Some (40, b) \<and>
    cstr b = bytes_of '' stackTrace (4011b0)'' @ [10]"
proof -
  have m: "short_names (sample_map id)" "entries (sample_map id) \<noteq> []"
    by (simp add: sample_map_def MapFileImpl_short) (simp add: sample_map_entries sample_symbols_def)
  then show ?thesis
    using stack_trace_fits [of "[sample_map id]" 1 "replicate 30 1" sample_frames 16] by (auto simp: sample_lines bytes_of_def)
qed

section \<open>The interface's answers\<close>

lemma getModuleMapFilename_ok:
  "4 < n \<Longrightarrow> 0 \<notin> set exe \<Longrightarrow> length (getModuleMapFilename exe n) < n \<and> 0 \<notin> set (getModuleMapFilename exe n)"
  by (auto simp: getModuleMapFilename_def Let_def bytes_of_def dest: in_set_takeD)

definition good_filename :: "u8 list \<Rightarrow> bool" where
  "good_filename nm \<longleftrightarrow> length nm < 500 \<and> 0 \<notin> set nm"

lemma map_filename_ok:
  "0 \<notin> set exe \<Longrightarrow> (case mapFilename of None \<Rightarrow> True | Some nm \<Rightarrow> good_filename nm) \<Longrightarrow>
   \<exists>nm. map_filename exe mapFilename = Some nm \<and> good_filename nm"
  using getModuleMapFilename_ok [of 500 exe] by (auto simp: map_filename_def good_filename_def split: option.splits)

lemma signed_text_ok:
  assumes "0 \<le> n" "n < 2 ^ 31"
  shows "length (signed_text n) \<le> 10" "0 \<notin> set (signed_text n)"
proof -
  from assms have "nat n < 10 ^ Suc 9" by simp
  with assms digits_length [of 10 "nat n" 9] show "length (signed_text n) \<le> 10"
    by (simp add: signed_text_def number_text_length)
  have "digit_char (int d) \<noteq> 0" if "d < 10" for d
    using that unat_digit_char [of d] by auto
  with assms digits_less [of 10 _ "nat n"] show "0 \<notin> set (signed_text n)"
    by (force simp: signed_text_def number_text_def)
qed

lemma map_message_ok:
  assumes "good_filename nm" "0 \<le> map_line m" "map_line m < 2 ^ 31" "map_message nm m = Some s"
  shows "length s < 600 \<and> 0 \<notin> set s"
  using assms signed_text_ok [of "map_line m"]
  by (auto simp: map_message_def good_filename_def bytes_of_def split: ErrorType.splits)

lemma map_message_None: "map_message nm m = None \<longleftrightarrow> map_error m = ERROR_NONE"
  by (simp add: map_message_def split: ErrorType.splits)


text \<open>Every later call leaves the buffer as it is when the map file could not be read.\<close>

lemma later_trace_silent:
  "map_error m \<noteq> ERROR_NONE \<Longrightarrow>
   printStackTrace getCaller exe newMapFile (Some m) buffer bufferSize mapFilename = Some (m, buffer)"
  by (simp add: printStackTrace_def)

lemma cleanup_forgets: "snd (StackTraceCleanup parsed) = None"
  by (simp add: StackTraceCleanup_def)

text \<open>A directory with one map file.\<close>

definition sample_directory :: "u8 list \<Rightarrow> u8 list option" where
  "sample_directory nm =
     (if nm = bytes_of ''app.map''
      then Some (map_file_text (bytes_of ''app'') [([32], bytes_of ''Timestamp is 44'')] sample_symbols []) else None)"

lemma map_file_missing:
  "map_error (MapFileImpl junk place None bad) = ERROR_OPEN" "map_line (MapFileImpl junk place None bad) = 1"
  by (simp_all add: MapFileImpl_def TextFileImpl_def readString_def skipWhitespace_def map_words.simps peekChar_def
    map_error_def map_line_def Let_def)


end
