(* ===== verification/Spec2Isabelle.thy ===== *)
theory Spec2Isabelle
  imports Duma_New Duma_Leak Duma_Createconf Duma_Threads Duma_Progress Duma_StackTrace
begin

text \<open>
  DUMA replaces the C library's allocator by one that puts every block against an inaccessible
  page, so that an overrun (or an underrun) faults at the instruction that commits it, keeps
  freed blocks inaccessible for as long as memory allows, and checks the rest of the block's pages,
  its no man's land, for changes.  This development models the C and C++ code of the Linux library,
  of the program that writes its configuration and of the stack traces that programs on Windows can
  add to it, in the order the code has it, and proves what the code promises.

  \<^bold>\<open>The program and its parts.\<close>
  A program calls \<open>malloc\<close>, \<open>free\<close>, \<open>memcpy\<close>, ... of \<open>src/src/duma.c\<close>, or the operators \<open>new\<close> and
  \<open>delete\<close> of \<open>src/src/dumapp.cpp\<close>.  All of them take the recursive lock of \<open>src/src/sem_inc.c\<close> and
  work on one table of slots, one per block; the table lies in pages of its own that are opened at
  the entrance of an operation and closed at its exit.  Pages come from the kernel through
  \<open>src/paging.h\<close>; the searches in the table and the no man's land are in \<open>src/duma_hlp.h\<close>.  An
  allocation finds a free slot or makes one, may release the pages of freed blocks to make room, and
  may call itself to enlarge the table.  Settings come from the environment during start-up.
  Messages go through the formatter of \<open>src/src/print.c\<close>.  \<open>src/createconf.c\<close> runs when the library
  is built and writes the page size, the alignment and the integer types the library is compiled
  with.  \<open>src/stacktrace\<close> stands beside the library: it reads the map file of the linker and prints the
  names of the calling functions into a buffer.

  \<^bold>\<open>Where the code is modelled.\<close>

  \<^item> \<open>Duma_Prelude\<close>: machine integers, sequencing of outcomes, rounding by masks, address ranges; the
    three collections of rewrite rules.
  \<^item> \<open>Duma_Types\<close>: the enumerations of \<open>duma.c\<close> and \<open>duma.h\<close> in their order, the table of
    allocators with the pairs that match (\<open>malloc\<close>/\<open>free\<close>, \<open>new[]\<close>/\<open>delete[]\<close>, ...), and the messages.
  \<^item> \<open>Duma_Paging\<close>: \<open>Page_Create\<close>, \<open>Page_Delete\<close>, \<open>Page_AllowAccess\<close>, \<open>Page_DenyAccess\<close>.
  \<^item> \<open>Duma_Sem\<close>: \<open>DUMA_init_sem\<close>, \<open>DUMA_get_sem\<close>, \<open>DUMA_rel_sem\<close> as one thread sees them; \<open>Duma_Threads\<close>: the
    same code with every access to a shared variable as a step of its own, for any number of threads.
  \<^item> \<open>Duma_State\<close>: \<open>struct _DUMA_Slot\<close>, the thread-local, global and static variables with their
    initial values, loads and stores of the program, and the fill loops.
  \<^item> \<open>Duma_Heap\<close>: the invariant \<open>heap_ok\<close> of the table, and what it gives.
  \<^item> \<open>Duma_Slots\<close>, \<open>Duma_Reduce\<close>: \<open>duma_hlp.h\<close>, that is \<open>slotForUserAddress\<close>, \<open>nearestSlotForUserAddress\<close>,
    \<open>_duma_init_slack\<close>, \<open>_duma_check_slack\<close>, \<open>_duma_check_all_slacks\<close> and \<open>reduceProtectedMemory\<close>.
  \<^item> \<open>Duma_Free\<close>: \<open>_duma_deallocate\<close>, \<open>duma_check\<close>, \<open>duma_checkAll\<close>.
  \<^item> \<open>Duma_Alloc\<close>: \<open>_duma_allocate\<close> and \<open>allocateMoreSlots\<close>, cut into the steps of the code; \<open>Duma_Place\<close> on
    where a block is put, \<open>Duma_Alloc_Correct\<close> and \<open>Duma_Block\<close> on the steps, \<open>Duma_Grow\<close> on the recursion
    between the two functions, \<open>Duma_Malloc\<close> on what a caller may rely on, \<open>Duma_Frame\<close> on what both
    directions leave alone.
  \<^item> \<open>Duma_Api\<close>: \<open>_duma_malloc\<close>, \<open>_duma_calloc\<close>, \<open>_duma_free\<close>, \<open>_duma_memalign\<close>, \<open>_duma_posix_memalign\<close>,
    \<open>_duma_realloc\<close>, \<open>_duma_valloc\<close>, \<open>_duma_strdup\<close>, \<open>_duma_malloc_usable_size\<close>; \<open>Duma_Init\<close>: \<open>duma_init\<close> and
    \<open>_duma_init\<close>, and the functions \<open>malloc\<close>, \<open>free\<close>, ... that replace the C library's;
    \<open>Duma_Env\<close>: \<open>duma_getenv\<close> and \<open>duma_getenvvars\<close>.
  \<^item> \<open>Duma_String\<close>: the replacements of \<open>memcpy\<close>, \<open>memmove\<close>, \<open>strcpy\<close>, \<open>strncpy\<close>, \<open>strcat\<close>, \<open>strncat\<close>.
  \<^item> \<open>Duma_New\<close>: the operators of \<open>dumapp.cpp\<close> and the macro \<open>delete\<close> of \<open>dumapp.h\<close>.
  \<^item> \<open>Duma_Leak\<close>: \<open>DUMA_newFrame\<close>, \<open>DUMA_delFrame\<close>, \<open>_duma_exit\<close>.
  \<^item> \<open>Duma_Print\<close>: \<open>print.c\<close>; \<open>Duma_Createconf\<close>: \<open>createconf.c\<close>.
  \<^item> \<open>Duma_Client\<close>: the abstract heap of a program and the simulation by the library;
    \<open>Duma_Returns\<close>, \<open>Duma_Alloc_Returns\<close>, \<open>Duma_Progress\<close>: which operations cannot stop the program, in
    the order checks and \<open>free\<close>, \<open>_duma_allocate\<close>, whole programs.
  \<^item> \<open>Duma_Array\<close>, \<open>Duma_TextFile\<close>, \<open>Duma_MapFile\<close>: \<open>Array.h\<close>, \<open>TextFile.cpp\<close>, \<open>MapFile.cpp\<close> and
    \<open>MapFileEntry.cpp\<close> of \<open>src/stacktrace/internal\<close>; \<open>Duma_StackTrace\<close>: \<open>StackTrace.cpp\<close> there and
    \<open>src/stacktrace/printStackTrace.cpp\<close>.
  \<^item> \<open>Duma_Sample\<close>: a concrete kernel and heap, the input of the witnesses.

  \<^bold>\<open>How the state corresponds.\<close>
  The variables of the code are the fields of six records, each extending the one before.
  \<open>machine\<close> is the memory: a protection for every page, a byte for every address, the address hint
  of \<open>paging.h\<close>, a counter of system calls that lets the kernel answer the same request
  differently, and the messages printed so far.  \<open>sem_state\<close> adds the variables of \<open>sem_inc.c\<close>;
  \<open>tls_vars\<close>, \<open>global_vars\<close> (with the slot array) and \<open>static_vars\<close> the fields of
  \<open>DUMA_TLSVARS_T\<close>, \<open>DUMA_GLOBALVARS_T\<close> and the static variables of \<open>duma.c\<close>; \<open>world\<close> the output
  settings of \<open>print.c\<close> and the environment.  The slot array is a list, in the order of the array; the pages it lies in are still
  opened and closed, and the slot that describes them is one of its entries.  A load or a store at
  an address whose page is not accessible is a fault.  An operation returns a sum: on the left how
  the program stopped (an abort with its message, an exit, a fault, a thread blocked on the lock),
  on the right its result and the new state.

  \<^bold>\<open>The kernel\<close> is the parameter \<open>platform\<close>: the page size, and \<open>mmap\<close>, \<open>mprotect\<close> and \<open>munmap\<close> as
  functions of the call counter, the pages and the arguments.  The hypothesis \<open>os_ok\<close> states what their
  manual pages say: \<open>mmap\<close> returns page-aligned memory that was unmapped, \<open>mprotect\<close> succeeds only on
  page-aligned mapped memory.  Each of them may fail at any call.  Only the theorems on programs that
  are never stopped need more: \<open>reliable\<close> says that \<open>mprotect\<close> does succeed on page-aligned mapped memory.
  \<open>Duma_Sample\<close> and \<open>Duma_Returns\<close> prove \<open>os_ok\<close> and \<open>reliable\<close> of a concrete kernel.  The new handler of a C++ program and the destructors \<open>delete\<close> runs are arguments of the definitions
  in the same way, and so are the sizes and the kernel's page size that \<open>createconf\<close> measures, the contents of a map file,
  the addresses of its entries and the frames that the stack trace walks.

  \<^bold>\<open>What the lemmas show.\<close>

  \<^item> Protection.  A block that is returned is accessible, aligned and filled; the first byte behind it
    (in front of it, in the other mode) faults; it shares no byte with another block; live blocks
    keep contents and protection under every operation (\<open>keeps\<close>).
  \<^item> Freeing.  A freed block is inaccessible, a second \<open>free\<close> stops the program, a changed no man's
    land stops it, the lock is given back on every path that returns.
  \<^item> Composition.  Start-up from the initial state establishes the invariant and every sequence
    of calls and accesses that a correct program makes is a run of an abstract heap that maps
    addresses to contents.
  \<^item> No false alarms.  A program that frees only its own blocks and stays inside them is stopped only
    when there is no memory: it runs to its end, with the results of the abstract heap, from the state
    that start-up leaves.  The conditions are two empty slots at every allocation, which
    \<open>allocateMoreSlots\<close> provides as long as the table does not exceed its bound, and that the
    periodic check of all blocks is switched off (\<open>CHECK_FREQ\<close> is 0 after the constructor).
  \<^item> Concurrency.  At most one thread is between the lock and its release, under every interleaving,
    and some thread can always move.
  \<^item> Failure.  When the kernel refuses memory, \<open>malloc\<close> returns null or stops with its message,
    and the blocks are as before; the released pages are accounted for.
  \<^item> Strings, formatting, settings, configuration.  The byte loops compute what the C standard says, or
    abort on an overlap; the formatter equals a direct reading of the pattern; a value of the
    environment within its bounds is the setting; what \<open>createconf\<close> writes reads back as what it
    measured, and a library configured by it starts with a valid heap.
  \<^item> Stack traces.  The parser reads back the symbols of every well-formed map file, an address is put
    to the symbol it lies behind, and no call writes outside the buffer of the caller.  Lemmas beside
    these show where the code goes wrong: the order of the entries, the destructor, a map file
    without entries, a second call after an error.

  \<^bold>\<open>Interfaces.\<close>
  Seven locales, each interpreted on the definitions of the model.  \<open>page_protection\<close> (\<open>Duma_Paging\<close>)
  says what allowing and denying access does to each byte.  \<open>balanced_lock\<close> (\<open>Duma_Sem\<close>) says that a
  release undoes an acquisition, for all operations that run between them.  \<open>release_loop\<close>
  (\<open>Duma_Reduce\<close>) is shared by the two passes of \<open>reduceProtectedMemory\<close>.  \<open>table_grower\<close> (\<open>Duma_Grow\<close>) is
  what \<open>_duma_allocate\<close> needs of the function that enlarges the table; its first interpretation, with
  no growth, covers the internal allocation \<open>allocateMoreSlots\<close> makes, and gives the second, on
  \<open>allocateMoreSlots\<close> itself.  \<open>growing_table\<close> (\<open>Duma_Alloc_Returns\<close>) extends it by what lets an
  allocation return, and has the same two interpretations.  \<open>heap_simulation\<close> (\<open>Duma_Client\<close>) lifts a
  simulation of single calls to runs, and \<open>heap_progress\<close> (\<open>Duma_Progress\<close>) extends it to runs that
  reach their end.

  \<^bold>\<open>Bounds.\<close>
  The page size is a power of two between \<open>2^12\<close> and \<open>2^20\<close>.  A request and its alignment are at most
  \<open>2^29\<close> bytes and the slot array at most \<open>2^28\<close>, because \<open>Page_Create\<close> passes the size to \<open>mmap\<close> as an
  \<open>int\<close>; below these bounds no sum of the code wraps.  Integers have the widths of an LP64 target; in the theories on stack traces
  a \<open>long\<close> has the 32 bits of Windows.
  No definition uses fuel: the loops have measures, except \<open>scan_len\<close>, \<open>copy_up\<close> (their 32-bit counter
  may wrap for ever, which is a theorem about \<open>memcpy\<close>) and the loop of \<open>operator new\<close> around its
  handler, which are partial functions whose result is \<open>None\<close> when they do not return.  The
  recursion of \<open>_duma_allocate\<close> through \<open>allocateMoreSlots\<close> is one level deep, since the inner call
  skips the enlargement.  \<open>sprintAddr\<close> counts down the free places of its buffer, as the code does.

  \<^bold>\<open>Not modelled.\<close>

  \<^item> Windows: the branches of \<open>duma.c\<close>, \<open>paging.h\<close> and \<open>sem_inc.c\<close> for it, \<open>src/dumadll\<close>, \<open>src/win32-msvc\<close>,
    \<open>src/Attic/dumadetours\<close>, \<open>src/Attic/dumadetoursdll\<close>, and the walk of the x86 frames in
    \<open>StackTrace.cpp\<close>, which is inline assembly.  Nothing of them is compiled into the library modelled here.
  \<^item> \<open>src/Attic/kduma\<close>: an earlier copy of the library for Windows drivers; no build file mentions it.
  \<^item> \<open>src/stacktrace/linux-i386\<close>: a walk of the frames on another processor that only prints addresses.
  \<^item> \<open>src/createconf_new.cpp\<close>: an unfinished rewrite; \<open>src/createconf.c\<close> is what the build runs.
  \<^item> The tests and examples, and the headers that only rename functions.
  \<^item> Compile-time variants: \<open>DUMA_SEMAPHORES\<close> (kernel semaphores in place of a mutex), the library
    without thread safety, \<open>DUMA_EXPLICIT_INIT\<close>, the preallocated stack of protection spaces.
  \<^item> A failing \<open>fopen\<close> of the files the tools write, and the texts of the banner, which are
    names of messages.
\<close>

end
